(* ===== verification/Prelude.thy ===== *)
theory Prelude
  imports Complex_Main "HOL-Library.Word" "HOL-Library.Signed_Division" "HOL-Library.Monad_Syntax"
begin

text \<open>
  Shared vocabulary of the development: the C++ integer types and their arithmetic, the
  generic lemmas on options, lists and words, and the collections of facts the component
  theories extend.

  \<^item> \<open>uint64_t\<close>, \<open>uint32_t\<close> and \<open>uint8_t\<close> are words of their width: \<open>+\<close>, \<open>-\<close>, \<open>*\<close> wrap.
  \<^item> \<open>int64_t\<close> is an \<^typ>\<open>int\<close> within \<open>in_i64\<close>. Plain signed arithmetic that leaves the range is
    undefined behaviour in C++; the checked operations \<open>i64_add\<close>, \<open>i64_sub\<close>, \<open>i64_mul\<close>,
    \<open>i64_neg\<close> and \<open>i64_div\<close> return \<^const>\<open>None\<close> there, so every operation built from them
    has \<^const>\<open>None\<close> exactly where the program's behaviour is undefined.
  \<^item> \<open>std::atomic<int64_t>::fetch_add\<close> and \<open>fetch_sub\<close> and the conversions from unsigned are
    two's complement: \<open>wrap_i64\<close>.
\<close>

section \<open>Integer types\<close>

type_synonym u8 = "8 word"
type_synonym u32 = "32 word"
type_synonym u64 = "64 word"
type_synonym i64 = int

named_theorems i64_simps \<open>unfolding the checked 64-bit operations\<close>
named_theorems invariant_intros \<open>preservation of component invariants\<close>

definition in_i64 :: "int \<Rightarrow> bool" where
  "in_i64 x \<longleftrightarrow> - (2 ^ 63) \<le> x \<and> x < 2 ^ 63"

definition wrap_i64 :: "int \<Rightarrow> i64" where
  "wrap_i64 x = (x + 2 ^ 63) mod 2 ^ 64 - 2 ^ 63"

definition chk_i64 :: "int \<Rightarrow> i64 option" where
  "chk_i64 x = (if in_i64 x then Some x else None)"

definition i64_add :: "i64 \<Rightarrow> i64 \<Rightarrow> i64 option" where
  "i64_add a b = chk_i64 (a + b)"

definition i64_sub :: "i64 \<Rightarrow> i64 \<Rightarrow> i64 option" where
  "i64_sub a b = chk_i64 (a - b)"

definition i64_mul :: "i64 \<Rightarrow> i64 \<Rightarrow> i64 option" where
  "i64_mul a b = chk_i64 (a * b)"

definition i64_neg :: "i64 \<Rightarrow> i64 option" where
  "i64_neg a = chk_i64 (- a)"

text \<open>Division truncates towards zero; a zero divisor and \<open>INT64_MIN / -1\<close> are undefined.\<close>

definition i64_div :: "i64 \<Rightarrow> i64 \<Rightarrow> i64 option" where
  "i64_div a b = (if b = 0 then None else chk_i64 (a sdiv b))"

definition i64_to_u64 :: "i64 \<Rightarrow> u64" where
  "i64_to_u64 x = word_of_int x"

definition u64_to_i64 :: "u64 \<Rightarrow> i64" where
  "u64_to_i64 w = sint w"

lemmas i64_ops_defs [i64_simps] =
  i64_add_def i64_sub_def i64_mul_def i64_neg_def i64_div_def

lemma chk_i64_eq_Some [simp]: "chk_i64 x = Some y \<longleftrightarrow> in_i64 x \<and> y = x"
  by (auto simp: chk_i64_def)

lemma chk_i64_eq_None [simp]: "chk_i64 x = None \<longleftrightarrow> \<not> in_i64 x"
  by (simp add: chk_i64_def)

lemma in_i64_0 [simp]: "in_i64 0"
  by (simp add: in_i64_def)

lemma in_i64_wrap [simp, intro]: "in_i64 (wrap_i64 x)"
proof -
  have "0 \<le> (x + 2 ^ 63) mod 2 ^ 64" and "(x + 2 ^ 63) mod 2 ^ 64 < (2 ^ 64 :: int)"
    by simp_all
  then show ?thesis
    unfolding in_i64_def wrap_i64_def by simp
qed

lemma wrap_i64_id [simp]: "in_i64 x \<Longrightarrow> wrap_i64 x = x"
  by (simp add: in_i64_def wrap_i64_def)

lemma wrap_i64_mod: "wrap_i64 x mod 2 ^ 64 = x mod 2 ^ 64"
  unfolding wrap_i64_def by (simp add: mod_diff_left_eq)

lemma wrap_i64_eq_iff: "wrap_i64 x = wrap_i64 y \<longleftrightarrow> x mod 2 ^ 64 = y mod 2 ^ 64"
proof
  assume "wrap_i64 x = wrap_i64 y"
  then show "x mod 2 ^ 64 = y mod 2 ^ 64" by (metis wrap_i64_mod)
next
  assume "x mod 2 ^ 64 = y mod 2 ^ 64"
  then have "(x + 2 ^ 63) mod 2 ^ 64 = (y + 2 ^ 63) mod 2 ^ 64"
    by (metis mod_add_left_eq)
  then show "wrap_i64 x = wrap_i64 y" by (simp add: wrap_i64_def)
qed

lemma wrap_i64_add_left [simp]: "wrap_i64 (wrap_i64 x + y) = wrap_i64 (x + y)"
  by (simp only: wrap_i64_eq_iff) (metis mod_add_left_eq wrap_i64_mod)

lemma wrap_i64_add_right [simp]: "wrap_i64 (x + wrap_i64 y) = wrap_i64 (x + y)"
  by (metis add.commute wrap_i64_add_left)

lemma wrap_i64_diff_left [simp]: "wrap_i64 (wrap_i64 x - y) = wrap_i64 (x - y)"
  by (simp only: wrap_i64_eq_iff) (metis mod_diff_left_eq wrap_i64_mod)

lemma wrap_i64_diff_right [simp]: "wrap_i64 (x - wrap_i64 y) = wrap_i64 (x - y)"
  by (simp only: wrap_i64_eq_iff) (metis mod_diff_right_eq wrap_i64_mod)

lemma in_i64_between: "in_i64 a \<Longrightarrow> in_i64 b \<Longrightarrow> a \<le> x \<Longrightarrow> x \<le> b \<Longrightarrow> in_i64 x"
  by (simp add: in_i64_def)

lemma in_i64_abs_le: "\<bar>x\<bar> \<le> b \<Longrightarrow> b < 2 ^ 63 \<Longrightarrow> in_i64 x"
  by (auto simp: in_i64_def abs_le_iff)

lemma sint_u64_in_i64 [simp, intro]: "in_i64 (u64_to_i64 w)"
  using sint_range_size [of w] by (simp add: in_i64_def u64_to_i64_def word_size)

lemma u64_to_i64_nonneg:
  assumes "unat w < 2 ^ 63"
  shows "u64_to_i64 w = int (unat w)"
proof -
  have "uint w < 2 ^ 63"
    by (metis assms of_nat_less_iff of_nat_numeral of_nat_power uint_nat)
  then have "signed_take_bit 63 (uint w) = uint w"
    by (intro signed_take_bit_int_eq_self) (simp_all add: order_trans [OF _ uint_ge_0])
  then show ?thesis
    by (simp add: u64_to_i64_def sint_uint)
qed

section \<open>Sequences of fallible operations\<close>

fun run_list :: "('a \<Rightarrow> 's \<Rightarrow> 's option) \<Rightarrow> 'a list \<Rightarrow> 's \<Rightarrow> 's option" where
  "run_list f [] s = Some s"
| "run_list f (x # xs) s = (case f x s of None \<Rightarrow> None | Some s' \<Rightarrow> run_list f xs s')"

lemma run_list_append:
  "run_list f (xs @ ys) s = (case run_list f xs s of None \<Rightarrow> None | Some s' \<Rightarrow> run_list f ys s')"
  by (induction xs arbitrary: s) (auto split: option.splits)

lemma run_list_inv:
  assumes "run_list f xs s = Some s'" and "I s"
    and "\<And>x s s'. x \<in> set xs \<Longrightarrow> I s \<Longrightarrow> f x s = Some s' \<Longrightarrow> I s'"
  shows "I s'"
  using assms
proof (induction xs arbitrary: s)
  case (Cons x xs)
  from Cons.prems(1) obtain s1 where s1: "f x s = Some s1" "run_list f xs s1 = Some s'"
    by (auto split: option.splits)
  have "I s1" using Cons.prems(3) [OF _ Cons.prems(2) s1(1)] by simp
  then show ?case using Cons.prems(3) by (intro Cons.IH [OF s1(2)]) auto
qed simp

end
