(* ===== verification/Floats.thy ===== *)
theory Floats
  imports Prelude "HOL-Library.Log_Nat"
begin

text \<open>
  IEEE 754 binary floating point as the sources use it: \<open>double\<close> prices and limits, and the
  \<open>long double\<close> notional of the risk check. A finite value is the rational number it denotes;
  every operation computes exactly and rounds once to the nearest representable value, ties
  to even. The sign of zero is not represented: no operation of the sources observes it.
  \<open>long double\<close> is the 80-bit extended format of the x86-64 Linux target (64-bit significand).
\<close>

section \<open>Rounding\<close>

definition pow2 :: "int \<Rightarrow> rat" where
  "pow2 e = (if 0 \<le> e then 2 ^ nat e else 1 / 2 ^ nat (- e))"

text \<open>\<open>ilog2 r\<close> is the exponent of the binade of \<open>r > 0\<close>.\<close>

definition ilog2 :: "rat \<Rightarrow> int" where
  "ilog2 r = (let (a, b) = quotient_of r; e = bitlen a - bitlen b
              in if pow2 e \<le> r then e else e - 1)"

definition round_even :: "rat \<Rightarrow> int" where
  "round_even x =
     (let f = \<lfloor>x\<rfloor>; d = x - of_int f
      in if d < 1 / 2 then f else if 1 / 2 < d then f + 1 else if even f then f else f + 1)"

definition fexp :: "nat \<Rightarrow> int \<Rightarrow> rat \<Rightarrow> int" where
  "fexp p emin r = max (ilog2 \<bar>r\<bar> - int p + 1) emin"

definition fround :: "nat \<Rightarrow> int \<Rightarrow> rat \<Rightarrow> rat" where
  "fround p emin r =
     (if r = 0 then 0
      else let q = pow2 (fexp p emin r) in of_int (round_even (r / q)) * q)"

lemma pow2_powi: "pow2 e = 2 powi e"
  by (simp only: pow2_def power_int_def divide_inverse mult_1_left power_inverse)

lemma pow2_pos [simp]: "0 < pow2 e"
  by (simp add: pow2_def)

lemma pow2_nonneg [simp]: "0 \<le> pow2 e"
  by (simp add: less_imp_le)

lemma pow2_nz [simp]: "pow2 e \<noteq> 0"
  using pow2_pos [of e] by (metis less_irrefl)

lemma pow2_add: "pow2 (a + b) = pow2 a * pow2 b"
  by (simp add: pow2_powi power_int_add)

lemma pow2_minus: "pow2 (- a) = 1 / pow2 a"
  by (simp add: pow2_powi power_int_minus divide_inverse)

lemma pow2_diff: "pow2 (a - b) = pow2 a / pow2 b"
  by (simp add: pow2_powi power_int_diff)

lemma pow2_nat: "pow2 (int n) = 2 ^ n"
  by (simp add: pow2_def)

lemma pow2_0 [simp]: "pow2 0 = 1"
  by (simp add: pow2_def)

lemma pow2_1 [simp]: "pow2 1 = 2"
  by (simp add: pow2_def)

lemma pow2_mono: "a \<le> b \<Longrightarrow> pow2 a \<le> pow2 b"
  by (simp add: pow2_powi power_int_increasing)

lemma pow2_strict_mono: "a < b \<Longrightarrow> pow2 a < pow2 b"
  by (simp add: pow2_powi power_int_strict_increasing)

lemma pow2_less_cancel: "pow2 a < pow2 b \<Longrightarrow> a < b"
  by (meson not_le pow2_mono)

lemma bitlen_rat_bounds:
  assumes "0 < a"
  shows "pow2 (bitlen a - 1) \<le> of_int a" and "of_int a < pow2 (bitlen a)"
proof -
  have pos: "1 \<le> bitlen a"
    using assms by (simp add: bitlen_def floorlog_def)
  have b: "2 ^ nat (bitlen a - 1) \<le> a" "a < 2 ^ nat (bitlen a)"
    using bitlen_bounds [OF assms] by simp_all
  have "(of_int (2 ^ nat (bitlen a - 1)) :: rat) \<le> of_int a"
    using b(1) by (simp only: of_int_le_iff)
  then show "pow2 (bitlen a - 1) \<le> of_int a"
    using pos by (simp add: pow2_def)
  have "(of_int a :: rat) < of_int (2 ^ nat (bitlen a))"
    using b(2) by (simp only: of_int_less_iff)
  then show "of_int a < pow2 (bitlen a)"
    using pos by (simp add: pow2_def)
qed

lemma ilog2_bounds:
  assumes "0 < r"
  shows "pow2 (ilog2 r) \<le> r" and "r < pow2 (ilog2 r + 1)"
proof -
  obtain a b where q: "quotient_of r = (a, b)" by (cases "quotient_of r")
  then have r: "r = of_int a / of_int b" by (rule quotient_of_div)
  have b: "0 < b" using q by (rule quotient_of_denom_pos)
  then have a: "0 < a" using assms r by (simp add: zero_less_divide_iff)
  note ba = bitlen_rat_bounds [OF a] and bb = bitlen_rat_bounds [OF b]
  define e where "e = bitlen a - bitlen b"
  have "r * pow2 (bitlen b - 1) \<le> r * of_int b"
    using bb(1) assms by simp
  also have "r * of_int b = of_int a"
    using b by (simp add: r)
  also have "of_int a < pow2 (bitlen a)" by (rule ba(2))
  also have "pow2 (bitlen a) = pow2 (e + 1) * pow2 (bitlen b - 1)"
    by (simp add: e_def flip: pow2_add)
  finally have up: "r < pow2 (e + 1)" by simp
  have "pow2 (e - 1) * pow2 (bitlen b) = pow2 (bitlen a - 1)"
    by (simp add: e_def flip: pow2_add)
  also have "\<dots> \<le> of_int a" by (rule ba(1))
  also have "\<dots> = r * of_int b" using b by (simp add: r)
  also have "\<dots> < r * pow2 (bitlen b)" using bb(2) assms by simp
  finally have lo: "pow2 (e - 1) < r" by simp
  have il: "ilog2 r = (if pow2 e \<le> r then e else e - 1)"
    by (simp add: ilog2_def q e_def Let_def)
  show "pow2 (ilog2 r) \<le> r" using lo by (simp add: il)
  show "r < pow2 (ilog2 r + 1)" using up by (simp add: il)
qed

lemma round_even_err: "\<bar>of_int (round_even x) - x\<bar> \<le> 1 / 2"
proof -
  have "0 \<le> x - of_int \<lfloor>x\<rfloor>" and "x - of_int \<lfloor>x\<rfloor> < 1"
    by (simp, linarith)
  then show ?thesis
    by (auto simp: round_even_def Let_def abs_le_iff)
qed

lemma round_even_of_int [simp]: "round_even (of_int n) = n"
  by (simp add: round_even_def)

lemma fround_0 [simp]: "fround p emin 0 = 0"
  by (simp add: fround_def)

lemma fround_err:
  assumes "r \<noteq> 0"
  shows "\<bar>fround p emin r - r\<bar> \<le> pow2 (fexp p emin r) / 2"
proof -
  define q where "q = pow2 (fexp p emin r)"
  have q: "0 < q" by (simp add: q_def)
  have "fround p emin r - r = (of_int (round_even (r / q)) - r / q) * q"
    using assms q by (simp add: fround_def Let_def left_diff_distrib flip: q_def)
  then have "\<bar>fround p emin r - r\<bar> = \<bar>of_int (round_even (r / q)) - r / q\<bar> * q"
    using q by (simp add: abs_mult)
  also have "\<dots> \<le> 1 / 2 * q"
    using round_even_err [of "r / q"] q by (intro mult_right_mono) auto
  finally show ?thesis by (simp add: q_def)
qed

text \<open>A normal number is rounded with a relative error of at most \<open>2\<^sup>-\<^sup>p\<close>.\<close>

lemma fround_rel_err:
  assumes "r \<noteq> 0" and "pow2 (emin + int p - 1) \<le> \<bar>r\<bar>"
  shows "\<bar>fround p emin r - r\<bar> \<le> \<bar>r\<bar> * pow2 (- int p)"
proof -
  have pos: "0 < \<bar>r\<bar>" using assms(1) by simp
  have "pow2 (emin + int p - 1) < pow2 (ilog2 \<bar>r\<bar> + 1)"
    using assms(2) ilog2_bounds(2) [OF pos] by simp
  then have "emin + int p - 1 < ilog2 \<bar>r\<bar> + 1" by (rule pow2_less_cancel)
  then have "fexp p emin r = ilog2 \<bar>r\<bar> + (- int p + 1)" by (simp add: fexp_def)
  then have "pow2 (fexp p emin r) = pow2 (ilog2 \<bar>r\<bar>) * (pow2 (- int p) * 2)"
    by (simp only: pow2_add pow2_1)
  also have "\<dots> \<le> \<bar>r\<bar> * (pow2 (- int p) * 2)"
    using ilog2_bounds(1) [OF pos] by (intro mult_right_mono) auto
  finally show ?thesis using fround_err [OF assms(1), of p emin] by simp
qed

lemma fround_of_int:
  assumes "\<bar>n\<bar> < 2 ^ p" and "emin \<le> 0"
  shows "fround p emin (of_int n) = of_int n"
proof (cases "n = 0")
  case True
  then show ?thesis by simp
next
  case False
  define e where "e = fexp p emin (of_int n)"
  have pos: "(0 :: rat) < \<bar>of_int n\<bar>" using False by simp
  have "(of_int \<bar>n\<bar> :: rat) < of_int (2 ^ p)" using assms(1) by (simp only: of_int_less_iff)
  then have "(of_int \<bar>n\<bar> :: rat) < pow2 (int p)" by (simp add: pow2_nat)
  then have "pow2 (ilog2 \<bar>of_int n\<bar>) < pow2 (int p)"
    using ilog2_bounds(1) [OF pos] by simp
  then have "ilog2 \<bar>of_int n\<bar> < int p" by (rule pow2_less_cancel)
  then have e0: "e \<le> 0" using assms(2) by (simp add: e_def fexp_def)
  have inv: "1 / pow2 e = of_int (2 ^ nat (- e))"
    using e0 by (cases "e = 0") (simp_all add: pow2_def)
  have "of_int n / pow2 e = (of_int (n * 2 ^ nat (- e)) :: rat)"
    using inv by (simp add: field_simps)
  then have "round_even (of_int n / pow2 e) = n * 2 ^ nat (- e)"
    by (simp only: round_even_of_int)
  then have "fround p emin (of_int n) = of_int n * (of_int (2 ^ nat (- e)) * pow2 e)"
    using False by (simp add: fround_def Let_def flip: e_def)
  also have "\<dots> = of_int n" by (simp only: inv [symmetric]) simp
  finally show ?thesis .
qed

section \<open>Values and operations\<close>

datatype fp = NaN | PInf | NInf | Fin rat

text \<open>
  A format is its precision, the exponent of its smallest subnormal and the exponent at
  which it overflows.
\<close>

record fp_format =
  prec :: nat
  emin :: int
  emax :: int

definition binary64 :: fp_format where
  "binary64 = \<lparr>prec = 53, emin = - 1074, emax = 1024\<rparr>"

definition x87_extended :: fp_format where
  "x87_extended = \<lparr>prec = 64, emin = - 16445, emax = 16384\<rparr>"

definition fp_round :: "fp_format \<Rightarrow> rat \<Rightarrow> fp" where
  "fp_round F r =
     (let s = fround (prec F) (emin F) r
      in if \<bar>s\<bar> < pow2 (emax F) then Fin s else if 0 < r then PInf else NInf)"

fun fp_sgn :: "fp \<Rightarrow> rat" where
  "fp_sgn NaN = 0"
| "fp_sgn PInf = 1"
| "fp_sgn NInf = - 1"
| "fp_sgn (Fin r) = sgn r"

definition fp_inf :: "rat \<Rightarrow> fp" where
  "fp_inf s = (if 0 < s then PInf else if s < 0 then NInf else NaN)"

fun fp_mul :: "fp_format \<Rightarrow> fp \<Rightarrow> fp \<Rightarrow> fp" where
  "fp_mul F NaN y = NaN"
| "fp_mul F x NaN = NaN"
| "fp_mul F (Fin a) (Fin b) = fp_round F (a * b)"
| "fp_mul F x y = fp_inf (fp_sgn x * fp_sgn y)"

text \<open>The comparison \<open>x < y\<close>; every comparison with \<open>NaN\<close> is false.\<close>

fun fp_less :: "fp \<Rightarrow> fp \<Rightarrow> bool" where
  "fp_less NaN y = False"
| "fp_less x NaN = False"
| "fp_less (Fin a) (Fin b) = (a < b)"
| "fp_less (Fin a) PInf = True"
| "fp_less (Fin a) NInf = False"
| "fp_less NInf y = (y \<noteq> NInf)"
| "fp_less PInf y = False"

fun fp_le :: "fp \<Rightarrow> fp \<Rightarrow> bool" where
  "fp_le NaN y = False"
| "fp_le x NaN = False"
| "fp_le x y = (\<not> fp_less y x)"

fun fp_isfinite :: "fp \<Rightarrow> bool" where
  "fp_isfinite (Fin r) = True"
| "fp_isfinite x = False"

text \<open>\<open>std::llround\<close>: half away from zero; outside the range of \<open>int64_t\<close> the result is unspecified.\<close>

definition round_away :: "rat \<Rightarrow> int" where
  "round_away r = (if 0 \<le> r then \<lfloor>r + 1 / 2\<rfloor> else - \<lfloor>- r + 1 / 2\<rfloor>)"

fun llround :: "fp \<Rightarrow> i64 option" where
  "llround (Fin r) = chk_i64 (round_away r)"
| "llround x = None"

text \<open>\<open>static_cast<uint64_t>\<close> of a \<open>double\<close>: truncation, undefined outside the target's range.\<close>

definition trunc_rat :: "rat \<Rightarrow> int" where
  "trunc_rat r = (if 0 \<le> r then \<lfloor>r\<rfloor> else - \<lfloor>- r\<rfloor>)"

fun fp_to_u64 :: "fp \<Rightarrow> u64 option" where
  "fp_to_u64 (Fin r) =
     (if 0 \<le> trunc_rat r \<and> trunc_rat r < 2 ^ 64 then Some (word_of_int (trunc_rat r)) else None)"
| "fp_to_u64 x = None"

definition fp_of_int :: "fp_format \<Rightarrow> int \<Rightarrow> fp" where
  "fp_of_int F n = fp_round F (of_int n)"

definition representable :: "fp_format \<Rightarrow> rat \<Rightarrow> bool" where
  "representable F r \<longleftrightarrow> fp_round F r = Fin r"

text \<open>The double nearest to a price of \<open>k\<close> ticks (ten-thousandths of a dollar).\<close>

definition tick_price :: "int \<Rightarrow> fp" where
  "tick_price k = fp_round binary64 (of_int k / 10000)"

lemmas fp_formats [simp] = binary64_def x87_extended_def

lemma fp_le_Fin [simp]: "fp_le (Fin a) (Fin b) \<longleftrightarrow> a \<le> b"
  by auto

lemma fp_round_exact:
  assumes "\<bar>n\<bar> < 2 ^ prec F" and "emin F \<le> 0" and "int (prec F) \<le> emax F"
  shows "fp_round F (of_int n) = Fin (of_int n)"
proof -
  have "(of_int \<bar>n\<bar> :: rat) < of_int (2 ^ prec F)" using assms(1) by (simp only: of_int_less_iff)
  also have "\<dots> = pow2 (int (prec F))" by (simp add: pow2_nat)
  also have "\<dots> \<le> pow2 (emax F)" using assms(3) by (rule pow2_mono)
  finally show ?thesis
    using fround_of_int [OF assms(1,2)] by (simp add: fp_round_def)
qed

lemma round_away_near:
  assumes "\<bar>r - of_int k\<bar> < 1 / 2"
  shows "round_away r = k"
proof -
  have b: "r - of_int k < 1 / 2" "of_int k - r < 1 / 2"
    using assms by (simp_all only: abs_less_iff) simp
  have "\<lfloor>r + 1 / 2\<rfloor> = k"
    using b by (intro floor_unique) simp_all
  moreover have "\<lfloor>- r + 1 / 2\<rfloor> = - k"
    using b by (intro floor_unique) simp_all
  ultimately show ?thesis by (simp add: round_away_def)
qed

lemma binary64_round_rel:
  assumes "pow2 (- 1022) \<le> \<bar>r\<bar>" and "\<bar>r\<bar> \<le> pow2 1000"
  obtains s where "fp_round binary64 r = Fin s" and "\<bar>s - r\<bar> \<le> \<bar>r\<bar> * pow2 (- 53)"
proof -
  define s where "s = fround 53 (- 1074) r"
  have nz: "r \<noteq> 0"
    using assms(1) pow2_pos [of "- 1022"] by (metis abs_zero not_le)
  have err: "\<bar>s - r\<bar> \<le> \<bar>r\<bar> * pow2 (- 53)"
    using fround_rel_err [of r "- 1074" 53] nz assms(1) by (simp add: s_def)
  have "pow2 (- 53) \<le> 1"
    using pow2_mono [of "- 53" 0] by simp
  then have "\<bar>r\<bar> * pow2 (- 53) \<le> \<bar>r\<bar> * 1" by (intro mult_left_mono) auto
  then have "\<bar>s\<bar> \<le> 2 * \<bar>r\<bar>" using err by linarith
  also have "\<dots> \<le> 2 * pow2 1000" using assms(2) by simp
  also have "\<dots> = pow2 1001"
    using pow2_add [of 1 1000] by simp
  also have "\<dots> < pow2 1024" by (rule pow2_strict_mono) simp
  finally have "fp_round binary64 r = Fin s" by (simp add: fp_round_def s_def)
  then show thesis using err by (rule that)
qed

text \<open>
  Scaling a decimal price held in a \<open>double\<close> back to ticks: the product of the nearest
  \<open>double\<close> and 10000 is within half a tick of the exact number of ticks.
\<close>

lemma tick_price_scaled:
  assumes "1 \<le> k" and "k \<le> 2 ^ 50"
  obtains t where "fp_mul binary64 (tick_price k) (Fin 10000) = Fin t"
    and "\<bar>t - of_int k\<bar> < 1 / 2"
proof -
  have k1: "1 \<le> (of_int k :: rat)" using assms(1) by simp
  have "(of_int k :: rat) \<le> of_int (2 ^ 50)" using assms(2) by (simp only: of_int_le_iff)
  then have k2: "(of_int k :: rat) \<le> 1125899906842624" by simp
  have small: "pow2 (- 1022) \<le> pow2 (- 20)" by (rule pow2_mono) simp
  have big: "pow2 60 \<le> pow2 1000" by (rule pow2_mono) simp
  have p20: "pow2 (- 20) = 1 / 1048576" and p60: "pow2 60 = 1152921504606846976"
    and p53: "pow2 (- 53) = 1 / 9007199254740992"
    by (simp_all add: pow2_def)
  let ?r = "of_int k / 10000 :: rat"
  obtain p where p: "tick_price k = Fin p" and perr: "\<bar>p - ?r\<bar> \<le> \<bar>?r\<bar> * pow2 (- 53)"
    unfolding tick_price_def
    by (rule binary64_round_rel [of ?r]) (use k1 k2 small big p20 p60 in auto)
  have pe: "\<bar>p * 10000 - of_int k\<bar> \<le> of_int k / 9007199254740992"
    using perr k1 by (simp add: p53 abs_le_iff field_simps)
  have p1: "p * 10000 \<le> 2251799813685248" using pe k2 by linarith
  have p0: "1 / 2 \<le> p * 10000" using pe k1 by linarith
  obtain t where t: "fp_round binary64 (p * 10000) = Fin t"
    and terr: "\<bar>t - p * 10000\<bar> \<le> \<bar>p * 10000\<bar> * pow2 (- 53)"
    by (rule binary64_round_rel [of "p * 10000"]) (use p0 p1 small big p20 p60 in auto)
  have "\<bar>t - p * 10000\<bar> \<le> 1 / 4"
    using terr p1 p0 by (simp add: p53)
  then have "\<bar>t - of_int k\<bar> < 1 / 2"
    using pe k2 by linarith
  then show thesis using that t p by simp
qed

end
