(* ===== verification/Trading_Types.thy ===== *)
theory Trading_Types
  imports Floats
begin

text \<open>
  The plain data of the engine: \<open>Order\<close>, \<open>Fill\<close>, \<open>MarketEvent\<close> and \<open>SymbolKey\<close>, and the
  fixed-size character buffers they carry. A \<open>char[n]\<close> buffer is a string of length \<open>n\<close>;
  \<open>memset\<close> followed by \<open>memcpy\<close> of at most \<open>n\<close> characters is \<open>copy_buf n\<close>, and the view
  \<open>string_view(buf, strnlen(buf, n))\<close> is \<open>buf_view buf\<close>. The \<open>memcpy\<close> between a buffer
  and a \<open>uint64_t\<close> is little endian.
\<close>

section \<open>Character buffers\<close>

abbreviation NUL :: char where
  "NUL \<equiv> CHR 0x00"

definition copy_buf :: "nat \<Rightarrow> string \<Rightarrow> string" where
  "copy_buf n s = take n s @ replicate (n - length s) NUL"

definition buf_view :: "string \<Rightarrow> string" where
  "buf_view buf = takeWhile (\<lambda>c. c \<noteq> NUL) buf"

primrec le_u64 :: "string \<Rightarrow> u64" where
  "le_u64 [] = 0"
| "le_u64 (c # cs) = of_char c + 256 * le_u64 cs"

text \<open>A buffer is padded when nothing but NUL follows its first NUL.\<close>

definition padded :: "nat \<Rightarrow> string \<Rightarrow> bool" where
  "padded n buf \<longleftrightarrow> copy_buf n (buf_view buf) = buf"

lemma length_copy_buf [simp]: "length (copy_buf n s) = n"
  by (simp add: copy_buf_def)

lemma buf_view_no_NUL [simp]: "NUL \<notin> set (buf_view buf)"
  unfolding buf_view_def by (metis (mono_tags, lifting) set_takeWhileD)

lemma length_buf_view: "length (buf_view buf) \<le> length buf"
  by (simp add: buf_view_def length_takeWhile_le)

lemma takeWhile_replicate_NUL [simp]: "takeWhile (\<lambda>c. c \<noteq> NUL) (replicate n NUL) = []"
  by (induction n) auto

lemma buf_view_copy_buf:
  assumes "NUL \<notin> set s"
  shows "buf_view (copy_buf n s) = take n s"
proof -
  have "takeWhile (\<lambda>c. c \<noteq> NUL) (take n s) = take n s"
    using assms by (auto simp: takeWhile_eq_all_conv dest: in_set_takeD)
  moreover have "\<forall>c \<in> set (take n s). c \<noteq> NUL"
    using assms by (auto dest: in_set_takeD)
  ultimately show ?thesis
    by (simp add: buf_view_def copy_buf_def takeWhile_append)
qed

lemma copy_buf_take [simp]: "copy_buf n (take n s) = copy_buf n s"
  by (simp add: copy_buf_def min_def)

lemma padded_copy_buf: "NUL \<notin> set s \<Longrightarrow> padded n (copy_buf n s)"
  by (simp add: padded_def buf_view_copy_buf)

lemma padded_length: "padded n buf \<Longrightarrow> length buf = n"
  by (metis length_copy_buf padded_def)

lemma padded_eq_iff: "padded n a \<Longrightarrow> padded n b \<Longrightarrow> a = b \<longleftrightarrow> buf_view a = buf_view b"
  by (metis padded_def)

section \<open>Keys from buffers\<close>

primrec le_nat :: "string \<Rightarrow> nat" where
  "le_nat [] = 0"
| "le_nat (c # cs) = of_char c + 256 * le_nat cs"

lemma le_nat_bound: "le_nat cs < 256 ^ length cs"
proof (induction cs)
  case (Cons c cs)
  have "of_char c + 256 * le_nat cs < 256 * (le_nat cs + 1)" by simp
  also have "\<dots> \<le> 256 * 256 ^ length cs"
    using Cons by (intro mult_left_mono) auto
  finally show ?case by simp
qed simp

lemma le_u64_of_nat: "le_u64 cs = of_nat (le_nat cs)"
  by (induction cs) (simp_all add: of_nat_of_char)

lemma le_nat_inj: "length a = length b \<Longrightarrow> le_nat a = le_nat b \<Longrightarrow> a = b"
proof (induction a b rule: list_induct2)
  case (Cons x xs y ys)
  have lt: "(of_char x :: nat) < 256" "(of_char y :: nat) < 256"
    by simp_all
  have "of_char x + 256 * le_nat xs = of_char y + 256 * le_nat ys"
    using Cons.prems by simp
  then have "(of_char x + 256 * le_nat xs) mod 256 = (of_char y + 256 * le_nat ys) mod 256"
    and "(of_char x + 256 * le_nat xs) div 256 = (of_char y + 256 * le_nat ys) div 256"
    by simp_all
  then have "(of_char x :: nat) = of_char y" and "le_nat xs = le_nat ys"
    using lt by simp_all
  then show ?case using Cons.IH by (simp add: of_char_eq_iff)
qed simp

lemma le_u64_inj:
  assumes "length a = 8" and "length b = 8" and "le_u64 a = le_u64 b"
  shows "a = b"
proof -
  have bd: "le_nat a < 2 ^ 64" "le_nat b < 2 ^ 64"
    using le_nat_bound [of a] le_nat_bound [of b] assms(1,2) by simp_all
  have "unat (of_nat (le_nat a) :: u64) = unat (of_nat (le_nat b) :: u64)"
    using assms(3) by (simp add: le_u64_of_nat)
  then have "le_nat a = le_nat b"
    using bd by (simp add: unat_of_nat)
  then show ?thesis using assms(1,2) by (intro le_nat_inj) simp_all
qed

text \<open>The first \<open>n\<close> bytes of an integer in memory.\<close>

primrec le_bytes :: "nat \<Rightarrow> nat \<Rightarrow> string" where
  "le_bytes 0 x = []"
| "le_bytes (Suc n) x = char_of x # le_bytes n (x div 256)"

lemma length_le_bytes [simp]: "length (le_bytes n x) = n"
  by (induction n arbitrary: x) simp_all

lemma le_nat_le_bytes: "le_nat (le_bytes n x) = x mod 256 ^ n"
  by (induction n arbitrary: x) (simp_all add: mod_mult2_eq)

lemma le_u64_le_bytes: "x < 256 ^ n \<Longrightarrow> le_u64 (le_bytes n x) = of_nat x"
  by (simp add: le_u64_of_nat le_nat_le_bytes)

lemma le_u64_le_bytes_word [simp]: "le_u64 (le_bytes 8 (unat w)) = w"
proof -
  have "unat w < 2 ^ 64" by (rule order_less_le_trans [OF unsigned_less]) simp
  then have "unat w < 256 ^ 8" by simp
  then show ?thesis by (simp add: le_u64_le_bytes)
qed

section \<open>Orders, fills and market events\<close>

datatype OrderSide = Buy | Sell

datatype OrderType = Market | Limit

definition SCALING_FACTOR :: i64 where
  "SCALING_FACTOR = 10000"

record Order =
  ord_id :: u64
  ord_symbol :: string
  ord_quantity :: i64
  ord_price :: u64
  ord_side :: OrderSide
  ord_type :: OrderType
  ord_arrivedAt :: u64
  ord_queuedAt :: u64

text \<open>The value-initialised \<open>Order order{}\<close>.\<close>

definition zero_Order :: Order where
  "zero_Order = \<lparr>ord_id = 0, ord_symbol = replicate 8 NUL, ord_quantity = 0, ord_price = 0,
     ord_side = Buy, ord_type = Market, ord_arrivedAt = 0, ord_queuedAt = 0\<rparr>"

record Fill =
  fill_symbol :: string
  fill_executionId :: u64
  fill_orderId :: u64
  fill_side :: OrderSide
  fill_quantity :: i64
  fill_price :: fp

record MarketEvent =
  ev_eventType :: u64
  ev_symbol :: string
  ev_timestamp :: u64
  ev_p1 :: u64
  ev_s1 :: u64
  ev_p2 :: u64
  ev_s2 :: u64
  ev_arrivedAt :: u64

text \<open>The signed effect of a quantity on a position: buys count up, sells count down.\<close>

definition signed_qty :: "OrderSide \<Rightarrow> i64 \<Rightarrow> int" where
  "signed_qty side q = (case side of Buy \<Rightarrow> q | Sell \<Rightarrow> - q)"

text \<open>The objects of the program carry 8-byte symbols and 64-bit quantities.\<close>

definition wf_Order :: "Order \<Rightarrow> bool" where
  "wf_Order ord \<longleftrightarrow> length (ord_symbol ord) = 8 \<and> in_i64 (ord_quantity ord)"

definition wf_Fill :: "Fill \<Rightarrow> bool" where
  "wf_Fill f \<longleftrightarrow> length (fill_symbol f) = 8 \<and> in_i64 (fill_quantity f)"

lemma signed_qty_simps [simp]: "signed_qty Buy q = q" "signed_qty Sell q = - q"
  by (simp_all add: signed_qty_def)

text \<open>What the websocket library delivers to its callback.\<close>

datatype ws_message = Open | Message string | Error | Close | OtherMessage

end
