(* ===== verification/Market_Making.thy ===== *)
theory Market_Making
  imports Trading_Types
begin

text \<open>
  The strategy of the engine, \<open>SimpleMarketMakingStrategy\<close> (\<open>include/SimpleMarketMakingStrategy.hpp\<close>), and the
  interface \<open>StrategyLike\<close> (\<open>include/Strategy.hpp\<close>) the consumer is written against, as a locale.
\<close>

record SimpleMarketMakingStrategy =
  sm_last_trade_price :: u64
  sm_spread_offset_ticks :: u64
  sm_order_quantity :: i64

definition new_SimpleMarketMakingStrategy :: "u64 \<Rightarrow> i64 \<Rightarrow> SimpleMarketMakingStrategy" where
  "new_SimpleMarketMakingStrategy spread_offset_ticks order_quantity =
     \<lparr>sm_last_trade_price = 0, sm_spread_offset_ticks = spread_offset_ticks, sm_order_quantity = order_quantity\<rparr>"

text \<open>The default arguments of the constructor, which is what the consumer's \<open>make_unique\<close> uses.\<close>

definition default_strategy :: SimpleMarketMakingStrategy where
  "default_strategy = new_SimpleMarketMakingStrategy 100 100"

definition onMarketEvent :: "MarketEvent \<Rightarrow> SimpleMarketMakingStrategy \<Rightarrow> Order option \<times> SimpleMarketMakingStrategy" where
  "onMarketEvent event st =
     (if ev_eventType event \<noteq> 2 then (None, st)
      else let st = st\<lparr>sm_last_trade_price := ev_p1 event\<rparr>
           in if sm_last_trade_price st < sm_spread_offset_ticks st then (None, st)
              else (Some (zero_Order\<lparr>ord_symbol := ev_symbol event, ord_side := Buy, ord_type := Limit,
                      ord_quantity := sm_order_quantity st,
                      ord_price := sm_last_trade_price st - sm_spread_offset_ticks st\<rparr>), st))"

text \<open>
  What a consumer relies on: a strategy keeps its own state well formed, and an order it returns is for the
  symbol of the event, not dated, with a quantity in range.
\<close>

locale strategy_like =
  fixes good :: "'s \<Rightarrow> bool"
    and on_event :: "MarketEvent \<Rightarrow> 's \<Rightarrow> Order option \<times> 's"
  assumes on_event_good: "good s \<Longrightarrow> good (snd (on_event e s))"
    and on_event_order: "good s \<Longrightarrow> fst (on_event e s) = Some ord \<Longrightarrow>
      ord_symbol ord = ev_symbol e \<and> in_i64 (ord_quantity ord) \<and> ord_id ord = 0"

definition strategy_ok :: "SimpleMarketMakingStrategy \<Rightarrow> bool" where
  "strategy_ok st \<longleftrightarrow> in_i64 (sm_order_quantity st)"

interpretation smm: strategy_like strategy_ok onMarketEvent
  by unfold_locales (auto simp: onMarketEvent_def strategy_ok_def zero_Order_def Let_def split: if_splits)

text \<open>The quotes of the strategy: an event gives an order exactly when it is a trade at no less than the offset; the
  order is then a limit buy of the configured quantity for the event's symbol, priced the offset below the
  trade, a subtraction that never wraps.\<close>

theorem quote_below_trade:
  "(fst (onMarketEvent event st) \<noteq> None \<longleftrightarrow> ev_eventType event = 2 \<and> sm_spread_offset_ticks st \<le> ev_p1 event) \<and>
   (case fst (onMarketEvent event st) of
      None \<Rightarrow> True
    | Some ord \<Rightarrow> ord_side ord = Buy \<and> ord_type ord = Limit \<and> ord_symbol ord = ev_symbol event \<and>
        ord_quantity ord = sm_order_quantity st \<and>
        uint (ord_price ord) = uint (ev_p1 event) - uint (sm_spread_offset_ticks st))"
proof -
  have "uint (a - b) = uint a - uint b" if "b \<le> a" for a b :: u64
    using that by (simp add: uint_minus_simple_alt)
  then show ?thesis by (auto simp: onMarketEvent_def Let_def not_less)
qed

end
