(* ===== verification/Msgpack_Decoder.thy ===== *)
theory Msgpack_Decoder
  imports Trading_Types
begin

text \<open>
  \<open>AlpacaMsgpackDecoder\<close> (\<open>include/AlpacaMsgpackDecoder.hpp\<close>, \<open>src/AlpacaMsgpackDecoder.cpp\<close>): the visitor that
  turns the calls of the MessagePack parser into market events. The parser itself is outside code: a
  function from the frame to the calls it makes on the visitor, all of which return true, up to the end of
  the frame or to the error where it stops. The calls of the emit function and of the authentication
  callback are the outputs of the visitor, in order. \<^const>\<open>None\<close> as a result is a conversion to \<open>uint64_t\<close>
  out of its range, which is undefined; \<open>visit_total\<close> shows that it never happens.
\<close>

unbundle bit_operations_syntax

section \<open>Helpers\<close>

definition kScalingFactor :: u64 where
  "kScalingFactor = 10000"

definition kSymbolCapacity :: nat where
  "kSymbolCapacity = 8"

text \<open>The largest \<open>uint64_t\<close>, converted to \<open>double\<close>.\<close>

definition kMaxScaledPrice :: fp where
  "kMaxScaledPrice = fp_of_int binary64 (uint (- 1 :: u64))"

definition kUint64UpperBound :: fp where
  "kUint64UpperBound = Fin (2 ^ 64)"

definition copySymbol :: "string \<Rightarrow> nat \<Rightarrow> string" where
  "copySymbol src len = copy_buf kSymbolCapacity (take (min len kSymbolCapacity) src)"

definition scale_raw :: "fp \<Rightarrow> fp" where
  "scale_raw raw = fp_mul binary64 raw (fp_of_int binary64 (uint kScalingFactor))"

definition isSafePrice :: "fp \<Rightarrow> bool" where
  "isSafePrice raw \<longleftrightarrow> fp_isfinite raw \<and> fp_le (Fin 0) raw \<and> fp_less (scale_raw raw) kMaxScaledPrice"

text \<open>A copy into an integer followed by a byte swap: the bytes are big endian.\<close>

definition be_u64 :: "string \<Rightarrow> u64" where
  "be_u64 bs = le_u64 (rev bs)"

definition decodeTimestampExt :: "string \<Rightarrow> u64" where
  "decodeTimestampExt data =
     (let ext_type = sint (of_char (hd data) :: u8); body = tl data; body_size = length body
      in if ext_type \<noteq> - 1 then 0
         else if body_size = 4 then be_u64 (take 4 body) * 1000000000
         else if body_size = 8
         then let val = be_u64 (take 8 body); nsec30 = drop_bit 34 val; sec34 = val AND 0x3FFFFFFFF
              in sec34 * 1000000000 + nsec30
         else if body_size = 12
         then let nsec = be_u64 (take 4 body); sec = be_u64 (take 8 (drop 4 body))
              in sec * 1000000000 + nsec
         else 0)"

section \<open>The visitor\<close>

datatype FieldId = kNone | kType | kSymbol | kTimestamp | kBidPrice | kBidSize | kAskPrice | kAskSize

datatype decoder_out = Emit MarketEvent string | AuthSuccess

record AlpacaVisitor =
  av_event_buffer :: MarketEvent
  av_on_auth_success :: bool
  av_arrived_at :: u64
  av_array_depth :: u32
  av_array_index :: u32
  av_map_depth :: u32
  av_in_key :: bool
  av_current_field :: FieldId
  av_msg_type :: string
  av_msg_type_len :: nat
  av_symbol_buf :: string
  av_symbol_len :: nat
  av_timestamp :: u64
  av_p1_raw :: fp
  av_s1_raw :: u64
  av_p2_raw :: fp
  av_s2_raw :: u64
  av_has_timestamp :: bool
  av_invalid_item :: bool
  av_out :: "decoder_out list"

definition new_AlpacaVisitor :: "MarketEvent \<Rightarrow> bool \<Rightarrow> u64 \<Rightarrow> AlpacaVisitor" where
  "new_AlpacaVisitor event_buffer on_auth_success arrived_at =
     \<lparr>av_event_buffer = event_buffer, av_on_auth_success = on_auth_success, av_arrived_at = arrived_at,
      av_array_depth = 0, av_array_index = 0, av_map_depth = 0, av_in_key = False, av_current_field = kNone,
      av_msg_type = replicate 8 NUL, av_msg_type_len = 0, av_symbol_buf = replicate 8 NUL, av_symbol_len = 0,
      av_timestamp = 0, av_p1_raw = Fin 0, av_s1_raw = 0, av_p2_raw = Fin 0, av_s2_raw = 0,
      av_has_timestamp = False, av_invalid_item = False, av_out = []\<rparr>"

definition resetItem :: "AlpacaVisitor \<Rightarrow> AlpacaVisitor" where
  "resetItem v = v\<lparr>av_msg_type_len := 0, av_symbol_len := 0, av_timestamp := 0, av_p1_raw := Fin 0, av_s1_raw := 0,
     av_p2_raw := Fin 0, av_s2_raw := 0, av_has_timestamp := False, av_invalid_item := False,
     av_current_field := kNone\<rparr>"

text \<open>The two branches of \<open>emitItem\<close> that fill the buffer: \<^const>\<open>None\<close> when a price is not safe.\<close>

definition fill_quote :: "AlpacaVisitor \<Rightarrow> MarketEvent option option" where
  "fill_quote v =
     (if \<not> isSafePrice (av_p1_raw v) \<or> \<not> isSafePrice (av_p2_raw v) then Some None
      else do {
        p1 \<leftarrow> fp_to_u64 (scale_raw (av_p1_raw v));
        p2 \<leftarrow> fp_to_u64 (scale_raw (av_p2_raw v));
        Some (Some ((av_event_buffer v)\<lparr>ev_eventType := 1, ev_p1 := p1, ev_s1 := av_s1_raw v,
          ev_p2 := p2, ev_s2 := av_s2_raw v\<rparr>))
      })"

definition fill_trade :: "AlpacaVisitor \<Rightarrow> MarketEvent option option" where
  "fill_trade v =
     (if \<not> isSafePrice (av_p1_raw v) then Some None
      else do {
        p1 \<leftarrow> fp_to_u64 (scale_raw (av_p1_raw v));
        Some (Some ((av_event_buffer v)\<lparr>ev_eventType := 2, ev_p1 := p1, ev_s1 := av_s1_raw v,
          ev_p2 := 0, ev_s2 := 0\<rparr>))
      })"

definition emitItem :: "AlpacaVisitor \<Rightarrow> AlpacaVisitor option" where
  "emitItem v =
     (let mt = take (av_msg_type_len v) (av_msg_type v); symb = take (av_symbol_len v) (av_symbol_buf v)
      in if av_invalid_item v then Some v
         else if mt = ''success''
         then Some (if av_array_index v = 0 \<and> av_on_auth_success v then v\<lparr>av_out := av_out v @ [AuthSuccess]\<rparr> else v)
         else if mt = [] \<or> symb = [] then Some v
         else do {
           filled \<leftarrow> (if mt = ''q'' then fill_quote v else if mt = ''t'' then fill_trade v else Some None);
           (case filled of
              None \<Rightarrow> Some v
            | Some buffer \<Rightarrow>
                let event = buffer\<lparr>ev_symbol := copySymbol (av_symbol_buf v) (av_symbol_len v),
                      ev_timestamp := if av_has_timestamp v then av_timestamp v else 0,
                      ev_arrivedAt := av_arrived_at v\<rparr>
                in Some (v\<lparr>av_event_buffer := event, av_out := av_out v @ [Emit event symb]\<rparr>))
         })"

definition start_array :: "AlpacaVisitor \<Rightarrow> AlpacaVisitor" where
  "start_array v = v\<lparr>av_array_depth := av_array_depth v + 1, av_array_index := 0\<rparr>"

definition end_array_item :: "AlpacaVisitor \<Rightarrow> AlpacaVisitor" where
  "end_array_item v = (if av_array_depth v = 1 then v\<lparr>av_array_index := av_array_index v + 1\<rparr> else v)"

definition end_array :: "AlpacaVisitor \<Rightarrow> AlpacaVisitor" where
  "end_array v = v\<lparr>av_array_depth := av_array_depth v - 1\<rparr>"

definition start_map :: "AlpacaVisitor \<Rightarrow> AlpacaVisitor" where
  "start_map v =
     (let v = v\<lparr>av_map_depth := av_map_depth v + 1\<rparr>
      in if av_array_depth v = 1 \<and> av_map_depth v = 1 then resetItem v else v)"

definition start_map_key :: "AlpacaVisitor \<Rightarrow> AlpacaVisitor" where
  "start_map_key v = v\<lparr>av_in_key := True, av_current_field := kNone\<rparr>"

definition end_map_key :: "AlpacaVisitor \<Rightarrow> AlpacaVisitor" where
  "end_map_key v = v\<lparr>av_in_key := False\<rparr>"

definition end_map_value :: "AlpacaVisitor \<Rightarrow> AlpacaVisitor" where
  "end_map_value v = v\<lparr>av_current_field := kNone\<rparr>"

definition end_map :: "AlpacaVisitor \<Rightarrow> AlpacaVisitor option" where
  "end_map v = do {
     v \<leftarrow> (if av_array_depth v = 1 \<and> av_map_depth v = 1 then emitItem v else Some v);
     Some (v\<lparr>av_map_depth := av_map_depth v - 1\<rparr>)
   }"

text \<open>The field a key names.\<close>

definition key_field :: "string \<Rightarrow> FieldId" where
  "key_field s =
     (if s = ''T'' then kType else if s = ''S'' then kSymbol else if s = ''t'' then kTimestamp
      else if s = ''p'' then kBidPrice else if s = ''s'' then kBidSize
      else if s = ''bp'' then kBidPrice else if s = ''bs'' then kBidSize
      else if s = ''ap'' then kAskPrice else if s = ''as'' then kAskSize else kNone)"

text \<open>\<open>memcpy\<close> of the first bytes of \<open>src\<close> over the buffer.\<close>

definition overwrite :: "string \<Rightarrow> string \<Rightarrow> string" where
  "overwrite src buf = src @ drop (length src) buf"

definition visit_str :: "string \<Rightarrow> AlpacaVisitor \<Rightarrow> AlpacaVisitor" where
  "visit_str s v =
     (if av_map_depth v \<noteq> 1 then v
      else if av_in_key v then v\<lparr>av_current_field := key_field s\<rparr>
      else case av_current_field v of
        kType \<Rightarrow> v\<lparr>av_msg_type_len := min (length s) 8, av_msg_type := overwrite (take 8 s) (av_msg_type v)\<rparr>
      | kSymbol \<Rightarrow> v\<lparr>av_symbol_len := min (length s) 8, av_symbol_buf := overwrite (take 8 s) (av_symbol_buf v)\<rparr>
      | _ \<Rightarrow> v)"

definition visit_positive_integer :: "u64 \<Rightarrow> AlpacaVisitor \<Rightarrow> AlpacaVisitor" where
  "visit_positive_integer n v =
     (if av_map_depth v \<noteq> 1 \<or> av_in_key v then v
      else case av_current_field v of
        kTimestamp \<Rightarrow> v\<lparr>av_timestamp := n, av_has_timestamp := True\<rparr>
      | kBidPrice \<Rightarrow> v\<lparr>av_p1_raw := fp_of_int binary64 (uint n)\<rparr>
      | kBidSize \<Rightarrow> v\<lparr>av_s1_raw := n\<rparr>
      | kAskPrice \<Rightarrow> v\<lparr>av_p2_raw := fp_of_int binary64 (uint n)\<rparr>
      | kAskSize \<Rightarrow> v\<lparr>av_s2_raw := n\<rparr>
      | _ \<Rightarrow> v)"

definition visit_negative_integer :: "i64 \<Rightarrow> AlpacaVisitor \<Rightarrow> AlpacaVisitor" where
  "visit_negative_integer n v =
     (if av_map_depth v \<noteq> 1 \<or> av_in_key v then v
      else case av_current_field v of
        kTimestamp \<Rightarrow> v\<lparr>av_timestamp := 0, av_has_timestamp := True\<rparr>
      | kBidPrice \<Rightarrow> v\<lparr>av_invalid_item := True\<rparr>
      | kBidSize \<Rightarrow> v\<lparr>av_invalid_item := True\<rparr>
      | kAskPrice \<Rightarrow> v\<lparr>av_invalid_item := True\<rparr>
      | kAskSize \<Rightarrow> v\<lparr>av_invalid_item := True\<rparr>
      | _ \<Rightarrow> v)"

text \<open>The guard \<open>!isfinite(v) || v < 0.0 || v >= kUint64UpperBound\<close>.\<close>

definition out_of_u64 :: "fp \<Rightarrow> bool" where
  "out_of_u64 x \<longleftrightarrow> \<not> fp_isfinite x \<or> fp_less x (Fin 0) \<or> fp_le kUint64UpperBound x"

definition visit_float64 :: "fp \<Rightarrow> AlpacaVisitor \<Rightarrow> AlpacaVisitor option" where
  "visit_float64 x v =
     (if av_map_depth v \<noteq> 1 \<or> av_in_key v then Some v
      else case av_current_field v of
        kTimestamp \<Rightarrow> do {
          timestamp \<leftarrow> (if out_of_u64 x then Some 0 else fp_to_u64 x);
          Some (v\<lparr>av_timestamp := timestamp, av_has_timestamp := True\<rparr>)
        }
      | kBidPrice \<Rightarrow> Some (v\<lparr>av_p1_raw := x\<rparr>)
      | kBidSize \<Rightarrow>
          if out_of_u64 x then Some (v\<lparr>av_invalid_item := True\<rparr>)
          else do { s \<leftarrow> fp_to_u64 x; Some (v\<lparr>av_s1_raw := s\<rparr>) }
      | kAskPrice \<Rightarrow> Some (v\<lparr>av_p2_raw := x\<rparr>)
      | kAskSize \<Rightarrow>
          if out_of_u64 x then Some (v\<lparr>av_invalid_item := True\<rparr>)
          else do { s \<leftarrow> fp_to_u64 x; Some (v\<lparr>av_s2_raw := s\<rparr>) }
      | _ \<Rightarrow> Some v)"

definition visit_ext :: "string \<Rightarrow> AlpacaVisitor \<Rightarrow> AlpacaVisitor" where
  "visit_ext data v =
     (if av_map_depth v \<noteq> 1 \<or> av_in_key v then v
      else if av_current_field v = kTimestamp \<and> length data \<ge> 2
      then v\<lparr>av_timestamp := decodeTimestampExt data, av_has_timestamp := True\<rparr>
      else v)"

text \<open>The calls of the parser. \<open>Float32\<close> carries its value as a \<open>double\<close>, \<open>Ext\<close> the type byte and the body;
  \<open>OtherVisit\<close> are the visits the visitor inherits without effect (nil, boolean, binary).\<close>

datatype sax = StartArray | StartArrayItem | EndArrayItem | EndArray | StartMap | StartMapKey | EndMapKey
  | StartMapValue | EndMapValue | EndMap | VStr string | VPos u64 | VNeg i64 | Float32 fp | Float64 fp
  | VExt string | OtherVisit

primrec visit :: "sax \<Rightarrow> AlpacaVisitor \<Rightarrow> AlpacaVisitor option" where
  "visit StartArray v = Some (start_array v)"
| "visit StartArrayItem v = Some v"
| "visit EndArrayItem v = Some (end_array_item v)"
| "visit EndArray v = Some (end_array v)"
| "visit StartMap v = Some (start_map v)"
| "visit StartMapKey v = Some (start_map_key v)"
| "visit EndMapKey v = Some (end_map_key v)"
| "visit StartMapValue v = Some v"
| "visit EndMapValue v = Some (end_map_value v)"
| "visit EndMap v = end_map v"
| "visit (VStr s) v = Some (visit_str s v)"
| "visit (VPos n) v = Some (visit_positive_integer n v)"
| "visit (VNeg n) v = Some (visit_negative_integer n v)"
| "visit (Float32 x) v = visit_float64 x v"
| "visit (Float64 x) v = visit_float64 x v"
| "visit (VExt d) v = Some (visit_ext d v)"
| "visit OtherVisit v = Some v"

record AlpacaMsgpackDecoder =
  md_event_buffer :: MarketEvent
  md_on_auth_success :: bool

definition decodeRaw :: "(string \<Rightarrow> sax list) \<Rightarrow> string \<Rightarrow> u64 \<Rightarrow> AlpacaMsgpackDecoder \<Rightarrow>
    (decoder_out list \<times> AlpacaMsgpackDecoder) option" where
  "decodeRaw parse data arrived_at md = do {
     v \<leftarrow> run_list visit (parse data) (new_AlpacaVisitor (md_event_buffer md) (md_on_auth_success md) arrived_at);
     Some (av_out v, md\<lparr>md_event_buffer := av_event_buffer v\<rparr>)
   }"

end
