(* ===== verification/Market_Decoding.thy ===== *)
theory Market_Decoding
  imports Msgpack_Decoder
begin

text \<open>
  Correctness of the market data decoder: it is defined on every sequence of parser calls and emits only
  well-formed events; on a frame that is an array of flat maps it emits exactly the events the maps
  denote; its timestamps are those of the MessagePack timestamp extension; its prices are at most one tick
  below the price that was sent.
\<close>

section \<open>Conversions are defined\<close>

lemma kMaxScaledPrice_eq: "kMaxScaledPrice = Fin (2 ^ 64)"
proof -
  have "kMaxScaledPrice = Fin 18446744073709551616" by code_simp
  then show ?thesis by simp
qed

lemma round_even_nonneg: "0 \<le> x \<Longrightarrow> 0 \<le> round_even x"
  using round_even_err [of x] by (simp add: round_even_def Let_def)

lemma fround_nonneg: "0 \<le> r \<Longrightarrow> 0 \<le> fround p e r"
  by (simp add: fround_def Let_def round_even_nonneg)

lemma trunc_cast:
  assumes "0 \<le> r" and "r < 2 ^ 64"
  shows "fp_to_u64 (Fin r) = Some (word_of_int \<lfloor>r\<rfloor>)"
proof -
  have "0 \<le> \<lfloor>r\<rfloor>" "\<lfloor>r\<rfloor> < 2 ^ 64" using assms by (simp_all add: floor_less_iff)
  then show ?thesis using assms(1) by (simp add: trunc_rat_def)
qed

lemma scale_raw_Fin: "scale_raw (Fin a) = fp_round binary64 (a * 10000)"
proof -
  have "fp_of_int binary64 10000 = Fin 10000"
    using fp_round_exact [of 10000 binary64] by (simp add: fp_of_int_def)
  then show ?thesis by (simp add: scale_raw_def kScalingFactor_def)
qed

lemma safe_price_scaled:
  assumes "isSafePrice raw"
  obtains t where "scale_raw raw = Fin t" and "0 \<le> t" and "t < 2 ^ 64"
proof -
  obtain a where a: "raw = Fin a" "0 \<le> a" using assms by (cases raw) (auto simp: isSafePrice_def)
  have lt: "fp_less (fp_round binary64 (a * 10000)) (Fin (2 ^ 64))"
    using assms by (simp add: isSafePrice_def kMaxScaledPrice_eq a(1) scale_raw_Fin del: fp_formats)
  let ?s = "fround (prec binary64) (emin binary64) (a * 10000)"
  have s: "0 \<le> ?s" using a(2) by (intro fround_nonneg) simp
  show thesis
  proof (cases "\<bar>?s\<bar> < pow2 (emax binary64)")
    case True
    then have "scale_raw raw = Fin ?s" by (simp add: a(1) scale_raw_Fin fp_round_def Let_def del: fp_formats)
    moreover have "?s < 2 ^ 64" using lt True by (simp add: fp_round_def Let_def del: fp_formats)
    ultimately show thesis using s that by blast
  next
    case False
    then have "a \<noteq> 0" by (auto simp del: fp_formats)
    then have "fp_round binary64 (a * 10000) = PInf" using False a(2) by (simp add: fp_round_def Let_def del: fp_formats)
    then show thesis using lt by simp
  qed
qed

lemma safe_price_cast: "isSafePrice raw \<Longrightarrow> \<exists>n. fp_to_u64 (scale_raw raw) = Some n"
  by (elim safe_price_scaled) (simp add: trunc_cast del: fp_to_u64.simps)

lemma in_u64_cast: "\<not> out_of_u64 x \<Longrightarrow> \<exists>n. fp_to_u64 x = Some n"
  by (cases x) (auto simp: out_of_u64_def kUint64UpperBound_def trunc_cast simp del: fp_to_u64.simps)

lemma fill_total: "\<exists>r. fill_quote v = Some r" "\<exists>r. fill_trade v = Some r"
  using safe_price_cast [of "av_p1_raw v"] safe_price_cast [of "av_p2_raw v"]
  by (auto simp: fill_quote_def fill_trade_def)

lemma visit_total: "\<exists>v'. visit e v = Some v'"
proof -
  have emit: "\<exists>v'. emitItem v = Some v'" for v
    using fill_total [of v] by (auto simp: emitItem_def Let_def split: option.splits)
  have f: "\<exists>v'. visit_float64 x v = Some v'" for x
    using in_u64_cast [of x] by (auto simp: visit_float64_def split: FieldId.splits)
  show ?thesis using f emit [of v] by (cases e) (auto simp: end_map_def)
qed

section \<open>What a frame denotes\<close>

text \<open>The values of a frame and the calls a parser makes for them.\<close>

datatype mp = MStr string | MPos u64 | MNeg i64 | MF32 fp | MF64 fp | MExt string | MOther
  | MArr "mp list" | MMap "(mp \<times> mp) list"

fun sax_of :: "mp \<Rightarrow> sax list" where
  "sax_of (MStr s) = [VStr s]"
| "sax_of (MPos n) = [VPos n]"
| "sax_of (MNeg n) = [VNeg n]"
| "sax_of (MF32 x) = [Float32 x]"
| "sax_of (MF64 x) = [Float64 x]"
| "sax_of (MExt d) = [VExt d]"
| "sax_of MOther = [OtherVisit]"
| "sax_of (MArr xs) = StartArray # concat (map (\<lambda>x. StartArrayItem # sax_of x @ [EndArrayItem]) xs) @ [EndArray]"
| "sax_of (MMap kvs) = StartMap # concat (map (\<lambda>(k, x). StartMapKey # sax_of k @ [EndMapKey, StartMapValue] @ sax_of x @ [EndMapValue]) kvs)
     @ [EndMap]"

fun scalar :: "mp \<Rightarrow> bool" where
  "scalar (MArr xs) = False"
| "scalar (MMap kvs) = False"
| "scalar x = True"

definition flat :: "(mp \<times> mp) list \<Rightarrow> bool" where
  "flat kvs \<longleftrightarrow> (\<forall>(k, x) \<in> set kvs. scalar k \<and> scalar x)"

text \<open>The item a map denotes: its pairs in order, a later one replacing an earlier one.\<close>

record item =
  it_type :: string
  it_symbol :: string
  it_timestamp :: "u64 option"
  it_p1 :: fp
  it_s1 :: u64
  it_p2 :: fp
  it_s2 :: u64
  it_invalid :: bool

definition empty_item :: item where
  "empty_item = \<lparr>it_type = [], it_symbol = [], it_timestamp = None, it_p1 = Fin 0, it_s1 = 0, it_p2 = Fin 0,
     it_s2 = 0, it_invalid = False\<rparr>"

definition whole :: "fp \<Rightarrow> u64" where
  "whole x = (case x of Fin r \<Rightarrow> word_of_int \<lfloor>r\<rfloor> | _ \<Rightarrow> 0)"

primrec key_of :: "mp \<Rightarrow> FieldId" where
  "key_of (MStr s) = key_field s"
| "key_of (MPos n) = kNone"
| "key_of (MNeg n) = kNone"
| "key_of (MF32 x) = kNone"
| "key_of (MF64 x) = kNone"
| "key_of (MExt d) = kNone"
| "key_of MOther = kNone"
| "key_of (MArr xs) = kNone"
| "key_of (MMap kvs) = kNone"

text \<open>The value of a timestamp, of a price and of a size; \<^const>\<open>None\<close>: the value says nothing.\<close>

fun stamp_of :: "mp \<Rightarrow> u64 option" where
  "stamp_of (MPos n) = Some n"
| "stamp_of (MNeg n) = Some 0"
| "stamp_of (MF32 x) = Some (if out_of_u64 x then 0 else whole x)"
| "stamp_of (MF64 x) = Some (if out_of_u64 x then 0 else whole x)"
| "stamp_of (MExt d) = (if length d \<ge> 2 then Some (decodeTimestampExt d) else None)"
| "stamp_of x = None"

fun put_price :: "mp \<Rightarrow> fp \<times> bool \<Rightarrow> fp \<times> bool" where
  "put_price (MPos n) (p, bad) = (fp_of_int binary64 (uint n), bad)"
| "put_price (MF32 x) (p, bad) = (x, bad)"
| "put_price (MF64 x) (p, bad) = (x, bad)"
| "put_price (MNeg n) (p, bad) = (p, True)"
| "put_price x pb = pb"

fun put_size :: "mp \<Rightarrow> u64 \<times> bool \<Rightarrow> u64 \<times> bool" where
  "put_size (MPos n) (s, bad) = (n, bad)"
| "put_size (MF32 x) (s, bad) = (if out_of_u64 x then (s, True) else (whole x, bad))"
| "put_size (MF64 x) (s, bad) = (if out_of_u64 x then (s, True) else (whole x, bad))"
| "put_size (MNeg n) (s, bad) = (s, True)"
| "put_size x sb = sb"

definition put :: "FieldId \<Rightarrow> mp \<Rightarrow> item \<Rightarrow> item" where
  "put f x it =
     (case f of
        kNone \<Rightarrow> it
      | kType \<Rightarrow> (case x of MStr s \<Rightarrow> it\<lparr>it_type := take 8 s\<rparr> | _ \<Rightarrow> it)
      | kSymbol \<Rightarrow> (case x of MStr s \<Rightarrow> it\<lparr>it_symbol := take 8 s\<rparr> | _ \<Rightarrow> it)
      | kTimestamp \<Rightarrow> (case stamp_of x of Some t \<Rightarrow> it\<lparr>it_timestamp := Some t\<rparr> | None \<Rightarrow> it)
      | kBidPrice \<Rightarrow> (case put_price x (it_p1 it, it_invalid it) of (p, bad) \<Rightarrow> it\<lparr>it_p1 := p, it_invalid := bad\<rparr>)
      | kBidSize \<Rightarrow> (case put_size x (it_s1 it, it_invalid it) of (s, bad) \<Rightarrow> it\<lparr>it_s1 := s, it_invalid := bad\<rparr>)
      | kAskPrice \<Rightarrow> (case put_price x (it_p2 it, it_invalid it) of (p, bad) \<Rightarrow> it\<lparr>it_p2 := p, it_invalid := bad\<rparr>)
      | kAskSize \<Rightarrow> (case put_size x (it_s2 it, it_invalid it) of (s, bad) \<Rightarrow> it\<lparr>it_s2 := s, it_invalid := bad\<rparr>))"

definition item_of :: "(mp \<times> mp) list \<Rightarrow> item" where
  "item_of kvs = fold (\<lambda>(k, x). put (key_of k) x) kvs empty_item"

text \<open>A price in ticks, \<^const>\<open>None\<close> when it is not safe to convert.\<close>

definition raw_ticks :: "fp \<Rightarrow> u64 option" where
  "raw_ticks p = (if isSafePrice p then Some (whole (scale_raw p)) else None)"

definition event_of :: "u64 \<Rightarrow> item \<Rightarrow> MarketEvent option" where
  "event_of arrived_at it =
     (if it_type it = ''q'' then do {
        p1 \<leftarrow> raw_ticks (it_p1 it);
        p2 \<leftarrow> raw_ticks (it_p2 it);
        Some \<lparr>ev_eventType = 1, ev_symbol = copy_buf 8 (it_symbol it), ev_timestamp = (case it_timestamp it of None \<Rightarrow> 0 | Some t \<Rightarrow> t),
          ev_p1 = p1, ev_s1 = it_s1 it, ev_p2 = p2, ev_s2 = it_s2 it, ev_arrivedAt = arrived_at\<rparr>
      }
      else if it_type it = ''t'' then do {
        p1 \<leftarrow> raw_ticks (it_p1 it);
        Some \<lparr>ev_eventType = 2, ev_symbol = copy_buf 8 (it_symbol it), ev_timestamp = (case it_timestamp it of None \<Rightarrow> 0 | Some t \<Rightarrow> t),
          ev_p1 = p1, ev_s1 = it_s1 it, ev_p2 = 0, ev_s2 = 0, ev_arrivedAt = arrived_at\<rparr>
      }
      else None)"

definition item_out :: "bool \<Rightarrow> bool \<Rightarrow> u64 \<Rightarrow> item \<Rightarrow> decoder_out list" where
  "item_out auth first arrived_at it =
     (if it_invalid it then []
      else if it_type it = ''success'' then (if first \<and> auth then [AuthSuccess] else [])
      else if it_symbol it = [] then []
      else case event_of arrived_at it of Some e \<Rightarrow> [Emit e (it_symbol it)] | None \<Rightarrow> [])"

primrec frame_out :: "bool \<Rightarrow> u64 \<Rightarrow> bool \<Rightarrow> (mp \<times> mp) list list \<Rightarrow> decoder_out list" where
  "frame_out auth arrived_at first [] = []"
| "frame_out auth arrived_at first (kvs # items) =
     item_out auth first arrived_at (item_of kvs) @ frame_out auth arrived_at False items"

section \<open>The visitor computes it\<close>

definition item_abs :: "AlpacaVisitor \<Rightarrow> item" where
  "item_abs v = \<lparr>it_type = take (av_msg_type_len v) (av_msg_type v), it_symbol = take (av_symbol_len v) (av_symbol_buf v),
     it_timestamp = (if av_has_timestamp v then Some (av_timestamp v) else None),
     it_p1 = av_p1_raw v, it_s1 = av_s1_raw v, it_p2 = av_p2_raw v, it_s2 = av_s2_raw v, it_invalid = av_invalid_item v\<rparr>"

text \<open>What the visitor keeps besides the item: its place in the frame, its parameters and its outputs.\<close>

definition av_frame :: "AlpacaVisitor \<Rightarrow> u32 \<times> u32 \<times> u32 \<times> bool \<times> bool \<times> u64 \<times> decoder_out list" where
  "av_frame v = (av_array_depth v, av_array_index v, av_map_depth v, av_in_key v, av_on_auth_success v, av_arrived_at v, av_out v)"

lemma take_overwrite: "take (min (length s) 8) (overwrite (take 8 s) buf) = take 8 s"
  by (simp add: overwrite_def min_def)

lemma whole_cast: "\<not> out_of_u64 x \<Longrightarrow> fp_to_u64 x = Some (whole x)"
  by (cases x) (auto simp: out_of_u64_def kUint64UpperBound_def trunc_cast whole_def simp del: fp_to_u64.simps)

lemma raw_ticks_cast: "isSafePrice p \<Longrightarrow> fp_to_u64 (scale_raw p) = raw_ticks p"
  by (rule safe_price_scaled [of p]) (simp_all add: trunc_cast raw_ticks_def whole_def del: fp_to_u64.simps)

lemmas visit_defs = start_map_key_def end_map_key_def end_map_value_def visit_str_def visit_positive_integer_def
  visit_negative_integer_def visit_float64_def visit_ext_def item_abs_def av_frame_def

lemma visit_key:
  assumes "scalar k" and "av_map_depth v = 1"
  shows "\<exists>v'. run_list visit (StartMapKey # sax_of k @ [EndMapKey]) v = Some v' \<and>
    av_current_field v' = key_of k \<and> item_abs v' = item_abs v \<and> av_frame v' = av_frame (v\<lparr>av_in_key := False\<rparr>)"
  using assms
  by (cases k) (simp_all add: visit_defs)

lemma visit_value:
  assumes "scalar x" and "av_map_depth v = 1" and "\<not> av_in_key v"
  shows "\<exists>v'. run_list visit (StartMapValue # sax_of x @ [EndMapValue]) v = Some v' \<and>
    item_abs v' = put (av_current_field v) x (item_abs v) \<and> av_frame v' = av_frame v"
  by (insert assms, (cases "av_current_field v"; cases x; simp add: visit_defs put_def whole_cast take_overwrite))

text \<open>Concatenated runs.\<close>

lemma run_list_appendI:
  assumes "run_list f xs s = Some s1" and "run_list f ys s1 = Some s2"
  shows "run_list f (xs @ ys) s = Some s2"
  using assms by (simp add: run_list_append)

definition pair_calls :: "mp \<times> mp \<Rightarrow> sax list" where
  "pair_calls kx = (StartMapKey # sax_of (fst kx) @ [EndMapKey]) @ (StartMapValue # sax_of (snd kx) @ [EndMapValue])"

lemma visit_pairs:
  assumes "flat kvs" and "av_map_depth v = 1" and "\<not> av_in_key v"
  shows "\<exists>v'. run_list visit (concat (map pair_calls kvs)) v = Some v' \<and>
    item_abs v' = fold (\<lambda>(k, x). put (key_of k) x) kvs (item_abs v) \<and> av_frame v' = av_frame v"
  using assms
proof (induction kvs arbitrary: v)
  case (Cons kx kvs)
  obtain k x where kx: "kx = (k, x)" "scalar k" "scalar x" "flat kvs"
    using Cons.prems(1) by (cases kx) (auto simp: flat_def)
  obtain v1 where v1: "run_list visit (StartMapKey # sax_of k @ [EndMapKey]) v = Some v1" "av_current_field v1 = key_of k"
    "item_abs v1 = item_abs v" "av_frame v1 = av_frame (v\<lparr>av_in_key := False\<rparr>)"
    using visit_key [OF kx(2) Cons.prems(2)] by blast
  have m1: "av_map_depth v1 = 1" "\<not> av_in_key v1" "av_frame v1 = av_frame v" using v1(4) Cons.prems(2,3) by (simp_all add: av_frame_def)
  obtain v2 where v2: "run_list visit (StartMapValue # sax_of x @ [EndMapValue]) v1 = Some v2"
    "item_abs v2 = put (key_of k) x (item_abs v)" "av_frame v2 = av_frame v"
    using visit_value [OF kx(3) m1(1,2)] v1(2,3) m1(3) by auto
  have m2: "av_map_depth v2 = 1" "\<not> av_in_key v2" using v2(3) Cons.prems(2,3) by (simp_all add: av_frame_def)
  obtain v' where v': "run_list visit (concat (map pair_calls kvs)) v2 = Some v'"
    "item_abs v' = fold (\<lambda>(k, x). put (key_of k) x) kvs (item_abs v2)" "av_frame v' = av_frame v2"
    using Cons.IH [OF kx(4) m2] by blast
  have "run_list visit (pair_calls kx) v = Some v2"
    unfolding pair_calls_def kx fst_conv snd_conv by (rule run_list_appendI [OF v1(1) v2(1)])
  then have "run_list visit (pair_calls kx @ concat (map pair_calls kvs)) v = Some v'"
    by (rule run_list_appendI [OF _ v'(1)])
  then show ?case using v' v2 kx(1) by auto
qed simp

lemma emitItem_out:
  assumes "av_map_depth v = 1" and "av_array_depth v = 1"
  shows "\<exists>v'. emitItem v = Some v' \<and>
    av_frame v' = av_frame (v\<lparr>av_out := av_out v @ item_out (av_on_auth_success v) (av_array_index v = 0) (av_arrived_at v) (item_abs v)\<rparr>)"
proof -
  let ?it = "item_abs v"
  have symb: "copySymbol (av_symbol_buf v) (av_symbol_len v) = copy_buf 8 (it_symbol ?it)"
    using copy_buf_take [of 8 "take (av_symbol_len v) (av_symbol_buf v)"]
    by (simp add: copySymbol_def kSymbolCapacity_def item_abs_def min.commute)
  have fields: "it_type ?it = take (av_msg_type_len v) (av_msg_type v)" "it_symbol ?it = take (av_symbol_len v) (av_symbol_buf v)"
    "it_invalid ?it = av_invalid_item v" "it_p1 ?it = av_p1_raw v" "it_p2 ?it = av_p2_raw v" "it_s1 ?it = av_s1_raw v" "it_s2 ?it = av_s2_raw v"
    "(case it_timestamp ?it of None \<Rightarrow> 0 | Some t \<Rightarrow> t) = (if av_has_timestamp v then av_timestamp v else 0)"
    by (simp_all add: item_abs_def)
  have q: "fill_quote v = Some (case raw_ticks (av_p1_raw v) of None \<Rightarrow> None | Some p1 \<Rightarrow>
      (case raw_ticks (av_p2_raw v) of None \<Rightarrow> None | Some p2 \<Rightarrow> Some ((av_event_buffer v)\<lparr>ev_eventType := 1, ev_p1 := p1,
        ev_s1 := av_s1_raw v, ev_p2 := p2, ev_s2 := av_s2_raw v\<rparr>)))"
    using raw_ticks_cast [of "av_p1_raw v"] raw_ticks_cast [of "av_p2_raw v"] by (simp add: fill_quote_def raw_ticks_def)
  have t: "fill_trade v = Some (case raw_ticks (av_p1_raw v) of None \<Rightarrow> None | Some p1 \<Rightarrow>
      Some ((av_event_buffer v)\<lparr>ev_eventType := 2, ev_p1 := p1, ev_s1 := av_s1_raw v, ev_p2 := 0, ev_s2 := 0\<rparr>))"
    using raw_ticks_cast [of "av_p1_raw v"] by (simp add: fill_trade_def raw_ticks_def)
  show ?thesis
    unfolding emitItem_def item_out_def event_of_def Let_def fields symb q t
    by (auto simp: av_frame_def fields split: option.splits)
qed

text \<open>One map of the frame.\<close>

definition between_items :: "nat \<Rightarrow> AlpacaVisitor \<Rightarrow> bool" where
  "between_items i v \<longleftrightarrow> av_array_depth v = 1 \<and> av_map_depth v = 0 \<and> \<not> av_in_key v \<and> av_array_index v = of_nat i"

lemma sax_of_MMap: "sax_of (MMap kvs) = [StartMap] @ concat (map pair_calls kvs) @ [EndMap]"
proof -
  have "(\<lambda>(k, x). StartMapKey # sax_of k @ [EndMapKey, StartMapValue] @ sax_of x @ [EndMapValue]) = pair_calls"
    by (auto simp: pair_calls_def)
  then show ?thesis by simp
qed

lemma visit_map:
  assumes "flat kvs" and "between_items i v" and "i < 2 ^ 32"
  shows "\<exists>v'. run_list visit (sax_of (MMap kvs)) v = Some v' \<and> between_items i v' \<and>
    av_out v' = av_out v @ item_out (av_on_auth_success v) (i = 0) (av_arrived_at v) (item_of kvs) \<and>
    av_on_auth_success v' = av_on_auth_success v \<and> av_arrived_at v' = av_arrived_at v"
proof -
  define v1 where "v1 = start_map v"
  have v1: "av_frame v1 = av_frame (v\<lparr>av_map_depth := 1\<rparr>)" "item_abs v1 = empty_item"
    using assms(2) by (simp_all add: v1_def start_map_def between_items_def resetItem_def av_frame_def item_abs_def empty_item_def)
  obtain v2 where v2: "run_list visit (concat (map pair_calls kvs)) v1 = Some v2" "item_abs v2 = item_of kvs" "av_frame v2 = av_frame v1"
    using visit_pairs [OF assms(1), of v1] v1 assms(2) by (auto simp: av_frame_def between_items_def item_of_def)
  have d: "av_map_depth v2 = 1" "av_array_depth v2 = 1" using v2(3) v1(1) assms(2) by (simp_all add: av_frame_def between_items_def)
  obtain v3 where v3: "emitItem v2 = Some v3" "av_frame v3 = av_frame (v2\<lparr>av_out := av_out v2 @
      item_out (av_on_auth_success v2) (av_array_index v2 = 0) (av_arrived_at v2) (item_abs v2)\<rparr>)"
    using emitItem_out [OF d] by blast
  have "end_map v2 = Some (v3\<lparr>av_map_depth := av_map_depth v3 - 1\<rparr>)" using d v3(1) by (simp add: end_map_def)
  then have rest: "run_list visit (concat (map pair_calls kvs) @ [EndMap]) v1 = Some (v3\<lparr>av_map_depth := av_map_depth v3 - 1\<rparr>)"
    by (intro run_list_appendI [OF v2(1)]) simp
  have "run_list visit [StartMap] v = Some v1" by (simp add: v1_def)
  then have run: "run_list visit (sax_of (MMap kvs)) v = Some (v3\<lparr>av_map_depth := av_map_depth v3 - 1\<rparr>)"
    unfolding sax_of_MMap by (rule run_list_appendI [OF _ rest])
  have "((of_nat i :: u32) = 0) = (i = 0)"
  proof -
    have "unat (of_nat i :: u32) = i" using assms(3) by (simp add: unat_of_nat)
    moreover have "unat w = 0 \<longleftrightarrow> w = 0" for w :: u32 by (rule unsigned_eq_0_iff)
    ultimately show ?thesis by metis
  qed
  then show ?thesis
    using run v3(2) v2(2,3) v1(1) assms(2) by (auto simp: av_frame_def between_items_def)
qed

lemma visit_items:
  assumes "\<forall>kvs \<in> set items. flat kvs" and "between_items i v" and "i + length items < 2 ^ 32"
  shows "\<exists>v'. run_list visit (concat (map (\<lambda>x. StartArrayItem # sax_of x @ [EndArrayItem]) (map MMap items))) v = Some v' \<and>
    av_out v' = av_out v @ frame_out (av_on_auth_success v) (av_arrived_at v) (i = 0) items"
  using assms
proof (induction items arbitrary: i v)
  case (Cons kvs items)
  obtain v1 where v1: "run_list visit (sax_of (MMap kvs)) v = Some v1" "between_items i v1"
    "av_out v1 = av_out v @ item_out (av_on_auth_success v) (i = 0) (av_arrived_at v) (item_of kvs)"
    "av_on_auth_success v1 = av_on_auth_success v" "av_arrived_at v1 = av_arrived_at v"
    using visit_map [of kvs i v] Cons.prems by auto
  let ?v2 = "end_array_item v1"
  have v2: "between_items (Suc i) ?v2" "av_out ?v2 = av_out v1" "av_on_auth_success ?v2 = av_on_auth_success v1" "av_arrived_at ?v2 = av_arrived_at v1"
    using v1(2) by (simp_all add: between_items_def end_array_item_def)
  obtain v' where v': "run_list visit (concat (map (\<lambda>x. StartArrayItem # sax_of x @ [EndArrayItem]) (map MMap items))) ?v2 = Some v'"
    "av_out v' = av_out ?v2 @ frame_out (av_on_auth_success ?v2) (av_arrived_at ?v2) False items"
    using Cons.IH [OF _ v2(1)] Cons.prems(1,3) by auto
  have one: "run_list visit (StartArrayItem # sax_of (MMap kvs) @ [EndArrayItem]) v = Some ?v2"
    using v1(1) by (simp add: run_list_append del: sax_of.simps)
  have "run_list visit ((StartArrayItem # sax_of (MMap kvs) @ [EndArrayItem]) @
      concat (map (\<lambda>x. StartArrayItem # sax_of x @ [EndArrayItem]) (map MMap items))) v = Some v'"
    by (rule run_list_appendI [OF one v'(1)])
  then show ?case using v'(2) v1 v2 by (auto simp del: sax_of.simps)
qed simp

lemma frame_decoded:
  assumes "parse data = sax_of (MArr (map MMap items))" and "\<forall>kvs \<in> set items. flat kvs" and "length items < 2 ^ 32"
  shows "map_option fst (decodeRaw parse data arrived_at md) = Some (frame_out (md_on_auth_success md) arrived_at True items)"
proof -
  let ?v = "new_AlpacaVisitor (md_event_buffer md) (md_on_auth_success md) arrived_at"
  have b: "between_items 0 (start_array ?v)" "av_out (start_array ?v) = []" "av_on_auth_success (start_array ?v) = md_on_auth_success md"
    "av_arrived_at (start_array ?v) = arrived_at"
    by (simp_all add: between_items_def start_array_def new_AlpacaVisitor_def)
  obtain v' where v': "run_list visit (concat (map (\<lambda>x. StartArrayItem # sax_of x @ [EndArrayItem]) (map MMap items))) (start_array ?v) = Some v'"
    "av_out v' = frame_out (md_on_auth_success md) arrived_at True items"
    using visit_items [OF assms(2) b(1)] assms(3) b(2-4) by auto
  have "run_list visit (concat (map (\<lambda>x. StartArrayItem # sax_of x @ [EndArrayItem]) (map MMap items)) @ [EndArray]) (start_array ?v) = Some (end_array v')"
    by (rule run_list_appendI [OF v'(1)]) simp
  then have "run_list visit (parse data) ?v = Some (end_array v')" using assms(1) by simp
  then show ?thesis using v'(2) by (simp add: decodeRaw_def end_array_def)
qed

text \<open>C30. Decoding a frame: when the parser presents an array of flat maps, the decoder's outputs are exactly those
  the maps denote, one map at a time and in order. The later of two values for a field wins; a quote or
  trade without a symbol, with an unsafe price or with a negative or out-of-range size is dropped and has
  no influence on the maps after it; the authentication callback runs for the first map only.\<close>

theorem decode_frame:
  assumes "parse data = sax_of (MArr (map MMap items))" and "\<forall>kvs \<in> set items. flat kvs" and "length items < 2 ^ 32"
  shows "map_option fst (decodeRaw parse data arrived_at md) = Some (frame_out (md_on_auth_success md) arrived_at True items)"
  by (rule frame_decoded [where parse = parse and data = data, OF assms])

definition demo_frame :: "(mp \<times> mp) list list" where
  "demo_frame = [[(MStr ''T'', MStr ''success''), (MStr ''msg'', MStr ''authenticated'')],
     [(MStr ''T'', MStr ''t''), (MStr ''S'', MStr ''AAPL''), (MStr ''p'', MPos 150), (MStr ''s'', MPos 7)],
     [(MStr ''T'', MStr ''t''), (MStr ''S'', MStr ''MSFT''), (MStr ''p'', MNeg (- 1))]]"

definition demo_decoder :: AlpacaMsgpackDecoder where
  "demo_decoder = \<lparr>md_event_buffer = \<lparr>ev_eventType = 0, ev_symbol = replicate 8 NUL, ev_timestamp = 0, ev_p1 = 0, ev_s1 = 0,
     ev_p2 = 0, ev_s2 = 0, ev_arrivedAt = 0\<rparr>, md_on_auth_success = True\<rparr>"

lemma demo_frame_flat: "\<forall>kvs \<in> set demo_frame. flat kvs" "length demo_frame < 2 ^ 32"
  by (simp_all add: demo_frame_def flat_def)

lemma demo_frame_out:
  "frame_out True 5 True demo_frame = [AuthSuccess, Emit \<lparr>ev_eventType = 2, ev_symbol = copy_buf 8 ''AAPL'', ev_timestamp = 0,
      ev_p1 = 1500000, ev_s1 = 7, ev_p2 = 0, ev_s2 = 0, ev_arrivedAt = 5\<rparr> ''AAPL'']"
proof -
  have p: "fp_of_int binary64 150 = Fin 150" "fp_round binary64 1500000 = Fin 1500000"
    using fp_round_exact [of 150 binary64] fp_round_exact [of 1500000 binary64] by (simp_all add: fp_of_int_def)
  then have "raw_ticks (Fin 150) = Some 1500000"
    by (simp add: raw_ticks_def isSafePrice_def kMaxScaledPrice_eq scale_raw_Fin whole_def del: fp_formats)
  then show ?thesis
    using p(1) by (simp add: demo_frame_def item_of_def put_def key_field_def empty_item_def item_out_def event_of_def del: fp_formats)
qed

theorem decode_frame_witness:
  "map_option fst (decodeRaw (\<lambda>_. sax_of (MArr (map MMap demo_frame))) [] 5 demo_decoder) =
    Some [AuthSuccess, Emit \<lparr>ev_eventType = 2, ev_symbol = copy_buf 8 ''AAPL'', ev_timestamp = 0,
      ev_p1 = 1500000, ev_s1 = 7, ev_p2 = 0, ev_s2 = 0, ev_arrivedAt = 5\<rparr> ''AAPL'']"
  using decode_frame [OF refl demo_frame_flat, of "[]" 5 demo_decoder] demo_frame_out by (simp add: demo_decoder_def)

section \<open>Every emitted event is well formed\<close>

definition good_out :: "u64 \<Rightarrow> decoder_out \<Rightarrow> bool" where
  "good_out arrived_at out \<longleftrightarrow>
     (case out of
        AuthSuccess \<Rightarrow> True
      | Emit e symb \<Rightarrow> symb \<noteq> [] \<and> length symb \<le> 8 \<and> ev_symbol e = copy_buf 8 symb \<and> ev_arrivedAt e = arrived_at \<and>
          (ev_eventType e = 1 \<or> ev_eventType e = 2 \<and> ev_p2 e = 0 \<and> ev_s2 e = 0))"

definition av_ok :: "AlpacaVisitor \<Rightarrow> bool" where
  "av_ok v \<longleftrightarrow> length (av_symbol_buf v) = 8 \<and> av_symbol_len v \<le> 8 \<and> (\<forall>out \<in> set (av_out v). good_out (av_arrived_at v) out)"

lemma emitItem_ok:
  assumes "av_ok v" and "emitItem v = Some v'"
  shows "av_ok v' \<and> av_arrived_at v' = av_arrived_at v"
proof -
  have symb: "copySymbol (av_symbol_buf v) (av_symbol_len v) = copy_buf 8 (take (av_symbol_len v) (av_symbol_buf v))"
    using assms(1) by (simp add: copySymbol_def kSymbolCapacity_def av_ok_def min_def)
  have q: "ev_eventType e = 1" if "fill_quote v = Some (Some e)" for e
    using that by (auto simp: fill_quote_def bind_eq_Some_conv split: if_splits)
  have t: "ev_eventType e = 2 \<and> ev_p2 e = 0 \<and> ev_s2 e = 0" if "fill_trade v = Some (Some e)" for e
    using that by (auto simp: fill_trade_def bind_eq_Some_conv split: if_splits)
  let ?mt = "take (av_msg_type_len v) (av_msg_type v)" and ?s = "take (av_symbol_len v) (av_symbol_buf v)"
  consider "v' = v" | "v' = v\<lparr>av_out := av_out v @ [AuthSuccess]\<rparr>" | buffer where "?s \<noteq> []"
    "fill_quote v = Some (Some buffer) \<or> fill_trade v = Some (Some buffer)"
    "v' = (let event = buffer\<lparr>ev_symbol := copy_buf 8 ?s, ev_timestamp := if av_has_timestamp v then av_timestamp v else 0,
         ev_arrivedAt := av_arrived_at v\<rparr>
       in v\<lparr>av_event_buffer := event, av_out := av_out v @ [Emit event ?s]\<rparr>)"
  proof (cases "av_invalid_item v \<or> ?mt = ''success'' \<or> ?mt = [] \<or> ?s = []")
    case True
    have "v' = v \<or> v' = v\<lparr>av_out := av_out v @ [AuthSuccess]\<rparr>"
    proof (cases "av_invalid_item v")
      case True
      then show ?thesis using assms(2) by (simp add: emitItem_def)
    next
      case False
      then show ?thesis using assms(2) True
        by (cases "?mt = ''success''") (simp_all add: emitItem_def Let_def del: take_eq_Nil split: if_splits)
    qed
    then show thesis using that(1,2) by blast
  next
    case False
    let ?R = "\<lambda>filled. case filled of None \<Rightarrow> Some v | Some buffer \<Rightarrow>
        let event = buffer\<lparr>ev_symbol := copy_buf 8 ?s, ev_timestamp := if av_has_timestamp v then av_timestamp v else 0,
              ev_arrivedAt := av_arrived_at v\<rparr>
        in Some (v\<lparr>av_event_buffer := event, av_out := av_out v @ [Emit event ?s]\<rparr>)"
    have "Option.bind (if ?mt = ''q'' then fill_quote v else if ?mt = ''t'' then fill_trade v else Some None) ?R = Some v'"
      using assms(2) False unfolding emitItem_def Let_def symb by (simp del: take_eq_Nil)
    then obtain filled where f: "(if ?mt = ''q'' then fill_quote v else if ?mt = ''t'' then fill_trade v else Some None) = Some filled"
      and r: "?R filled = Some v'"
      by (auto simp: bind_eq_Some_conv simp del: take_eq_Nil)
    show thesis
    proof (cases filled)
      case (Some buffer)
      then show thesis using that(3) [of buffer] f r False by (simp add: Let_def split: if_splits)
    qed (use r that(1) in simp)
  qed
  then show ?thesis
  proof cases
    case 3
    then have "good_out (av_arrived_at v) (Emit (buffer\<lparr>ev_symbol := copy_buf 8 ?s,
        ev_timestamp := if av_has_timestamp v then av_timestamp v else 0, ev_arrivedAt := av_arrived_at v\<rparr>) ?s)"
      using q t assms(1) by (auto simp: good_out_def av_ok_def)
    then show ?thesis using 3(3) assms(1) by (simp add: av_ok_def Let_def)
  qed (use assms(1) in \<open>auto simp: av_ok_def good_out_def\<close>)
qed

lemma visit_ok:
  assumes "av_ok v" and "visit e v = Some v'"
  shows "av_ok v' \<and> av_arrived_at v' = av_arrived_at v"
proof (cases e)
  case EndMap
  then obtain v1 where "av_ok v1 \<and> av_arrived_at v1 = av_arrived_at v" "v' = v1\<lparr>av_map_depth := av_map_depth v1 - 1\<rparr>"
    using assms emitItem_ok [OF assms(1)] by (auto simp: end_map_def bind_eq_Some_conv split: if_splits)
  then show ?thesis by (auto simp: av_ok_def)
qed (use assms in \<open>auto simp: av_ok_def start_array_def end_array_item_def end_array_def start_map_def resetItem_def
    start_map_key_def end_map_key_def end_map_value_def visit_str_def overwrite_def visit_positive_integer_def visit_negative_integer_def
    visit_float64_def visit_ext_def Let_def bind_eq_Some_conv split: FieldId.splits if_splits\<close>)

lemma decoded_outs:
  "\<exists>outs md'. decodeRaw parse data arrived_at md = Some (outs, md') \<and> (\<forall>out \<in> set outs. good_out arrived_at out)"
proof -
  have total: "\<exists>v'. run_list visit es v = Some v'" for es v
  proof (induction es arbitrary: v)
    case (Cons e es)
    obtain v1 where "visit e v = Some v1" using visit_total by blast
    then show ?case using Cons.IH [of v1] by simp
  qed simp
  let ?v = "new_AlpacaVisitor (md_event_buffer md) (md_on_auth_success md) arrived_at"
  obtain v' where v': "run_list visit (parse data) ?v = Some v'" using total by blast
  have "av_ok v' \<and> av_arrived_at v' = arrived_at"
  proof (rule run_list_inv [OF v', where I = "\<lambda>v. av_ok v \<and> av_arrived_at v = arrived_at"])
    show "av_ok ?v \<and> av_arrived_at ?v = arrived_at" by (simp add: av_ok_def new_AlpacaVisitor_def)
  qed (use visit_ok in blast)
  then show ?thesis using v' by (auto simp: decodeRaw_def av_ok_def)
qed

text \<open>C31. Whatever bytes arrive and whatever calls the parser makes for them, well nested or not, decoding is defined (no
  conversion of a price, size or time leaves the range of its type), and every event it emits is well
  formed: a non-empty symbol of at most 8 bytes, copied zero-padded into the event, the arrival time of
  the frame, and one of the two event types, trades with an empty ask side.\<close>

theorem emitted_events_wf:
  "\<exists>outs md'. decodeRaw parse data arrived_at md = Some (outs, md') \<and> (\<forall>out \<in> set outs. good_out arrived_at out)"
  by (rule decoded_outs)

theorem emitted_events_wf_witness:
  "\<exists>outs md'. decodeRaw (\<lambda>_. sax_of (MArr (map MMap demo_frame))) [] 5 demo_decoder = Some (outs, md') \<and>
    length outs = 2 \<and> (\<forall>out \<in> set outs. good_out 5 out)"
proof -
  have "map_option fst (decodeRaw (\<lambda>_. sax_of (MArr (map MMap demo_frame))) [] 5 demo_decoder) = Some (frame_out True 5 True demo_frame)"
    using frame_decoded [OF refl demo_frame_flat, of "[]" 5 demo_decoder] by (simp add: demo_decoder_def)
  moreover have "length (frame_out True 5 True demo_frame) = 2" by (simp add: demo_frame_out)
  ultimately show ?thesis
    using emitted_events_wf [of "\<lambda>_. sax_of (MArr (map MMap demo_frame))" "[]" 5 demo_decoder] by auto
qed

section \<open>Timestamps and prices\<close>

text \<open>The MessagePack timestamp extension (type -1): 32 bits of seconds when they suffice, else 30 bits of
  nanoseconds and 34 of seconds, else 32 bits of nanoseconds and 64 of seconds, all big endian.\<close>

definition timestamp_ext :: "nat \<Rightarrow> nat \<Rightarrow> string" where
  "timestamp_ext sec nsec = CHR 0xFF #
     (if nsec = 0 \<and> sec < 2 ^ 32 then rev (le_bytes 4 sec)
      else if sec < 2 ^ 34 then rev (le_bytes 8 (nsec * 2 ^ 34 + sec))
      else rev (le_bytes 4 nsec) @ rev (le_bytes 8 sec))"

lemma be_u64_bytes: "x < 256 ^ n \<Longrightarrow> be_u64 (rev (le_bytes n x)) = of_nat x"
  by (simp add: be_u64_def le_u64_le_bytes)

lemma split_stamp:
  assumes "sec < 2 ^ 34" and "nsec < 2 ^ 30"
  defines "w \<equiv> (of_nat (nsec * 2 ^ 34 + sec) :: u64)"
  shows "drop_bit 34 w = of_nat nsec" and "w AND 0x3FFFFFFFF = of_nat sec"
proof -
  have lt: "nsec * 2 ^ 34 + sec < 2 ^ 64" using assms(1,2) by simp
  have w: "unat w = nsec * 2 ^ 34 + sec"
  proof -
    have "unat (of_nat (nsec * 2 ^ 34 + sec) :: u64) = (nsec * 2 ^ 34 + sec) mod 2 ^ 64" by (simp only: unat_of_nat) simp
    then show ?thesis using lt unfolding w_def by (simp only: mod_less)
  qed
  have "unat (drop_bit 34 w) = drop_bit 34 (unat w)" by (simp only: unat_drop_bit_eq)
  also have "\<dots> = nsec" using assms(1) unfolding w by (simp add: drop_bit_eq_div)
  finally have "unat (drop_bit 34 w) = nsec" .
  from arg_cong [OF this, of "of_nat :: nat \<Rightarrow> u64"] show "drop_bit 34 w = of_nat nsec" by simp
  have "(0x3FFFFFFFF :: u64) = mask 34" by (simp add: mask_eq_exp_minus_1)
  then have "w AND 0x3FFFFFFFF = take_bit 34 w" by (simp only: take_bit_eq_mask)
  moreover have "unat (take_bit 34 w) = sec" using assms(1) unfolding unsigned_take_bit_eq w by (simp add: take_bit_eq_mod)
  from arg_cong [OF this, of "of_nat :: nat \<Rightarrow> u64"] have "take_bit 34 w = of_nat sec" by simp
  ultimately show "w AND 0x3FFFFFFFF = of_nat sec" by simp
qed

text \<open>C32. Decoding the MessagePack timestamp extension inverts its encoding in all three formats: seconds and
  nanoseconds come back as nanoseconds since the epoch, modulo \<open>2\<^sup>6\<^sup>4\<close>.\<close>

theorem timestamp_roundtrip:
  assumes "sec < 2 ^ 64" and "nsec < 10 ^ 9"
  shows "decodeTimestampExt (timestamp_ext sec nsec) = of_nat (sec * 10 ^ 9 + nsec)"
proof -
  have ty: "sint (of_char (CHR 0xFF) :: u8) = - 1" by simp
  have n: "nsec < 2 ^ 30" using assms(2) by simp
  consider "nsec = 0" "sec < 2 ^ 32" | "\<not> (nsec = 0 \<and> sec < 2 ^ 32)" "sec < 2 ^ 34" | "\<not> sec < 2 ^ 34" "\<not> sec < 2 ^ 32"
    by fastforce
  then show ?thesis
  proof cases
    case 1
    then show ?thesis using be_u64_bytes [of sec 4] by (simp add: timestamp_ext_def decodeTimestampExt_def ty)
  next
    case 2
    have "nsec * 2 ^ 34 + sec < 256 ^ 8" using 2(2) n by simp
    from be_u64_bytes [OF this] split_stamp [OF 2(2) n] show ?thesis
      using 2 by (auto simp: timestamp_ext_def decodeTimestampExt_def ty Let_def)
  next
    case 3
    have "nsec < 256 ^ 4" "sec < 256 ^ 8" using assms n by simp_all
    from be_u64_bytes [OF this(1)] be_u64_bytes [OF this(2)] show ?thesis
      using 3 by (simp add: timestamp_ext_def decodeTimestampExt_def ty Let_def)
  qed
qed

theorem timestamp_roundtrip_witness:
  "decodeTimestampExt (timestamp_ext 1700000000 5) = 1700000000000000005"
  using timestamp_roundtrip [of 1700000000 5] by simp

lemma scale_raw_mul: "scale_raw p = fp_mul binary64 p (Fin 10000)"
  using fp_round_exact [of 10000 binary64] by (simp add: scale_raw_def fp_of_int_def kScalingFactor_def)

text \<open>Decoded prices: a price of \<open>k\<close> ten-thousandths of a dollar, sent as the nearest \<open>double\<close>, is always accepted and
  decoded to \<open>k\<close> ticks or, because the scaled value is truncated, to \<open>k - 1\<close>, for every price from one
  tick up to \<open>2\<^sup>5\<^sup>0\<close> ticks.\<close>

theorem decoded_price_close:
  assumes "1 \<le> k" and "k \<le> 2 ^ 50"
  shows "isSafePrice (tick_price k) \<and>
    (fp_to_u64 (scale_raw (tick_price k)) = Some (word_of_int k) \<or> fp_to_u64 (scale_raw (tick_price k)) = Some (word_of_int (k - 1)))"
proof -
  obtain t where t: "fp_mul binary64 (tick_price k) (Fin 10000) = Fin t" "\<bar>t - of_int k\<bar> < 1 / 2"
    using tick_price_scaled [OF assms] .
  have s: "scale_raw (tick_price k) = Fin t" using t(1) by (simp only: scale_raw_mul)
  obtain p where p: "tick_price k = Fin p" using t(1) by (cases "tick_price k") (simp_all add: fp_inf_def)
  have "0 \<le> p"
    using p fround_nonneg [of "of_int k / 10000" "prec binary64" "emin binary64"] assms(1)
    by (auto simp: tick_price_def fp_round_def Let_def split: if_splits simp del: fp_formats)
  have k: "(of_int k :: rat) \<le> 2 ^ 50" using assms(2) by (metis of_int_le_iff of_int_numeral of_int_power)
  have k1: "1 \<le> (of_int k :: rat)" using assms(1) by simp
  have "t < of_int k + 1" "0 \<le> t" using t(2) k1 unfolding abs_less_iff by linarith+
  moreover have "(2 :: rat) ^ 50 + 1 < 2 ^ 64" by simp
  ultimately have r: "0 \<le> t" "t < 2 ^ 64" using k by linarith+
  have "\<lfloor>t\<rfloor> = k \<or> \<lfloor>t\<rfloor> = k - 1"
  proof (cases "of_int k \<le> t")
    case True
    then have "\<lfloor>t\<rfloor> = k" using t(2) by (intro floor_unique) auto
    then show ?thesis by simp
  next
    case False
    then have "\<lfloor>t\<rfloor> = k - 1" using t(2) by (intro floor_unique) auto
    then show ?thesis by simp
  qed
  then show ?thesis
    using trunc_cast [OF r] r \<open>0 \<le> p\<close> s by (auto simp: isSafePrice_def p kMaxScaledPrice_eq simp del: fp_to_u64.simps)
qed

theorem decoded_price_close_witness:
  "isSafePrice (tick_price 1500000) \<and> (fp_to_u64 (scale_raw (tick_price 1500000)) = Some 1500000 \<or>
    fp_to_u64 (scale_raw (tick_price 1500000)) = Some 1499999)"
  using decoded_price_close [of 1500000] by simp

end
