(* ===== verification/Market_Wire.thy ===== *)
theory Market_Wire
  imports Market_Decoding
begin

text \<open>
  A \<open>MarketEvent\<close> on the wire: its 64 bytes in memory, as \<open>ZmqMarketEventSink::publish\<close> sends them and
  \<open>MarketEventConsumer::run\<close> copies them back (little-endian host, no padding: the source asserts
  \<open>sizeof(MarketEvent) == 64\<close>). Then the sink itself (\<open>src/ZmqMarketEventSink.cpp\<close>); the ZeroMQ socket is
  outside code, a \<open>send\<close> that says whether the part was accepted.
\<close>

definition u64_bytes :: "u64 \<Rightarrow> string" where
  "u64_bytes w = le_bytes 8 (unat w)"

definition event_bytes :: "MarketEvent \<Rightarrow> string" where
  "event_bytes e = u64_bytes (ev_eventType e) @ ev_symbol e @ u64_bytes (ev_timestamp e) @ u64_bytes (ev_p1 e) @
     u64_bytes (ev_s1 e) @ u64_bytes (ev_p2 e) @ u64_bytes (ev_s2 e) @ u64_bytes (ev_arrivedAt e)"

definition word_at :: "nat \<Rightarrow> string \<Rightarrow> u64" where
  "word_at n bs = le_u64 (take 8 (drop n bs))"

definition event_of_bytes :: "string \<Rightarrow> MarketEvent" where
  "event_of_bytes bs = \<lparr>ev_eventType = word_at 0 bs, ev_symbol = take 8 (drop 8 bs), ev_timestamp = word_at 16 bs,
     ev_p1 = word_at 24 bs, ev_s1 = word_at 32 bs, ev_p2 = word_at 40 bs, ev_s2 = word_at 48 bs, ev_arrivedAt = word_at 56 bs\<rparr>"

lemma length_u64_bytes [simp]: "length (u64_bytes w) = 8"
  by (simp add: u64_bytes_def)

lemma length_event_bytes: "length (ev_symbol e) = 8 \<Longrightarrow> length (event_bytes e) = 64"
  by (simp add: event_bytes_def)

lemma event_of_bytes_bytes:
  assumes "length (ev_symbol e) = 8"
  shows "event_of_bytes (event_bytes e) = e"
  using assms by (simp add: event_of_bytes_def event_bytes_def word_at_def) (simp add: u64_bytes_def)

section \<open>The sink\<close>

record 'z zmq_pub =
  zp_send :: "string \<Rightarrow> bool \<Rightarrow> 'z \<Rightarrow> bool \<times> 'z"

datatype socket_action = RemoveFile string | SetSndHwm nat | SetLinger nat | Bind string

definition kIpcPrefix :: string where
  "kIpcPrefix = ''ipc://''"

definition sink_start :: "string \<Rightarrow> socket_action list" where
  "sink_start zmq_address =
     (if take (length kIpcPrefix) zmq_address = kIpcPrefix then [RemoveFile (drop (length kIpcPrefix) zmq_address)] else []) @
     [SetSndHwm 1000000, SetLinger 0, Bind zmq_address]"

text \<open>Both parts are sent without waiting; when the topic is refused the payload is not sent.\<close>

definition publish :: "'z zmq_pub \<Rightarrow> MarketEvent \<Rightarrow> string \<Rightarrow> 'z \<Rightarrow> 'z" where
  "publish Z event symb z =
     (let topic_len = min (length symb) kSymbolCapacity
      in case zp_send Z (take topic_len symb) True z of
           (res, z) \<Rightarrow> if \<not> res then z else snd (zp_send Z (event_bytes event) False z))"

end
