(* ===== verification/Position_Manager.thy ===== *)
theory Position_Manager
  imports Trading_Types
begin

unbundle bit_operations_syntax

text \<open>
  \<open>PositionManager\<close> (\<open>include/PositionManager.hpp\<close>, \<open>src/PositionManager.cpp\<close>): a fixed table of
  256 entries, open addressing with linear probing over a 64-bit mix of the 8-byte symbol, and
  the average-cost accounting of fills. The table is a list of entries, an \<open>Entry *\<close> is an index
  into it, \<open>nullptr\<close> is \<^const>\<open>None\<close>. The operations here are the calls as one thread makes them,
  where the compare-exchange of \<open>findOrInsert\<close> sees the value just loaded.
\<close>

section \<open>The table\<close>

record Entry =
  e_key :: u64
  e_filled :: i64
  e_pending :: i64
  e_cost_basis_total :: i64
  e_realized_pnl :: i64

definition kMaxSymbols :: nat where
  "kMaxSymbols = 256"

definition kEmptySlot :: u64 where
  "kEmptySlot = 0xffffffffffffffff"

definition kMask :: u32 where
  "kMask = 255"

definition empty_Entry :: Entry where
  "empty_Entry = \<lparr>e_key = kEmptySlot, e_filled = 0, e_pending = 0,
     e_cost_basis_total = 0, e_realized_pnl = 0\<rparr>"

record PositionManager =
  pm_table :: "Entry list"

definition new_PositionManager :: PositionManager where
  "new_PositionManager = \<lparr>pm_table = replicate kMaxSymbols empty_Entry\<rparr>"

definition symbolToKey :: "string \<Rightarrow> u64" where
  "symbolToKey symbol = le_u64 (take 8 symbol)"

definition symbolBufferToKey :: "string \<Rightarrow> u64" where
  "symbolBufferToKey buffer = le_u64 (take 8 buffer)"

definition hash :: "u64 \<Rightarrow> u32" where
  "hash k =
     (let k = k XOR drop_bit 33 k;
          k = k * 0xff51afd7ed558ccd;
          k = k XOR drop_bit 33 k;
          k = k * 0xc4ceb9fe1a85ec53;
          k = k XOR drop_bit 33 k
      in ucast k)"

text \<open>The slot visited by iteration \<open>i\<close> of a probe: \<open>(start + i) & kMask\<close>.\<close>

definition probe_slot :: "u32 \<Rightarrow> nat \<Rightarrow> nat" where
  "probe_slot start i = unat ((start + of_nat i) AND kMask)"

fun findOrInsert_loop :: "u64 \<Rightarrow> u32 \<Rightarrow> nat list \<Rightarrow> Entry list \<Rightarrow> nat option \<times> Entry list" where
  "findOrInsert_loop symbol_key start [] t = (None, t)"
| "findOrInsert_loop symbol_key start (i # is) t =
     (let j = probe_slot start i; expected = e_key (t ! j)
      in if expected = symbol_key then (Some j, t)
         else if expected = kEmptySlot then (Some j, t[j := (t ! j)\<lparr>e_key := symbol_key\<rparr>])
         else findOrInsert_loop symbol_key start is t)"

definition findOrInsert :: "u64 \<Rightarrow> PositionManager \<Rightarrow> nat option \<times> PositionManager" where
  "findOrInsert symbol_key pm =
     (let start = hash symbol_key AND kMask;
          (slot, t) = findOrInsert_loop symbol_key start [0..<kMaxSymbols] (pm_table pm)
      in (slot, pm\<lparr>pm_table := t\<rparr>))"

fun find_loop :: "u64 \<Rightarrow> u32 \<Rightarrow> nat list \<Rightarrow> Entry list \<Rightarrow> nat option" where
  "find_loop symbol_key start [] t = None"
| "find_loop symbol_key start (i # is) t =
     (let j = probe_slot start i; k = e_key (t ! j)
      in if k = symbol_key then Some j
         else if k = kEmptySlot then None
         else find_loop symbol_key start is t)"

definition findMutable :: "u64 \<Rightarrow> PositionManager \<Rightarrow> nat option" where
  "findMutable symbol_key pm =
     find_loop symbol_key (hash symbol_key AND kMask) [0..<kMaxSymbols] (pm_table pm)"

definition find_entry :: "u64 \<Rightarrow> PositionManager \<Rightarrow> nat option" where
  "find_entry symbol_key pm =
     find_loop symbol_key (hash symbol_key AND kMask) [0..<kMaxSymbols] (pm_table pm)"

section \<open>Operations\<close>

definition registerSymbol :: "string \<Rightarrow> PositionManager \<Rightarrow> PositionManager" where
  "registerSymbol symbol pm = snd (findOrInsert (symbolToKey symbol) pm)"

definition applyBuyFill :: "Entry \<Rightarrow> i64 \<Rightarrow> i64 \<Rightarrow> i64 \<Rightarrow> Entry option" where
  "applyBuyFill entry price_scaled qty current_filled = do {
     entry \<leftarrow> (if current_filled < 0 then do {
         short_qty \<leftarrow> i64_neg current_filled;
         let cover_qty = min qty short_qty;
         entry \<leftarrow> (if cover_qty > 0 then do {
             let cost_basis = e_cost_basis_total entry;
             scaled \<leftarrow> i64_mul cost_basis cover_qty;
             cost_removed \<leftarrow> i64_div scaled current_filled;
             paid \<leftarrow> i64_mul price_scaled cover_qty;
             pnl \<leftarrow> i64_sub cost_removed paid;
             Some (entry\<lparr>e_realized_pnl := wrap_i64 (e_realized_pnl entry + pnl),
                         e_cost_basis_total := wrap_i64 (cost_basis + cost_removed)\<rparr>)
           } else Some entry);
         open_qty \<leftarrow> i64_sub qty cover_qty;
         (if open_qty > 0 then do {
             cost \<leftarrow> i64_mul price_scaled open_qty;
             Some (entry\<lparr>e_cost_basis_total := wrap_i64 (e_cost_basis_total entry + cost)\<rparr>)
           } else Some entry)
       } else do {
         cost \<leftarrow> i64_mul price_scaled qty;
         Some (entry\<lparr>e_cost_basis_total := wrap_i64 (e_cost_basis_total entry + cost)\<rparr>)
       });
     Some (entry\<lparr>e_filled := wrap_i64 (e_filled entry + qty),
                 e_pending := wrap_i64 (e_pending entry - qty)\<rparr>)
   }"

definition applySellFill :: "Entry \<Rightarrow> i64 \<Rightarrow> i64 \<Rightarrow> i64 \<Rightarrow> Entry option" where
  "applySellFill entry price_scaled qty current_filled = do {
     entry \<leftarrow> (if current_filled > 0 then do {
         let sell_qty = min qty current_filled;
         entry \<leftarrow> (if sell_qty > 0 then do {
             let cost_basis = e_cost_basis_total entry;
             scaled \<leftarrow> i64_mul cost_basis sell_qty;
             cost_removed \<leftarrow> i64_div scaled current_filled;
             received \<leftarrow> i64_mul price_scaled sell_qty;
             pnl \<leftarrow> i64_sub received cost_removed;
             Some (entry\<lparr>e_realized_pnl := wrap_i64 (e_realized_pnl entry + pnl),
                         e_cost_basis_total := wrap_i64 (cost_basis - cost_removed)\<rparr>)
           } else Some entry);
         short_qty \<leftarrow> i64_sub qty sell_qty;
         (if short_qty > 0 then do {
             cost \<leftarrow> i64_mul price_scaled short_qty;
             Some (entry\<lparr>e_cost_basis_total := wrap_i64 (e_cost_basis_total entry - cost)\<rparr>)
           } else Some entry)
       } else do {
         cost \<leftarrow> i64_mul price_scaled qty;
         Some (entry\<lparr>e_cost_basis_total := wrap_i64 (e_cost_basis_total entry - cost)\<rparr>)
       });
     Some (entry\<lparr>e_filled := wrap_i64 (e_filled entry - qty),
                 e_pending := wrap_i64 (e_pending entry + qty)\<rparr>)
   }"

definition scaled_price :: "fp \<Rightarrow> i64 option" where
  "scaled_price price = llround (fp_mul binary64 price (fp_of_int binary64 SCALING_FACTOR))"

definition onFill :: "Fill \<Rightarrow> PositionManager \<Rightarrow> PositionManager option" where
  "onFill fill pm =
     (case findOrInsert (symbolBufferToKey (fill_symbol fill)) pm of
        (None, pm) \<Rightarrow> Some pm
      | (Some j, pm) \<Rightarrow> do {
          price_scaled \<leftarrow> scaled_price (fill_price fill);
          let qty = fill_quantity fill;
          let entry = pm_table pm ! j;
          let current_filled = e_filled entry;
          entry \<leftarrow> (case fill_side fill of
              Buy \<Rightarrow> applyBuyFill entry price_scaled qty current_filled
            | Sell \<Rightarrow> applySellFill entry price_scaled qty current_filled);
          Some (pm\<lparr>pm_table := (pm_table pm)[j := entry]\<rparr>)
        })"

definition onOrderSent :: "Order \<Rightarrow> PositionManager \<Rightarrow> PositionManager option" where
  "onOrderSent ord pm =
     (case findOrInsert (symbolBufferToKey (ord_symbol ord)) pm of
        (None, pm) \<Rightarrow> Some pm
      | (Some j, pm) \<Rightarrow> do {
          delta \<leftarrow> (if ord_side ord = Sell then i64_neg (ord_quantity ord) else Some (ord_quantity ord));
          let entry = pm_table pm ! j;
          Some (pm\<lparr>pm_table := (pm_table pm)[j := entry\<lparr>e_pending := wrap_i64 (e_pending entry + delta)\<rparr>]\<rparr>)
        })"

definition onOrderCancelled :: "Order \<Rightarrow> PositionManager \<Rightarrow> PositionManager option" where
  "onOrderCancelled ord pm =
     (case findMutable (symbolBufferToKey (ord_symbol ord)) pm of
        None \<Rightarrow> Some pm
      | Some j \<Rightarrow> do {
          delta \<leftarrow> (if ord_side ord = Sell then i64_neg (ord_quantity ord) else Some (ord_quantity ord));
          let entry = pm_table pm ! j;
          Some (pm\<lparr>pm_table := (pm_table pm)[j := entry\<lparr>e_pending := wrap_i64 (e_pending entry - delta)\<rparr>]\<rparr>)
        })"

definition getFilledPosition :: "string \<Rightarrow> PositionManager \<Rightarrow> i64" where
  "getFilledPosition symbol pm =
     (case find_entry (symbolToKey symbol) pm of None \<Rightarrow> 0 | Some j \<Rightarrow> e_filled (pm_table pm ! j))"

definition getPendingPosition :: "string \<Rightarrow> PositionManager \<Rightarrow> i64" where
  "getPendingPosition symbol pm =
     (case find_entry (symbolToKey symbol) pm of None \<Rightarrow> 0 | Some j \<Rightarrow> e_pending (pm_table pm ! j))"

definition getTotalExposure :: "string \<Rightarrow> PositionManager \<Rightarrow> i64 option" where
  "getTotalExposure symbol pm =
     (case find_entry (symbolToKey symbol) pm of
        None \<Rightarrow> Some 0
      | Some j \<Rightarrow> i64_add (e_filled (pm_table pm ! j)) (e_pending (pm_table pm ! j)))"

definition getCostBasis :: "string \<Rightarrow> PositionManager \<Rightarrow> i64" where
  "getCostBasis symbol pm =
     (case find_entry (symbolToKey symbol) pm of None \<Rightarrow> 0 | Some j \<Rightarrow> e_cost_basis_total (pm_table pm ! j))"

definition getRealizedPnl :: "string \<Rightarrow> PositionManager \<Rightarrow> i64" where
  "getRealizedPnl symbol pm =
     (case find_entry (symbolToKey symbol) pm of None \<Rightarrow> 0 | Some j \<Rightarrow> e_realized_pnl (pm_table pm ! j))"

section \<open>The table as a finite map\<close>

text \<open>
  \<open>first_hit ks k\<close> is the first slot on the probe path of \<open>k\<close> that holds \<open>k\<close> or is empty, in a
  table with the keys \<open>ks\<close>. Both loops stop there; the table is well formed when every occupied
  slot is the first hit of its own key.
\<close>

definition probe_path :: "u64 \<Rightarrow> nat list" where
  "probe_path k = map (probe_slot (hash k AND kMask)) [0..<kMaxSymbols]"

definition first_hit :: "u64 list \<Rightarrow> u64 \<Rightarrow> nat option" where
  "first_hit ks k = List.find (\<lambda>j. ks ! j = k \<or> ks ! j = kEmptySlot) (probe_path k)"

definition keys_ok :: "u64 list \<Rightarrow> bool" where
  "keys_ok ks \<longleftrightarrow> length ks = kMaxSymbols \<and>
     (\<forall>j < kMaxSymbols. ks ! j \<noteq> kEmptySlot \<longrightarrow> first_hit ks (ks ! j) = Some j)"

definition entry_ok :: "Entry \<Rightarrow> bool" where
  "entry_ok e \<longleftrightarrow> in_i64 (e_filled e) \<and> in_i64 (e_pending e) \<and>
     in_i64 (e_cost_basis_total e) \<and> in_i64 (e_realized_pnl e) \<and>
     (e_key e = kEmptySlot \<longrightarrow> e = empty_Entry)"

abbreviation pm_keys :: "PositionManager \<Rightarrow> u64 list" where
  "pm_keys pm \<equiv> map e_key (pm_table pm)"

definition pm_inv :: "PositionManager \<Rightarrow> bool" where
  "pm_inv pm \<longleftrightarrow> keys_ok (pm_keys pm) \<and> list_all entry_ok (pm_table pm)"

text \<open>An 8-byte symbol is trackable unless its bytes spell the sentinel of an empty slot.\<close>

abbreviation valid_key :: "u64 \<Rightarrow> bool" where
  "valid_key k \<equiv> k \<noteq> kEmptySlot"

lemma probe_slot_mod: "probe_slot start i = (unat start + i) mod 256"
proof -
  have "(start + of_nat i) AND kMask = take_bit 8 (start + of_nat i)"
    by (simp add: kMask_def take_bit_eq_mask mask_eq_decr_exp)
  then have "probe_slot start i = unat (start + of_nat i) mod 2 ^ 8"
    by (simp only: probe_slot_def unsigned_take_bit_eq) (simp only: take_bit_eq_mod)
  also have "\<dots> = ((unat start + i) mod 2 ^ 32) mod 2 ^ 8"
    by (simp add: unat_word_ariths unat_of_nat mod_add_right_eq)
  also have "\<dots> = (unat start + i) mod 256"
    by (simp add: mod_mod_cancel)
  finally show ?thesis .
qed

lemma probe_slot_less [simp]: "probe_slot start i < kMaxSymbols"
  by (simp add: probe_slot_mod kMaxSymbols_def)

lemma set_probe_path: "set (probe_path k) = {..<kMaxSymbols}"
proof
  show "set (probe_path k) \<subseteq> {..<kMaxSymbols}" by (auto simp: probe_path_def)
  show "{..<kMaxSymbols} \<subseteq> set (probe_path k)"
  proof
    fix j assume "j \<in> {..<kMaxSymbols}"
    then have j: "j < 256" by (simp add: kMaxSymbols_def)
    define s where "s = unat (hash k AND kMask)"
    have s: "s mod 256 < 256" by simp
    have "(s + (j + 256 - s mod 256) mod 256) mod 256 = (s mod 256 + (j + 256 - s mod 256)) mod 256"
      by (metis mod_add_left_eq mod_add_right_eq)
    also have "s mod 256 + (j + 256 - s mod 256) = j + 256"
      using s by linarith
    finally have "j = (s + (j + 256 - s mod 256) mod 256) mod 256"
      using j by simp
    then have "j = probe_slot (hash k AND kMask) ((j + 256 - s mod 256) mod 256)"
      by (simp add: probe_slot_mod s_def)
    then show "j \<in> set (probe_path k)"
      by (auto simp: probe_path_def kMaxSymbols_def)
  qed
qed

lemma first_hit_less: "first_hit ks k = Some j \<Longrightarrow> j < kMaxSymbols"
  using set_probe_path [of k]
  by (auto simp: first_hit_def find_Some_iff dest!: nth_mem)

lemma first_hit_hit: "first_hit ks k = Some j \<Longrightarrow> ks ! j = k \<or> ks ! j = kEmptySlot"
  by (auto simp: first_hit_def find_Some_iff)

lemma first_hit_None: "first_hit ks k = None \<longleftrightarrow> (\<forall>j < kMaxSymbols. ks ! j \<noteq> k \<and> ks ! j \<noteq> kEmptySlot)"
  by (auto simp: first_hit_def find_None_iff set_probe_path)

lemma find_Some_mono:
  "List.find P xs = Some x \<Longrightarrow> (\<And>y. y \<in> set xs \<Longrightarrow> Q y \<Longrightarrow> P y) \<Longrightarrow> Q x \<Longrightarrow> List.find Q xs = Some x"
  by (induction xs) (auto split: if_splits)

lemma keys_ok_length: "keys_ok ks \<Longrightarrow> length ks = kMaxSymbols"
  by (simp add: keys_ok_def)

text \<open>In a well-formed table the slot of a key is unique and is what probing finds.\<close>

lemma first_hit_key:
  assumes "keys_ok ks" and "j < kMaxSymbols" and "ks ! j = k" and "valid_key k"
  shows "first_hit ks k = Some j"
  using assms by (auto simp: keys_ok_def)

lemma keys_ok_insert:
  assumes ok: "keys_ok ks" and hit: "first_hit ks k = Some j"
    and free: "ks ! j = kEmptySlot" and k: "valid_key k"
  shows "keys_ok (ks[j := k])"
  unfolding keys_ok_def
proof (intro conjI allI impI)
  show "length (ks[j := k]) = kMaxSymbols" using ok by (simp add: keys_ok_def)
  have j: "j < length ks" using first_hit_less [OF hit] ok by (simp add: keys_ok_def)
  fix i assume i: "i < kMaxSymbols" and used: "ks[j := k] ! i \<noteq> kEmptySlot"
  show "first_hit (ks[j := k]) (ks[j := k] ! i) = Some i"
  proof (cases "i = j")
    case True
    have "first_hit (ks[j := k]) k = Some j"
      using hit unfolding first_hit_def
      by (rule find_Some_mono) (use j free in \<open>auto simp: nth_list_update split: if_splits\<close>)
    then show ?thesis using True j by simp
  next
    case False
    then have own: "first_hit ks (ks ! i) = Some i" and ne: "ks ! i \<noteq> kEmptySlot"
      using ok i used by (simp_all add: keys_ok_def)
    have "ks ! i \<noteq> k" using own hit False by auto
    have "first_hit (ks[j := k]) (ks ! i) = Some i"
      using own unfolding first_hit_def
      by (rule find_Some_mono)
        (use j False k free \<open>ks ! i \<noteq> k\<close> in \<open>auto simp: nth_list_update split: if_splits\<close>)
    then show ?thesis using False by simp
  qed
qed

lemma keys_ok_new: "keys_ok (pm_keys new_PositionManager)"
  by (simp add: keys_ok_def new_PositionManager_def empty_Entry_def)

subsection \<open>The loops compute the first hit\<close>

lemma find_loop_first_hit:
  assumes "\<forall>i \<in> set is. probe_slot start i < length t"
  shows "find_loop k start is t =
    (case List.find (\<lambda>j. map e_key t ! j = k \<or> map e_key t ! j = kEmptySlot) (map (probe_slot start) is) of
       None \<Rightarrow> None
     | Some j \<Rightarrow> if e_key (t ! j) = k then Some j else None)"
  using assms by (induction "is") (auto simp: Let_def)

lemma Entry_key_same: "e_key e = k \<Longrightarrow> e\<lparr>e_key := k\<rparr> = e"
  by (cases e) simp

lemma findOrInsert_loop_first_hit:
  assumes "\<forall>i \<in> set is. probe_slot start i < length t"
  shows "findOrInsert_loop k start is t =
    (case List.find (\<lambda>j. map e_key t ! j = k \<or> map e_key t ! j = kEmptySlot) (map (probe_slot start) is) of
       None \<Rightarrow> (None, t)
     | Some j \<Rightarrow> (Some j, t[j := (t ! j)\<lparr>e_key := k\<rparr>]))"
  using assms by (induction "is") (auto simp: Let_def Entry_key_same)

lemma find_entry_hit:
  "length (pm_table pm) = kMaxSymbols \<Longrightarrow> find_entry k pm =
    (case first_hit (pm_keys pm) k of
       None \<Rightarrow> None
     | Some j \<Rightarrow> if e_key (pm_table pm ! j) = k then Some j else None)"
  by (simp add: find_entry_def find_loop_first_hit first_hit_def probe_path_def)

lemma findMutable_find_entry: "findMutable = find_entry"
  by (simp add: fun_eq_iff findMutable_def find_entry_def)

lemma findOrInsert_hit:
  "length (pm_table pm) = kMaxSymbols \<Longrightarrow> findOrInsert k pm =
    (case first_hit (pm_keys pm) k of
       None \<Rightarrow> (None, pm)
     | Some j \<Rightarrow> (Some j, pm\<lparr>pm_table := (pm_table pm)[j := (pm_table pm ! j)\<lparr>e_key := k\<rparr>]\<rparr>))"
  by (simp add: findOrInsert_def findOrInsert_loop_first_hit first_hit_def probe_path_def
      split: option.splits)

lemma pm_inv_length [simp]: "pm_inv pm \<Longrightarrow> length (pm_table pm) = kMaxSymbols"
  by (simp add: pm_inv_def keys_ok_def)

lemma pm_inv_entry: "pm_inv pm \<Longrightarrow> j < kMaxSymbols \<Longrightarrow> entry_ok (pm_table pm ! j)"
  by (metis list_all_length pm_inv_def pm_inv_length)

text \<open>The key of a slot decides what \<open>find\<close> returns: the table is a finite map.\<close>

lemma find_entry_iff:
  assumes "pm_inv pm" and "valid_key k"
  shows "find_entry k pm = Some j \<longleftrightarrow> j < kMaxSymbols \<and> e_key (pm_table pm ! j) = k"
proof
  assume f: "find_entry k pm = Some j"
  then have "first_hit (pm_keys pm) k = Some j" and "e_key (pm_table pm ! j) = k"
    using assms(1) by (auto simp: find_entry_hit split: option.splits if_splits)
  then show "j < kMaxSymbols \<and> e_key (pm_table pm ! j) = k"
    by (simp add: first_hit_less)
next
  assume j: "j < kMaxSymbols \<and> e_key (pm_table pm ! j) = k"
  then have "first_hit (pm_keys pm) k = Some j"
    using assms by (intro first_hit_key) (auto simp: pm_inv_def)
  with j assms(1) show "find_entry k pm = Some j" by (simp add: find_entry_hit)
qed

lemma find_entry_less: "pm_inv pm \<Longrightarrow> find_entry k pm = Some j \<Longrightarrow> j < kMaxSymbols"
  by (auto simp: find_entry_hit first_hit_less split: option.splits if_splits)

section \<open>Entries by key\<close>

text \<open>
  \<open>position pm k\<close> is the entry a reader of key \<open>k\<close> sees, the zero position when there is none.
  \<open>update_key k f pm\<close> is an update of that entry; the table operations refine it.
\<close>

definition position :: "PositionManager \<Rightarrow> u64 \<Rightarrow> Entry" where
  "position pm k = (case find_entry k pm of None \<Rightarrow> empty_Entry\<lparr>e_key := k\<rparr> | Some j \<Rightarrow> pm_table pm ! j)"

definition has_room :: "PositionManager \<Rightarrow> u64 \<Rightarrow> bool" where
  "has_room pm k \<longleftrightarrow> fst (findOrInsert k pm) \<noteq> None"

lemma position_key [simp]: "pm_inv pm \<Longrightarrow> valid_key k \<Longrightarrow> e_key (position pm k) = k"
  by (auto simp: position_def find_entry_iff split: option.splits)

lemma position_ok: "pm_inv pm \<Longrightarrow> entry_ok (position pm k)"
  unfolding position_def
  by (auto simp: pm_inv_entry find_entry_less split: option.splits)
    (simp add: entry_ok_def empty_Entry_def)

lemma pm_inv_new [simp]: "pm_inv new_PositionManager"
  using keys_ok_new
  by (simp add: pm_inv_def list_all_iff new_PositionManager_def entry_ok_def empty_Entry_def)

lemma pm_inv_set_entry:
  assumes "pm_inv pm" and "j < kMaxSymbols"
    and "e_key e = e_key (pm_table pm ! j)" and "entry_ok e"
  shows "pm_inv (pm\<lparr>pm_table := (pm_table pm)[j := e]\<rparr>)"
proof -
  have "map e_key ((pm_table pm)[j := e]) = pm_keys pm"
    using assms(1-3) by (simp add: map_update list_update_same_conv)
  then show ?thesis
    using assms by (auto simp: pm_inv_def list_all_iff dest!: set_update_subset_insert [THEN subsetD])
qed

lemma position_set_entry:
  assumes "pm_inv pm" and "j < kMaxSymbols" and "e_key (pm_table pm ! j) = k"
    and "e_key e = k" and "entry_ok e" and "valid_key k" and "valid_key k'"
  shows "position (pm\<lparr>pm_table := (pm_table pm)[j := e]\<rparr>) k' = (if k' = k then e else position pm k')"
proof -
  let ?pm = "pm\<lparr>pm_table := (pm_table pm)[j := e]\<rparr>"
  have inv: "pm_inv ?pm" using assms by (intro pm_inv_set_entry) simp_all
  have keys: "e_key (pm_table ?pm ! i) = e_key (pm_table pm ! i)" for i
    using assms by (cases "i = j") (simp_all add: nth_list_update)
  have "find_entry k' ?pm = find_entry k' pm"
    using find_entry_iff [OF inv assms(7)] find_entry_iff [OF assms(1,7)] keys
    by (metis option.exhaust)
  moreover have "find_entry k pm = Some j" using assms by (simp add: find_entry_iff)
  moreover have "find_entry k' pm = Some j \<longleftrightarrow> k' = k"
    using assms by (auto simp: find_entry_iff)
  ultimately show ?thesis
    using assms by (auto simp: position_def split: option.splits)
qed

text \<open>
  A successful \<open>findOrInsert\<close> returns a slot that holds the entry of its key and changes
  no position; it fails only when the key is absent and the table is full.
\<close>

lemma findOrInsert_SomeD:
  assumes "pm_inv pm" and "findOrInsert k pm = (Some j, pm1)"
  shows "first_hit (pm_keys pm) k = Some j" and "j < kMaxSymbols"
    and "pm1 = pm\<lparr>pm_table := (pm_table pm)[j := (pm_table pm ! j)\<lparr>e_key := k\<rparr>]\<rparr>"
    and "e_key (pm_table pm ! j) = k \<or> pm_table pm ! j = empty_Entry"
proof -
  show hit: "first_hit (pm_keys pm) k = Some j"
    and "pm1 = pm\<lparr>pm_table := (pm_table pm)[j := (pm_table pm ! j)\<lparr>e_key := k\<rparr>]\<rparr>"
    using assms by (auto simp: findOrInsert_hit split: option.splits)
  show j: "j < kMaxSymbols" using hit by (rule first_hit_less)
  then show "e_key (pm_table pm ! j) = k \<or> pm_table pm ! j = empty_Entry"
    using first_hit_hit [OF hit] pm_inv_entry [OF assms(1) j] assms(1) by (auto simp: entry_ok_def)
qed

lemma findOrInsert_nth:
  assumes inv: "pm_inv pm" and k: "valid_key k" and f: "findOrInsert k pm = (Some j, pm1)"
    and i: "i < kMaxSymbols"
  shows "pm_table pm1 ! i = (if i = j then position pm k else pm_table pm ! i)"
proof -
  note D = findOrInsert_SomeD [OF inv f]
  have "(pm_table pm ! j)\<lparr>e_key := k\<rparr> = position pm k"
  proof (cases "e_key (pm_table pm ! j) = k")
    case True
    then have "find_entry k pm = Some j" using inv k D(2) by (simp add: find_entry_iff)
    then show ?thesis using True by (simp add: position_def Entry_key_same)
  next
    case False
    then have "find_entry k pm = None" using D(1) inv by (simp add: find_entry_hit)
    then show ?thesis using False D(4) by (simp add: position_def)
  qed
  then show ?thesis using i inv D(2) by (simp add: D(3) nth_list_update)
qed

lemma findOrInsert_inv:
  assumes inv: "pm_inv pm" and k: "valid_key k" and f: "findOrInsert k pm = (Some j, pm1)"
  shows "pm_inv pm1"
proof -
  note D = findOrInsert_SomeD [OF inv f]
  have jl: "j < length (pm_table pm)" using inv D(2) by simp
  have keys: "pm_keys pm1 = (pm_keys pm)[j := k]" by (simp add: D(3) map_update)
  have "keys_ok ((pm_keys pm)[j := k])"
  proof (cases "e_key (pm_table pm ! j) = k")
    case True
    then have "(pm_keys pm)[j := k] = pm_keys pm" using jl by (simp add: list_update_same_conv)
    then show ?thesis using inv by (simp add: pm_inv_def)
  next
    case False
    then have "pm_keys pm ! j = kEmptySlot" using D(4) jl by (simp add: empty_Entry_def)
    then show ?thesis using inv D(1) k by (simp add: pm_inv_def keys_ok_insert)
  qed
  moreover have "entry_ok ((pm_table pm ! j)\<lparr>e_key := k\<rparr>)"
    using pm_inv_entry [OF inv D(2)] k by (simp add: entry_ok_def)
  ultimately show ?thesis
    using inv unfolding pm_inv_def keys
    by (auto simp: D(3) list_all_iff dest!: set_update_subset_insert [THEN subsetD])
qed

lemma findOrInsert_find:
  assumes "pm_inv pm" and "valid_key k" and "findOrInsert k pm = (Some j, pm1)"
  shows "find_entry k pm1 = Some j"
  using findOrInsert_inv [OF assms] findOrInsert_nth [OF assms] findOrInsert_SomeD(2) [OF assms(1,3)]
    assms(1,2) by (simp add: find_entry_iff)

lemma findOrInsert_position:
  assumes inv: "pm_inv pm" and k: "valid_key k" and f: "findOrInsert k pm = (Some j, pm1)"
    and k': "valid_key k'"
  shows "position pm1 k' = position pm k'"
proof (cases "k' = k")
  case True
  then show ?thesis
    using findOrInsert_find [OF inv k f] findOrInsert_nth [OF inv k f] findOrInsert_SomeD(2) [OF inv f]
    by (simp add: position_def)
next
  case False
  note D = findOrInsert_SomeD [OF inv f] and nth1 = findOrInsert_nth [OF inv k f]
    and inv1 = findOrInsert_inv [OF inv k f]
  have old: "e_key (pm_table pm ! j) \<noteq> k'"
    using D(4) False k' by (auto simp: empty_Entry_def)
  have new: "e_key (pm_table pm1 ! j) \<noteq> k'"
    using nth1 [OF D(2)] inv k False by simp
  have "i < kMaxSymbols \<and> e_key (pm_table pm1 ! i) = k' \<longleftrightarrow>
      i < kMaxSymbols \<and> e_key (pm_table pm ! i) = k'" for i
    using old new nth1 [of i] by (cases "i = j") auto
  then have "find_entry k' pm1 = Some i \<longleftrightarrow> find_entry k' pm = Some i" for i
    by (simp only: find_entry_iff [OF inv1 k'] find_entry_iff [OF inv k'])
  then have same: "find_entry k' pm1 = find_entry k' pm" by (metis option.exhaust)
  have "find_entry k' pm \<noteq> Some j"
    using find_entry_iff [OF inv k'] old by auto
  then show ?thesis
    using same nth1 find_entry_less [OF inv] by (auto simp: position_def split: option.splits)
qed

lemma findOrInsert_None:
  assumes "pm_inv pm" and "findOrInsert k pm = (None, pm1)"
  shows "pm1 = pm" and "find_entry k pm = None"
    and "\<forall>j < kMaxSymbols. e_key (pm_table pm ! j) \<noteq> k \<and> e_key (pm_table pm ! j) \<noteq> kEmptySlot"
proof -
  have n: "first_hit (pm_keys pm) k = None" and "pm1 = pm"
    using assms by (auto simp: findOrInsert_hit split: option.splits)
  then show "pm1 = pm" by simp
  show "find_entry k pm = None" using assms(1) n by (simp add: find_entry_hit)
  show "\<forall>j < kMaxSymbols. e_key (pm_table pm ! j) \<noteq> k \<and> e_key (pm_table pm ! j) \<noteq> kEmptySlot"
    using n [unfolded first_hit_None] assms(1) by simp
qed

end
