(* ===== verification/Position_Accounting.thy ===== *)
theory Position_Accounting
  imports Position_Manager
begin

text \<open>
  What the operations of \<open>PositionManager\<close> do to positions. The accounting of a fill
  (\<open>applyBuyFill\<close>, \<open>applySellFill\<close>) is specified by \<open>acct_fill\<close> over unbounded integers; the
  entries refine it modulo \<open>2\<^sup>6\<^sup>4\<close>, and exactly while the bounds of \<open>acct_bounded\<close> hold, where no
  signed overflow can occur. Then the effect of each public operation on every key.
\<close>

section \<open>Fill accounting on one entry\<close>

text \<open>The entry-level effect of a fill: the branch \<open>onFill\<close> takes on its side.\<close>

definition fill_entry :: "OrderSide \<Rightarrow> i64 \<Rightarrow> i64 \<Rightarrow> Entry \<Rightarrow> Entry option" where
  "fill_entry side price_scaled qty entry =
     (case side of
        Buy \<Rightarrow> applyBuyFill entry price_scaled qty (e_filled entry)
      | Sell \<Rightarrow> applySellFill entry price_scaled qty (e_filled entry))"

text \<open>
  The specification of the accounting, over unbounded integers and signed quantities \<open>s\<close>
  (buys positive): a fill in the direction of the position adds its cost; a fill against it
  closes up to the whole position, removes the closed share of the cost basis (truncated) and
  realises the difference, and opens the rest at the fill price.
\<close>

record acct =
  a_pos :: int
  a_cost :: int
  a_pnl :: int

definition acct_fill :: "int \<Rightarrow> int \<Rightarrow> acct \<Rightarrow> acct" where
  "acct_fill s p a =
     (if a_pos a = 0 \<or> sgn (a_pos a) = sgn s
      then a\<lparr>a_pos := a_pos a + s, a_cost := a_cost a + p * s\<rparr>
      else let n = min \<bar>s\<bar> \<bar>a_pos a\<bar>; r = (a_cost a * n) sdiv \<bar>a_pos a\<bar>
           in a\<lparr>a_pos := a_pos a + s,
                a_cost := a_cost a - r + p * (sgn s * (\<bar>s\<bar> - n)),
                a_pnl := a_pnl a + (p * (sgn (a_pos a) * n) - r)\<rparr>)"

definition acct_of :: "Entry \<Rightarrow> acct" where
  "acct_of e = \<lparr>a_pos = e_filled e, a_cost = e_cost_basis_total e, a_pnl = e_realized_pnl e\<rparr>"

lemmas apply_fill_defs = applyBuyFill_def applySellFill_def

text \<open>The branches of a fill that does not hit undefined behaviour, with their conditions decided.\<close>

lemma applyBuyFill_cases:
  assumes "applyBuyFill e p q c = Some e'"
  obtains (add) "0 \<le> c"
      "e' = e\<lparr>e_cost_basis_total := wrap_i64 (e_cost_basis_total e + p * q),
         e_filled := wrap_i64 (e_filled e + q), e_pending := wrap_i64 (e_pending e - q)\<rparr>"
  | (idle) "c < 0" "q \<le> 0"
      "e' = e\<lparr>e_filled := wrap_i64 (e_filled e + q), e_pending := wrap_i64 (e_pending e - q)\<rparr>"
  | (cover) r where "c < 0" "0 < q" "r = (e_cost_basis_total e * min q (- c)) sdiv c"
      "e' = e\<lparr>e_realized_pnl := wrap_i64 (e_realized_pnl e + (r - p * min q (- c))),
         e_cost_basis_total := wrap_i64 (e_cost_basis_total e + r + p * (q - min q (- c))),
         e_filled := wrap_i64 (e_filled e + q), e_pending := wrap_i64 (e_pending e - q)\<rparr>"
proof -
  consider "0 \<le> c" | "c < 0" "q \<le> 0" | "c < 0" "0 < q" "q \<le> - c" | "c < 0" "0 < q" "- c < q"
    by linarith
  then show thesis
  proof cases
    case 1
    show thesis
      by (rule add) (use assms(1) 1 in \<open>auto simp: applyBuyFill_def i64_ops_defs bind_eq_Some_conv Let_def\<close>)
  next
    case 2
    show thesis
      by (rule idle) (use assms(1) 2 in \<open>auto simp: applyBuyFill_def i64_ops_defs bind_eq_Some_conv Let_def\<close>)
  next
    case 3
    show thesis
      by (rule cover [OF _ _ refl])
        (use assms(1) 3 in \<open>auto simp: applyBuyFill_def i64_ops_defs bind_eq_Some_conv Let_def\<close>)
  next
    case 4
    show thesis
      by (rule cover [OF _ _ refl])
        (use assms(1) 4 in \<open>auto simp: applyBuyFill_def i64_ops_defs bind_eq_Some_conv Let_def\<close>)
  qed
qed

lemma applySellFill_cases:
  assumes "applySellFill e p q c = Some e'"
  obtains (add) "c \<le> 0"
      "e' = e\<lparr>e_cost_basis_total := wrap_i64 (e_cost_basis_total e - p * q),
         e_filled := wrap_i64 (e_filled e - q), e_pending := wrap_i64 (e_pending e + q)\<rparr>"
  | (idle) "0 < c" "q \<le> 0"
      "e' = e\<lparr>e_filled := wrap_i64 (e_filled e - q), e_pending := wrap_i64 (e_pending e + q)\<rparr>"
  | (close) r where "0 < c" "0 < q" "r = (e_cost_basis_total e * min q c) sdiv c"
      "e' = e\<lparr>e_realized_pnl := wrap_i64 (e_realized_pnl e + (p * min q c - r)),
         e_cost_basis_total := wrap_i64 (e_cost_basis_total e - r - p * (q - min q c)),
         e_filled := wrap_i64 (e_filled e - q), e_pending := wrap_i64 (e_pending e + q)\<rparr>"
proof -
  consider "c \<le> 0" | "0 < c" "q \<le> 0" | "0 < c" "0 < q" "q \<le> c" | "0 < c" "0 < q" "c < q"
    by linarith
  then show thesis
  proof cases
    case 1
    show thesis
      by (rule add) (use assms(1) 1 in \<open>auto simp: applySellFill_def i64_ops_defs bind_eq_Some_conv Let_def\<close>)
  next
    case 2
    show thesis
      by (rule idle) (use assms(1) 2 in \<open>auto simp: applySellFill_def i64_ops_defs bind_eq_Some_conv Let_def\<close>)
  next
    case 3
    show thesis
      by (rule close [OF _ _ refl])
        (use assms(1) 3 in \<open>auto simp: applySellFill_def i64_ops_defs bind_eq_Some_conv Let_def\<close>)
  next
    case 4
    show thesis
      by (rule close [OF _ _ refl])
        (use assms(1) 4 in \<open>auto simp: applySellFill_def i64_ops_defs bind_eq_Some_conv Let_def\<close>)
  qed
qed

lemma applyBuyFill_fields:
  assumes "applyBuyFill e p q c = Some e'"
  shows "e_key e' = e_key e \<and> e_filled e' = wrap_i64 (e_filled e + q) \<and>
    e_pending e' = wrap_i64 (e_pending e - q)"
  using assms by (cases rule: applyBuyFill_cases) simp_all

lemma applySellFill_fields:
  assumes "applySellFill e p q c = Some e'"
  shows "e_key e' = e_key e \<and> e_filled e' = wrap_i64 (e_filled e - q) \<and>
    e_pending e' = wrap_i64 (e_pending e + q)"
  using assms by (cases rule: applySellFill_cases) simp_all

lemma fill_entry_fields:
  assumes "fill_entry side p q e = Some e'"
  shows "e_key e' = e_key e"
    and "e_filled e' = wrap_i64 (e_filled e + signed_qty side q)"
    and "e_pending e' = wrap_i64 (e_pending e - signed_qty side q)"
  using assms applyBuyFill_fields applySellFill_fields
  by (cases side; fastforce simp: fill_entry_def)+

lemma fill_entry_ok:
  assumes "fill_entry side p q e = Some e'" and "entry_ok e" and "e_key e \<noteq> kEmptySlot"
  shows "entry_ok e'"
proof (cases side)
  case Buy
  with assms(1) have "applyBuyFill e p q (e_filled e) = Some e'" by (simp add: fill_entry_def)
  then show ?thesis
    using assms(2,3) by (cases rule: applyBuyFill_cases) (simp_all add: entry_ok_def)
next
  case Sell
  with assms(1) have "applySellFill e p q (e_filled e) = Some e'" by (simp add: fill_entry_def)
  then show ?thesis
    using assms(2,3) by (cases rule: applySellFill_cases) (simp_all add: entry_ok_def)
qed

lemma sdiv_minus_right: "(a :: int) sdiv (- b) = - (a sdiv b)"
  by (simp add: signed_divide_int_def)

text \<open>Refinement: the entry holds the specification's account modulo \<open>2\<^sup>6\<^sup>4\<close>.\<close>

definition entry_holds :: "Entry \<Rightarrow> acct \<Rightarrow> bool" where
  "entry_holds e a \<longleftrightarrow> e_filled e = wrap_i64 (a_pos a) \<and>
     e_cost_basis_total e = wrap_i64 (a_cost a) \<and> e_realized_pnl e = wrap_i64 (a_pnl a)"

lemma acct_fill_same:
  "a_pos a = 0 \<or> sgn (a_pos a) = sgn s \<Longrightarrow>
    acct_fill s p a = a\<lparr>a_pos := a_pos a + s, a_cost := a_cost a + p * s\<rparr>"
  by (simp add: acct_fill_def)

lemma acct_fill_idle: "acct_fill 0 p a = a"
  by (auto simp: acct_fill_def signed_divide_int_def)

lemma acct_fill_against:
  "a_pos a \<noteq> 0 \<Longrightarrow> sgn (a_pos a) \<noteq> sgn s \<Longrightarrow> n = min \<bar>s\<bar> \<bar>a_pos a\<bar> \<Longrightarrow>
    r = (a_cost a * n) sdiv \<bar>a_pos a\<bar> \<Longrightarrow>
    acct_fill s p a = a\<lparr>a_pos := a_pos a + s,
      a_cost := a_cost a - r + p * (sgn s * (\<bar>s\<bar> - n)),
      a_pnl := a_pnl a + (p * (sgn (a_pos a) * n) - r)\<rparr>"
  by (simp add: acct_fill_def Let_def)

lemma applyBuyFill_refines:
  assumes "applyBuyFill e p q (e_filled e) = Some e'" and "0 \<le> q" and ok: "entry_ok e"
  shows "entry_holds e' (acct_fill q p (acct_of e))"
  using assms(1)
proof (cases rule: applyBuyFill_cases)
  case add
  then have "e_filled e = 0 \<or> sgn (e_filled e) = sgn q \<or> q = 0"
    using assms(2) by (auto simp: sgn_if)
  then show ?thesis
    using add ok by (auto simp: acct_fill_same acct_fill_idle acct_of_def entry_holds_def entry_ok_def)
next
  case idle
  then have "q = 0" using assms(2) by simp
  with idle show ?thesis using ok by (simp add: acct_fill_idle acct_of_def entry_holds_def entry_ok_def)
next
  case (cover r)
  have "acct_fill q p (acct_of e) = (acct_of e)\<lparr>a_pos := e_filled e + q,
      a_cost := e_cost_basis_total e - (- r) + p * (sgn q * (\<bar>q\<bar> - min q (- e_filled e))),
      a_pnl := e_realized_pnl e + (p * (sgn (e_filled e) * min q (- e_filled e)) - (- r))\<rparr>"
    using cover(1-3) sdiv_minus_right [of _ "- e_filled e"]
    by (subst acct_fill_against [OF _ _ refl refl]) (simp_all add: acct_of_def)
  then show ?thesis using cover by (simp add: entry_holds_def algebra_simps)
qed

lemma applySellFill_refines:
  assumes "applySellFill e p q (e_filled e) = Some e'" and "0 \<le> q" and ok: "entry_ok e"
  shows "entry_holds e' (acct_fill (- q) p (acct_of e))"
  using assms(1)
proof (cases rule: applySellFill_cases)
  case add
  then have "e_filled e = 0 \<or> sgn (e_filled e) = sgn (- q) \<or> q = 0"
    using assms(2) by (auto simp: sgn_if)
  then show ?thesis
    using add ok by (auto simp: acct_fill_same acct_fill_idle acct_of_def entry_holds_def entry_ok_def)
next
  case idle
  then have "q = 0" using assms(2) by simp
  with idle show ?thesis using ok by (simp add: acct_fill_idle acct_of_def entry_holds_def entry_ok_def)
next
  case (close r)
  have "acct_fill (- q) p (acct_of e) = (acct_of e)\<lparr>a_pos := e_filled e + - q,
      a_cost := e_cost_basis_total e - r + p * (sgn (- q) * (\<bar>q\<bar> - min q (e_filled e))),
      a_pnl := e_realized_pnl e + (p * (sgn (e_filled e) * min q (e_filled e)) - r)\<rparr>"
    using close(1-3) by (subst acct_fill_against [OF _ _ refl refl]) (simp_all add: acct_of_def)
  then show ?thesis using close by (simp add: entry_holds_def algebra_simps)
qed

lemma fill_entry_refines:
  assumes "fill_entry side p q e = Some e'" and "0 \<le> q" and "entry_ok e"
  shows "entry_holds e' (acct_fill (signed_qty side q) p (acct_of e))"
  using assms applyBuyFill_refines applySellFill_refines
  by (auto simp: fill_entry_def split: OrderSide.splits)

section \<open>Properties of the specification\<close>

text \<open>Net cash of an account: what was realised less what the open position cost.\<close>

definition acct_cash :: "acct \<Rightarrow> int" where
  "acct_cash a = a_pnl a - a_cost a"

lemma opposite_split:
  assumes "(f :: int) \<noteq> 0" and "sgn f \<noteq> sgn s" and "n = min \<bar>s\<bar> \<bar>f\<bar>"
  shows "sgn f * n - sgn s * (\<bar>s\<bar> - n) = - s" and "0 \<le> n" and "n \<le> \<bar>f\<bar>" and "n \<le> \<bar>s\<bar>"
  using assms by (auto simp: sgn_if min_def split: if_splits)

lemma acct_fill_pos: "a_pos (acct_fill s p a) = a_pos a + s"
  by (simp add: acct_fill_def Let_def)

lemma acct_fill_cash: "acct_cash (acct_fill s p a) = acct_cash a - p * s"
proof (cases "a_pos a = 0 \<or> sgn (a_pos a) = sgn s")
  case True
  then show ?thesis by (simp add: acct_fill_same acct_cash_def)
next
  case False
  define n where "n = min \<bar>s\<bar> \<bar>a_pos a\<bar>"
  have "acct_cash (acct_fill s p a) =
      acct_cash a + p * (sgn (a_pos a) * n - sgn s * (\<bar>s\<bar> - n))"
    using False
    by (subst acct_fill_against [OF _ _ refl refl])
      (simp_all add: acct_cash_def n_def algebra_simps)
  then show ?thesis using False opposite_split(1) [of "a_pos a" s n] by (simp add: n_def)
qed

text \<open>
  With prices between 0 and \<open>P\<close> the cost basis has the sign of the position and is at most
  \<open>P\<close> per share; in particular a flat position has no cost.
\<close>

definition acct_sound :: "int \<Rightarrow> acct \<Rightarrow> bool" where
  "acct_sound P a \<longleftrightarrow>
     (if 0 \<le> a_pos a then 0 \<le> a_cost a \<and> a_cost a \<le> a_pos a * P
      else a_pos a * P \<le> a_cost a \<and> a_cost a \<le> 0)"

lemma acct_sound_flat: "acct_sound P a \<Longrightarrow> a_pos a = 0 \<Longrightarrow> a_cost a = 0"
  by (simp add: acct_sound_def)

lemma acct_sound_abs: "acct_sound P a \<Longrightarrow> \<bar>a_cost a\<bar> \<le> \<bar>a_pos a\<bar> * P"
  by (auto simp: acct_sound_def split: if_splits)

lemma closed_share:
  fixes c f n P :: int
  assumes "0 \<le> c" and "c \<le> f * P" and "0 < f" and "0 \<le> n" and "n \<le> f"
  defines "r \<equiv> (c * n) div f"
  shows "0 \<le> r" and "r \<le> c" and "c - r \<le> (f - n) * P"
proof -
  show "0 \<le> r" using assms by (simp add: pos_imp_zdiv_nonneg_iff)
  have "c * n \<le> c * f" using assms by (intro mult_left_mono) auto
  then have "(c * n) div f \<le> (c * f) div f" using assms(3) by (intro zdiv_mono1) auto
  then show "r \<le> c" using assms(3) by (simp add: r_def)
  have "c * (f - n) \<le> (f * P) * (f - n)" using assms by (intro mult_right_mono) auto
  then have "(c - (f - n) * P) * f \<le> c * n" by (simp add: algebra_simps)
  then have "((c - (f - n) * P) * f) div f \<le> (c * n) div f" using assms(3) by (intro zdiv_mono1) auto
  then show "c - r \<le> (f - n) * P" using assms(3) by (simp add: r_def)
qed

lemma sdiv_pos: "0 \<le> (a :: int) \<Longrightarrow> 0 < b \<Longrightarrow> a sdiv b = a div b"
  by (cases "a = 0") (simp_all add: signed_divide_int_def)

lemma sdiv_neg: "(- a :: int) sdiv b = - (a sdiv b)"
  by (simp add: signed_divide_int_def)

lemma acct_soundI:
  assumes "d = 1 \<or> d = - 1" and "a_pos a = d * m" and "a_cost a = d * x"
    and "0 \<le> m" and "0 \<le> x" and "x \<le> m * P"
  shows "acct_sound P a"
  using assms by (cases "m = 0") (auto simp: acct_sound_def)

lemma acct_fill_sound_same:
  assumes "acct_sound P a" and "0 \<le> p" and "p \<le> P"
    and same: "a_pos a = 0 \<or> sgn (a_pos a) = sgn s"
  shows "acct_sound P (acct_fill s p a)"
proof -
  have eq: "acct_fill s p a = a\<lparr>a_pos := a_pos a + s, a_cost := a_cost a + p * s\<rparr>"
    using same by (rule acct_fill_same)
  consider "0 \<le> s" "0 \<le> a_pos a" | "s < 0" "a_pos a \<le> 0"
    using same by (auto simp: sgn_if split: if_splits)
  then show ?thesis
  proof cases
    case 1
    have "0 \<le> p * s" "p * s \<le> s * P"
      using 1 assms(2,3) by (simp_all add: mult_right_mono mult.commute [of s])
    moreover have "0 \<le> a_cost a" "a_cost a \<le> a_pos a * P"
      using 1 assms(1) by (simp_all add: acct_sound_def)
    ultimately have "0 \<le> a_cost a + p * s" "a_cost a + p * s \<le> a_pos a * P + s * P"
      by linarith+
    then show ?thesis using 1 by (simp add: eq acct_sound_def distrib_right)
  next
    case 2
    have "p * s \<le> 0" "s * P \<le> p * s"
      using 2 assms(2,3) by (simp_all add: mult_nonneg_nonpos mult_right_mono_neg mult.commute [of s])
    moreover have "a_cost a \<le> 0" "a_pos a * P \<le> a_cost a"
      using 2 assms(1) by (auto simp: acct_sound_def split: if_splits)
    ultimately have "a_cost a + p * s \<le> 0" "a_pos a * P + s * P \<le> a_cost a + p * s"
      by linarith+
    then show ?thesis using 2 by (simp add: eq acct_sound_def distrib_right)
  qed
qed

lemma acct_fill_sound_against:
  assumes "acct_sound P a" and "0 \<le> p" and "p \<le> P"
    and against: "\<not> (a_pos a = 0 \<or> sgn (a_pos a) = sgn s)"
  shows "acct_sound P (acct_fill s p a)"
proof -
  define f where "f = a_pos a"
  define n where "n = min \<bar>s\<bar> \<bar>f\<bar>"
  define c where "c = \<bar>a_cost a\<bar>"
  define r where "r = (c * n) div \<bar>f\<bar>"
  have nf: "0 \<le> n" "n \<le> \<bar>f\<bar>" "n \<le> \<bar>s\<bar>" "0 < \<bar>f\<bar>"
    using against opposite_split [of f s n] by (simp_all add: f_def n_def)
  have cost: "a_cost a = sgn f * c" and c: "0 \<le> c" "c \<le> \<bar>f\<bar> * P"
    using assms(1) against acct_sound_abs [OF assms(1)]
    by (auto simp: acct_sound_def f_def c_def sgn_if abs_if split: if_splits)
  note share = closed_share [OF c nf(4,1,2), folded r_def]
  have "(a_cost a * n) sdiv \<bar>f\<bar> = sgn f * r"
    using cost c nf sdiv_pos [of "c * n" "\<bar>f\<bar>"] sdiv_neg [of "c * n" "\<bar>f\<bar>"]
    by (auto simp: r_def sgn_if split: if_splits)
  then have cost': "a_cost (acct_fill s p a) = sgn f * (c - r) + sgn s * (p * (\<bar>s\<bar> - n))"
    using against cost
    by (subst acct_fill_against [OF _ _ refl refl]) (simp_all add: f_def n_def algebra_simps)
  show ?thesis
  proof (cases "\<bar>s\<bar> \<le> \<bar>f\<bar>")
    case True
    then have n: "n = \<bar>s\<bar>" by (simp add: n_def)
    have "f + s = sgn f * (\<bar>f\<bar> - n)"
      using against True n by (auto simp: f_def sgn_if split: if_splits)
    then show ?thesis
      using share cost' n nf acct_fill_pos [of s p a]
      by (intro acct_soundI [of "sgn f" _ "\<bar>f\<bar> - n" "c - r"]) (auto simp: f_def sgn_if)
  next
    case flip: False
    then have n: "n = \<bar>f\<bar>" and "r = c" using share by (auto simp: n_def)
    moreover have "f + s = sgn s * (\<bar>s\<bar> - n)"
      using against flip n by (auto simp: f_def sgn_if split: if_splits)
    moreover have "p * (\<bar>s\<bar> - n) \<le> P * (\<bar>s\<bar> - n)" using assms nf by (intro mult_right_mono) auto
    ultimately show ?thesis
      using cost' flip nf assms(2) acct_fill_pos [of s p a]
      by (intro acct_soundI [of "sgn s" _ "\<bar>s\<bar> - n" "p * (\<bar>s\<bar> - n)"])
        (auto simp: f_def sgn_if mult.commute)
  qed
qed

lemma acct_fill_sound:
  "acct_sound P a \<Longrightarrow> 0 \<le> p \<Longrightarrow> p \<le> P \<Longrightarrow> acct_sound P (acct_fill s p a)"
  using acct_fill_sound_same acct_fill_sound_against by blast

section \<open>Exactness and absence of overflow\<close>

text \<open>
  While positions stay within \<open>Q\<close> shares and prices within \<open>P\<close> ticks, with \<open>Q\<^sup>2 P < 2\<^sup>6\<^sup>3\<close>, no
  signed operation of a fill overflows: the entry holds the exact position and cost, and the
  realised profit modulo \<open>2\<^sup>6\<^sup>4\<close>.
\<close>

definition acct_bounded :: "int \<Rightarrow> int \<Rightarrow> acct \<Rightarrow> bool" where
  "acct_bounded Q P a \<longleftrightarrow> acct_sound P a \<and> \<bar>a_pos a\<bar> \<le> Q"

definition no_overflow :: "int \<Rightarrow> int \<Rightarrow> bool" where
  "no_overflow Q P \<longleftrightarrow> 1 \<le> P \<and> Q * Q * P < 2 ^ 63"

definition entry_exact :: "Entry \<Rightarrow> acct \<Rightarrow> bool" where
  "entry_exact e a \<longleftrightarrow> e_filled e = a_pos a \<and> e_cost_basis_total e = a_cost a \<and>
     e_realized_pnl e = wrap_i64 (a_pnl a)"

lemma no_overflowD:
  assumes "no_overflow Q P" and "0 \<le> Q"
  shows "Q < 2 ^ 63" and "Q * P < 2 ^ 63" and "0 \<le> x \<Longrightarrow> x \<le> Q * Q * P \<Longrightarrow> in_i64 x \<and> in_i64 (- x)"
proof -
  have P: "1 \<le> P" and QQP: "Q * Q * P < 2 ^ 63" using assms by (simp_all add: no_overflow_def)
  have "Q * 1 \<le> Q * P" using P assms(2) by (intro mult_left_mono) auto
  moreover have "Q * P \<le> Q * Q * P"
    using P assms(2) by (cases "Q = 0") (auto intro!: mult_right_mono simp: mult_le_cancel_left1)
  ultimately show "Q < 2 ^ 63" and "Q * P < 2 ^ 63" using QQP by linarith+
  show "in_i64 x \<and> in_i64 (- x)" if "0 \<le> x" "x \<le> Q * Q * P"
    using that QQP by (simp add: in_i64_def)
qed

lemma acct_bounded_in_i64:
  assumes "acct_bounded Q P a" and "no_overflow Q P"
  shows "in_i64 (a_pos a)" and "in_i64 (a_cost a)"
proof -
  have Q: "0 \<le> Q" using assms(1) by (auto simp: acct_bounded_def)
  note D = no_overflowD [OF assms(2) Q]
  show "in_i64 (a_pos a)" using assms(1) D(1) by (auto simp: acct_bounded_def intro: in_i64_abs_le)
  have "\<bar>a_cost a\<bar> \<le> \<bar>a_pos a\<bar> * P" using assms(1) by (simp add: acct_bounded_def acct_sound_abs)
  also have "\<dots> \<le> Q * P"
    using assms by (intro mult_right_mono) (auto simp: acct_bounded_def no_overflow_def)
  finally show "in_i64 (a_cost a)" using D(2) by (rule in_i64_abs_le)
qed

lemma closing_bounds:
  assumes a: "acct_bounded Q P a" and Q: "no_overflow Q P" and f: "f = a_pos a" "f \<noteq> 0"
    and n: "0 \<le> n" "n \<le> \<bar>f\<bar>" and p: "0 \<le> p" "p \<le> P"
  defines "r \<equiv> (a_cost a * n) sdiv f"
  shows "in_i64 (a_cost a * n)" and "in_i64 r" and "in_i64 (p * n)"
    and "in_i64 (r - p * n)" and "in_i64 (p * n - r)" and "in_i64 (- f)"
proof -
  have fQ: "\<bar>f\<bar> \<le> Q" and Q0: "0 \<le> Q" and P: "0 \<le> P"
    using a f p by (auto simp: acct_bounded_def)
  note D = no_overflowD [OF Q Q0]
  have c: "\<bar>a_cost a\<bar> \<le> \<bar>f\<bar> * P" using a f by (simp add: acct_bounded_def acct_sound_abs)
  also have "\<dots> \<le> Q * P" using fQ P by (intro mult_right_mono)
  finally have cQ: "\<bar>a_cost a\<bar> \<le> Q * P" .
  have "\<bar>a_cost a * n\<bar> \<le> (Q * P) * Q"
    using cQ n fQ Q0 P by (simp add: abs_mult mult_mono)
  also have "(Q * P) * Q = Q * Q * P" by (simp add: mult.commute)
  finally have "in_i64 \<bar>a_cost a * n\<bar> \<and> in_i64 (- \<bar>a_cost a * n\<bar>)" by (intro D(3)) simp_all
  then show "in_i64 (a_cost a * n)" by (auto simp: abs_if split: if_splits)
  have share: "0 \<le> (\<bar>a_cost a\<bar> * n) div \<bar>f\<bar>" "(\<bar>a_cost a\<bar> * n) div \<bar>f\<bar> \<le> \<bar>a_cost a\<bar>"
    using closed_share [of "\<bar>a_cost a\<bar>" "\<bar>f\<bar>" P n] c f n by simp_all
  have r: "r = (\<bar>a_cost a\<bar> * n) div \<bar>f\<bar>"
    using a f n sdiv_pos [of "\<bar>a_cost a\<bar> * n" "\<bar>f\<bar>"] sdiv_neg [of "- (a_cost a * n)" f]
      sdiv_minus_right [of "a_cost a * n" "- f"]
    by (auto simp: r_def acct_bounded_def acct_sound_def sdiv_neg abs_if split: if_splits)
  then have rb: "0 \<le> r" "r \<le> Q * P" using share cQ by linarith+
  have pn: "0 \<le> p * n" "p * n \<le> Q * P"
    using p n fQ Q0 by (simp_all add: mult.commute [of Q] mult_mono)
  show "in_i64 r" "in_i64 (p * n)" "in_i64 (r - p * n)" "in_i64 (p * n - r)"
    using rb pn D(2) by (simp_all add: in_i64_def)
  show "in_i64 (- f)" using fQ D(1) by (auto intro: in_i64_abs_le)
qed

lemma opening_bounds:
  assumes "no_overflow Q P" and "0 \<le> n" and "n \<le> Q" and "0 \<le> p" and "p \<le> P"
  shows "in_i64 (p * n)" and "in_i64 n"
proof -
  have Q0: "0 \<le> Q" using assms by linarith
  note D = no_overflowD [OF assms(1) Q0]
  have "0 \<le> p * n" "p * n \<le> Q * P"
    using assms Q0 by (simp_all add: mult.commute [of Q] mult_mono)
  then show "in_i64 (p * n)" using D(2) by (simp add: in_i64_def)
  show "in_i64 n" using assms D(1) by (simp add: in_i64_def)
qed

lemma applyBuyFill_defined:
  assumes e: "e_filled e = a_pos a" "e_cost_basis_total e = a_cost a"
    and a: "acct_bounded Q P a" and Q: "no_overflow Q P" and q: "0 \<le> q" "\<bar>a_pos a + q\<bar> \<le> Q"
    and p: "0 \<le> p" "p \<le> P"
  shows "applyBuyFill e p q (e_filled e) \<noteq> None"
proof (cases "0 \<le> a_pos a")
  case True
  then have "in_i64 (p * q)" using opening_bounds(1) [OF Q q(1) _ p] q by linarith
  then show ?thesis using True e by (simp add: applyBuyFill_def i64_ops_defs chk_i64_def)
next
  case False
  define n where "n = min q (- a_pos a)"
  have n: "0 \<le> n" "n \<le> \<bar>a_pos a\<bar>" using False q by (auto simp: n_def)
  have rest: "0 \<le> q - n" "q - n \<le> Q" using False q by (auto simp: n_def min_def split: if_splits)
  show ?thesis
    using False e closing_bounds [OF a Q refl _ n p] opening_bounds [OF Q rest p]
    by (auto simp: applyBuyFill_def i64_ops_defs chk_i64_def Let_def bind_eq_None_conv simp flip: n_def)
qed

lemma applySellFill_defined:
  assumes e: "e_filled e = a_pos a" "e_cost_basis_total e = a_cost a"
    and a: "acct_bounded Q P a" and Q: "no_overflow Q P" and q: "0 \<le> q" "\<bar>a_pos a - q\<bar> \<le> Q"
    and p: "0 \<le> p" "p \<le> P"
  shows "applySellFill e p q (e_filled e) \<noteq> None"
proof (cases "a_pos a \<le> 0")
  case True
  then have "in_i64 (p * q)" using opening_bounds(1) [OF Q q(1) _ p] q by linarith
  then show ?thesis using True e by (simp add: applySellFill_def i64_ops_defs chk_i64_def)
next
  case False
  define n where "n = min q (a_pos a)"
  have n: "0 \<le> n" "n \<le> \<bar>a_pos a\<bar>" using False q by (auto simp: n_def)
  have rest: "0 \<le> q - n" "q - n \<le> Q" using False q by (auto simp: n_def min_def split: if_splits)
  show ?thesis
    using False e closing_bounds [OF a Q refl _ n p] opening_bounds [OF Q rest p]
    by (auto simp: applySellFill_def i64_ops_defs chk_i64_def Let_def bind_eq_None_conv simp flip: n_def)
qed

lemma acct_fill_congs:
  "a_pos a = a_pos b \<Longrightarrow> a_cost a = a_cost b \<Longrightarrow> a_cost (acct_fill s p a) = a_cost (acct_fill s p b)"
  "a_pos a = a_pos b \<Longrightarrow> a_cost a = a_cost b \<Longrightarrow>
    a_pnl (acct_fill s p a) - a_pnl a = a_pnl (acct_fill s p b) - a_pnl b"
  by (auto simp: acct_fill_def Let_def)

lemma fill_entry_exact:
  assumes e: "entry_exact e a" and ok: "entry_ok e" and a: "acct_bounded Q P a"
    and Q: "no_overflow Q P" and q: "0 \<le> q" "\<bar>a_pos a + signed_qty side q\<bar> \<le> Q"
    and p: "0 \<le> p" "p \<le> P"
  obtains e' where "fill_entry side p q e = Some e'"
    and "entry_exact e' (acct_fill (signed_qty side q) p a)"
    and "acct_bounded Q P (acct_fill (signed_qty side q) p a)"
proof -
  let ?s = "signed_qty side q" and ?b = "acct_of e"
  have ef: "e_filled e = a_pos a" "e_cost_basis_total e = a_cost a" "e_realized_pnl e = wrap_i64 (a_pnl a)"
    using e by (simp_all add: entry_exact_def)
  have "fill_entry side p q e \<noteq> None"
    using applyBuyFill_defined [OF ef(1,2) a Q q(1) _ p] applySellFill_defined [OF ef(1,2) a Q q(1) _ p] q(2)
    by (cases side) (simp_all add: fill_entry_def)
  then obtain e' where f: "fill_entry side p q e = Some e'" by blast
  have bd: "acct_bounded Q P (acct_fill ?s p a)"
    using a q(2) p by (simp add: acct_bounded_def acct_fill_sound acct_fill_pos)
  have h: "entry_holds e' (acct_fill ?s p ?b)" by (rule fill_entry_refines [OF f q(1) ok])
  have b: "a_pos ?b = a_pos a" "a_cost ?b = a_cost a" "a_pnl ?b = wrap_i64 (a_pnl a)"
    using ef by (simp_all add: acct_of_def)
  have "a_pnl (acct_fill ?s p ?b) = wrap_i64 (a_pnl a) + (a_pnl (acct_fill ?s p a) - a_pnl a)"
    using acct_fill_congs(2) [OF b(1,2)] b(3) by (metis add_diff_cancel_left' diff_add_cancel add.commute)
  then have "e_realized_pnl e' = wrap_i64 (a_pnl (acct_fill ?s p a))"
    using h by (simp add: entry_holds_def)
  moreover have "a_cost (acct_fill ?s p ?b) = a_cost (acct_fill ?s p a)"
    using acct_fill_congs(1) [OF b(1,2)] .
  ultimately have "entry_exact e' (acct_fill ?s p a)"
    using h b acct_bounded_in_i64 [OF bd Q]
    by (simp add: entry_exact_def entry_holds_def acct_fill_pos)
  then show thesis using f bd by (intro that)
qed

end
