(* ===== verification/Position_Book.thy ===== *)
theory Position_Book
  imports Position_Accounting
begin

text \<open>
  The public operations of \<open>PositionManager\<close> as a book of positions: what each does to the
  position of every key, the interface \<open>position_book\<close> its clients rely on (risk manager, order
  gateway, fill listener), and the properties of whole sequences of operations.
\<close>

section \<open>Operations by key\<close>

abbreviation ord_key :: "Order \<Rightarrow> u64" where
  "ord_key ord \<equiv> symbolBufferToKey (ord_symbol ord)"

abbreviation fill_key :: "Fill \<Rightarrow> u64" where
  "fill_key f \<equiv> symbolBufferToKey (fill_symbol f)"

definition tracked :: "PositionManager \<Rightarrow> u64 \<Rightarrow> bool" where
  "tracked pm k \<longleftrightarrow> find_entry k pm \<noteq> None"

lemma set_slot_laws:
  assumes "pm_inv pm" and "find_entry k pm = Some j" and "valid_key k"
    and "e_key e = k" and "entry_ok e"
  defines "pm' \<equiv> pm\<lparr>pm_table := (pm_table pm)[j := e]\<rparr>"
  shows "pm_inv pm'"
    and "valid_key k' \<Longrightarrow> position pm' k' = (if k' = k then e else position pm k')"
    and "valid_key k' \<Longrightarrow> tracked pm' k' = tracked pm k'"
proof -
  have j: "j < kMaxSymbols" "e_key (pm_table pm ! j) = k"
    using assms(1-3) by (simp_all add: find_entry_iff)
  show inv: "pm_inv pm'"
    unfolding pm'_def using assms j by (intro pm_inv_set_entry) simp_all
  show "position pm' k' = (if k' = k then e else position pm k')" if "valid_key k'"
    unfolding pm'_def using assms j that by (intro position_set_entry) simp_all
  have "e_key (pm_table pm' ! i) = e_key (pm_table pm ! i)" for i
    using assms j by (cases "i = j") (simp_all add: pm'_def)
  then show "tracked pm' k' = tracked pm k'" if "valid_key k'"
    using find_entry_iff [OF inv that] find_entry_iff [OF assms(1) that]
    by (simp add: tracked_def)
qed

lemma findOrInsert_tracked:
  assumes "pm_inv pm" and "valid_key k" and "tracked pm k"
  obtains j where "findOrInsert k pm = (Some j, pm)" and "find_entry k pm = Some j"
    and "pm_table pm ! j = position pm k" and "j < kMaxSymbols"
proof -
  obtain j where f: "find_entry k pm = Some j"
    using assms(3) by (auto simp: tracked_def)
  then have j: "j < kMaxSymbols" "e_key (pm_table pm ! j) = k"
    using assms by (simp_all add: find_entry_iff)
  then have "first_hit (pm_keys pm) k = Some j"
    using assms by (intro first_hit_key) (simp_all add: pm_inv_def)
  then have "findOrInsert k pm = (Some j, pm)"
    using assms(1) j by (simp add: findOrInsert_hit Entry_key_same)
  then show thesis using f j by (intro that) (simp_all add: position_def)
qed

lemma findOrInsert_tracks:
  assumes "pm_inv pm" and "valid_key k" and "findOrInsert k pm = (Some j, pm1)" and "valid_key k'"
  shows "tracked pm1 k' \<longleftrightarrow> tracked pm k' \<or> k' = k"
proof -
  note inv1 = findOrInsert_inv [OF assms(1-3)]
  note nth1 = findOrInsert_nth [OF assms(1-3)] and D = findOrInsert_SomeD [OF assms(1,3)]
  have k: "e_key (position pm k) = k" using assms(1,2) by simp
  have "e_key (pm_table pm ! j) = k' \<Longrightarrow> k' = k"
    using D(4) assms(4) by (auto simp: empty_Entry_def)
  then have "(\<exists>i < kMaxSymbols. e_key (pm_table pm1 ! i) = k') \<longleftrightarrow>
      (\<exists>i < kMaxSymbols. e_key (pm_table pm ! i) = k') \<or> k' = k"
    using nth1 D(2) k by (metis (full_types))
  moreover have "tracked q k' \<longleftrightarrow> (\<exists>i < kMaxSymbols. e_key (pm_table q ! i) = k')" if "pm_inv q" for q
    using find_entry_iff [OF that assms(4)] by (auto simp: tracked_def)
  ultimately show ?thesis using assms(1) inv1 by simp
qed

text \<open>
  One law for the three writers: each finds its slot and then replaces the entry there.
  \<open>writes pm k f pm'\<close> says that the entry of \<open>k\<close> was replaced by \<open>f\<close> of it, or, when the table is
  full, that nothing happened.
\<close>

definition writes :: "PositionManager \<Rightarrow> u64 \<Rightarrow> (Entry \<Rightarrow> Entry) \<Rightarrow> PositionManager \<Rightarrow> bool" where
  "writes pm k f pm' \<longleftrightarrow> pm_inv pm' \<and>
     (\<forall>k'. valid_key k' \<longrightarrow> position pm' k' = (if k' = k \<and> tracked pm' k then f (position pm k) else position pm k')) \<and>
     (\<forall>k'. valid_key k' \<longrightarrow> tracked pm k' \<longrightarrow> tracked pm' k') \<and>
     (\<forall>k'. valid_key k' \<longrightarrow> k' \<noteq> k \<longrightarrow> tracked pm' k' = tracked pm k')"

lemma writes_after_insert:
  assumes inv: "pm_inv pm" and k: "valid_key k" and f: "findOrInsert k pm = (Some j, pm1)"
    and e: "e_key (g (position pm k)) = k" "entry_ok (g (position pm k))"
  shows "writes pm k g (pm1\<lparr>pm_table := (pm_table pm1)[j := g (position pm k)]\<rparr>)"
proof -
  note inv1 = findOrInsert_inv [OF inv k f] and fk = findOrInsert_find [OF inv k f]
  note L = set_slot_laws [OF inv1 fk k e]
  have "tracked pm1 k" using fk by (simp add: tracked_def)
  then show ?thesis
    using L findOrInsert_position [OF inv k f] findOrInsert_tracks [OF inv k f] k
    by (simp add: writes_def)
qed

lemma writes_full:
  assumes "pm_inv pm" and "valid_key k" and "findOrInsert k pm = (None, pm1)"
  shows "writes pm k g pm1" and "pm1 = pm" and "\<not> tracked pm k"
  using findOrInsert_None [OF assms(1,3)] assms(1) by (auto simp: writes_def tracked_def)

text \<open>The checked negation of the sources is the signed quantity, when it is defined.\<close>

lemma signed_delta_eq_Some:
  "(if side = Sell then i64_neg q else Some q) = Some d \<longleftrightarrow>
    d = signed_qty side q \<and> (side = Sell \<longrightarrow> in_i64 (- q))"
  by (cases side) (auto simp: i64_neg_def)

lemma set_pending_ok:
  "entry_ok e \<Longrightarrow> e_key e \<noteq> kEmptySlot \<Longrightarrow> entry_ok (e\<lparr>e_pending := wrap_i64 x\<rparr>)"
  by (simp add: entry_ok_def)

lemma onOrderSent_writes:
  assumes inv: "pm_inv pm" and k: "valid_key (ord_key ord)" and s: "onOrderSent ord pm = Some pm'"
  shows "writes pm (ord_key ord)
    (\<lambda>e. e\<lparr>e_pending := wrap_i64 (e_pending e + signed_qty (ord_side ord) (ord_quantity ord))\<rparr>) pm'"
proof (cases "findOrInsert (ord_key ord) pm")
  case (Pair slot pm1)
  note nth = findOrInsert_nth [OF inv k] and less = findOrInsert_SomeD(2) [OF inv]
  show ?thesis
  proof (cases slot)
    case None
    with Pair have f: "findOrInsert (ord_key ord) pm = (None, pm1)" by simp
    with s have "pm' = pm1" by (simp add: onOrderSent_def)
    then show ?thesis using writes_full [OF inv k f] by simp
  next
    case (Some j)
    with Pair have f: "findOrInsert (ord_key ord) pm = (Some j, pm1)" by simp
    have e: "pm_table pm1 ! j = position pm (ord_key ord)" using nth [OF f less [OF f]] by simp
    have "pm' = pm1\<lparr>pm_table := (pm_table pm1)[j := (position pm (ord_key ord))\<lparr>e_pending :=
        wrap_i64 (e_pending (position pm (ord_key ord)) + signed_qty (ord_side ord) (ord_quantity ord))\<rparr>]\<rparr>"
      using s f e by (auto simp: onOrderSent_def bind_eq_Some_conv signed_delta_eq_Some Let_def)
    then show ?thesis
      using writes_after_insert [OF inv k f, where g = "\<lambda>e. e\<lparr>e_pending :=
          wrap_i64 (e_pending e + signed_qty (ord_side ord) (ord_quantity ord))\<rparr>"]
        inv k position_ok [OF inv] by (simp add: set_pending_ok)
  qed
qed

lemma onOrderCancelled_untracked:
  "\<not> tracked pm (ord_key ord) \<Longrightarrow> onOrderCancelled ord pm = Some pm"
  by (simp add: onOrderCancelled_def findMutable_find_entry tracked_def)

lemma onOrderCancelled_writes:
  assumes inv: "pm_inv pm" and k: "valid_key (ord_key ord)" and s: "onOrderCancelled ord pm = Some pm'"
  shows "writes pm (ord_key ord)
    (\<lambda>e. e\<lparr>e_pending := wrap_i64 (e_pending e - signed_qty (ord_side ord) (ord_quantity ord))\<rparr>) pm'"
proof (cases "find_entry (ord_key ord) pm")
  case None
  then have "\<not> tracked pm (ord_key ord)" by (simp add: tracked_def)
  then show ?thesis using s inv by (auto simp: onOrderCancelled_untracked writes_def)
next
  case (Some j)
  let ?e = "position pm (ord_key ord)"
  have e: "pm_table pm ! j = ?e" using Some by (simp add: position_def)
  have "pm' = pm\<lparr>pm_table := (pm_table pm)[j := ?e\<lparr>e_pending :=
      wrap_i64 (e_pending ?e - signed_qty (ord_side ord) (ord_quantity ord))\<rparr>]\<rparr>"
    using s Some e by (auto simp: onOrderCancelled_def findMutable_find_entry bind_eq_Some_conv
        signed_delta_eq_Some Let_def)
  moreover have "tracked pm (ord_key ord)" using Some by (simp add: tracked_def)
  ultimately show ?thesis
    using set_slot_laws [OF inv Some k, where e = "?e\<lparr>e_pending :=
        wrap_i64 (e_pending ?e - signed_qty (ord_side ord) (ord_quantity ord))\<rparr>"]
      inv k position_ok [OF inv] by (simp add: writes_def set_pending_ok)
qed

lemma onFill_eq:
  "onFill fill pm =
    (case findOrInsert (fill_key fill) pm of
       (None, pm) \<Rightarrow> Some pm
     | (Some j, pm) \<Rightarrow> do {
         p \<leftarrow> scaled_price (fill_price fill);
         e \<leftarrow> fill_entry (fill_side fill) p (fill_quantity fill) (pm_table pm ! j);
         Some (pm\<lparr>pm_table := (pm_table pm)[j := e]\<rparr>)
       })"
  unfolding onFill_def fill_entry_def Let_def by (rule refl)

lemma onFill_writes:
  assumes inv: "pm_inv pm" and k: "valid_key (fill_key fill)" and s: "onFill fill pm = Some pm'"
  shows "(pm' = pm \<and> \<not> tracked pm (fill_key fill)) \<or>
    (\<exists>p e'. scaled_price (fill_price fill) = Some p \<and>
      fill_entry (fill_side fill) p (fill_quantity fill) (position pm (fill_key fill)) = Some e' \<and>
      writes pm (fill_key fill) (\<lambda>_. e') pm' \<and> tracked pm' (fill_key fill))"
proof (cases "findOrInsert (fill_key fill) pm")
  case (Pair slot pm1)
  note nth = findOrInsert_nth [OF inv k] and less = findOrInsert_SomeD(2) [OF inv]
  show ?thesis
  proof (cases slot)
    case None
    with Pair have f: "findOrInsert (fill_key fill) pm = (None, pm1)" by simp
    with s have "pm' = pm1" by (simp add: onFill_def)
    then show ?thesis using writes_full [OF inv k f] by simp
  next
    case (Some j)
    with Pair have f: "findOrInsert (fill_key fill) pm = (Some j, pm1)" by simp
    have e: "pm_table pm1 ! j = position pm (fill_key fill)" using nth [OF f less [OF f]] by simp
    obtain p e' where p: "scaled_price (fill_price fill) = Some p"
      and fe: "fill_entry (fill_side fill) p (fill_quantity fill) (position pm (fill_key fill)) = Some e'"
      and pm': "pm' = pm1\<lparr>pm_table := (pm_table pm1)[j := e']\<rparr>"
      using s f e by (auto simp: onFill_eq bind_eq_Some_conv)
    have ok: "e_key e' = fill_key fill" "entry_ok e'"
      using fill_entry_fields(1) [OF fe] fill_entry_ok [OF fe] inv k position_ok [OF inv] by simp_all
    have "tracked pm' (fill_key fill)"
      using set_slot_laws(3) [OF findOrInsert_inv [OF inv k f] findOrInsert_find [OF inv k f] k ok]
        findOrInsert_find [OF inv k f] k by (simp add: pm' tracked_def)
    then show ?thesis
      using p fe writes_after_insert [OF inv k f, where g = "\<lambda>_. e'"] ok by (auto simp: pm')
  qed
qed

section \<open>The interface of the book\<close>

datatype book_op = Sent Order | Cancelled Order | Filled Fill

primrec op_key :: "book_op \<Rightarrow> u64" where
  "op_key (Sent ord) = ord_key ord"
| "op_key (Cancelled ord) = ord_key ord"
| "op_key (Filled fill) = fill_key fill"

text \<open>What an operation adds to the filled and to the pending quantity of its key.\<close>

primrec op_filled :: "book_op \<Rightarrow> int" where
  "op_filled (Sent ord) = 0"
| "op_filled (Cancelled ord) = 0"
| "op_filled (Filled fill) = signed_qty (fill_side fill) (fill_quantity fill)"

primrec op_pending :: "book_op \<Rightarrow> int" where
  "op_pending (Sent ord) = signed_qty (ord_side ord) (ord_quantity ord)"
| "op_pending (Cancelled ord) = - signed_qty (ord_side ord) (ord_quantity ord)"
| "op_pending (Filled fill) = - signed_qty (fill_side fill) (fill_quantity fill)"

definition net :: "(book_op \<Rightarrow> int) \<Rightarrow> u64 \<Rightarrow> book_op list \<Rightarrow> int" where
  "net f k ops = sum_list (map f (filter (\<lambda>op. op_key op = k) ops))"

primrec apply_op :: "book_op \<Rightarrow> PositionManager \<Rightarrow> PositionManager option" where
  "apply_op (Sent ord) = onOrderSent ord"
| "apply_op (Cancelled ord) = onOrderCancelled ord"
| "apply_op (Filled fill) = onFill fill"

lemma net_simps [simp]:
  "net f k [] = 0"
  "net f k (op # ops) = (if op_key op = k then f op else 0) + net f k ops"
  by (simp_all add: net_def)

text \<open>
  A book keeps, per key, a filled and a pending quantity; every operation on a tracked key adds
  its effect to them modulo \<open>2\<^sup>6\<^sup>4\<close> and touches no other key.
\<close>

locale position_book =
  fixes inv :: "'s \<Rightarrow> bool"
    and tracks :: "'s \<Rightarrow> u64 \<Rightarrow> bool"
    and filled :: "'s \<Rightarrow> u64 \<Rightarrow> int"
    and pending :: "'s \<Rightarrow> u64 \<Rightarrow> int"
    and step :: "book_op \<Rightarrow> 's \<Rightarrow> 's option"
  assumes step_inv: "inv s \<Longrightarrow> valid_key (op_key op) \<Longrightarrow> step op s = Some s' \<Longrightarrow> inv s'"
    and step_tracks: "inv s \<Longrightarrow> valid_key (op_key op) \<Longrightarrow> valid_key k \<Longrightarrow> tracks s k \<Longrightarrow>
      step op s = Some s' \<Longrightarrow> tracks s' k"
    and step_filled: "inv s \<Longrightarrow> valid_key (op_key op) \<Longrightarrow> valid_key k \<Longrightarrow> tracks s k \<Longrightarrow>
      step op s = Some s' \<Longrightarrow>
      filled s' k = wrap_i64 (filled s k + (if op_key op = k then op_filled op else 0))"
    and step_pending: "inv s \<Longrightarrow> valid_key (op_key op) \<Longrightarrow> valid_key k \<Longrightarrow> tracks s k \<Longrightarrow>
      step op s = Some s' \<Longrightarrow>
      pending s' k = wrap_i64 (pending s k + (if op_key op = k then op_pending op else 0))"
begin

lemma run_inv:
  assumes "run_list step ops s = Some s'" and "inv s" and "\<forall>op \<in> set ops. valid_key (op_key op)"
  shows "inv s'"
  using assms(1,2) by (rule run_list_inv) (use assms(3) step_inv in blast)

lemma run_quantities:
  assumes "run_list step ops s = Some s'" and "inv s" and "\<forall>op \<in> set ops. valid_key (op_key op)"
    and "valid_key k" and "tracks s k"
  shows "tracks s' k \<and> wrap_i64 (filled s' k) = wrap_i64 (filled s k + net op_filled k ops) \<and>
    wrap_i64 (pending s' k) = wrap_i64 (pending s k + net op_pending k ops)"
  using assms
proof (induction ops arbitrary: s)
  case (Cons op ops)
  from Cons.prems(1) obtain s1 where s1: "step op s = Some s1" "run_list step ops s1 = Some s'"
    by (auto split: option.splits)
  have v: "valid_key (op_key op)" using Cons.prems(3) by simp
  note laws = step_inv [OF Cons.prems(2) v s1(1)] step_tracks [OF Cons.prems(2) v Cons.prems(4,5) s1(1)]
  have IH: "tracks s' k \<and> wrap_i64 (filled s' k) = wrap_i64 (filled s1 k + net op_filled k ops) \<and>
      wrap_i64 (pending s' k) = wrap_i64 (pending s1 k + net op_pending k ops)"
    using laws Cons.prems(3,4) by (intro Cons.IH [OF s1(2)]) simp_all
  then show ?case
    using step_filled [OF Cons.prems(2) v Cons.prems(4,5) s1(1)]
      step_pending [OF Cons.prems(2) v Cons.prems(4,5) s1(1)]
    by (simp add: add.assoc)
qed simp

text \<open>Fills never move the total exposure; only orders sent and cancelled do.\<close>

lemma run_exposure:
  assumes "run_list step ops s = Some s'" and "inv s" and "\<forall>op \<in> set ops. valid_key (op_key op)"
    and "valid_key k" and "tracks s k"
  shows "wrap_i64 (filled s' k + pending s' k) =
    wrap_i64 (filled s k + pending s k + net (\<lambda>op. op_filled op + op_pending op) k ops)"
proof -
  have "net (\<lambda>op. op_filled op + op_pending op) k ops = net op_filled k ops + net op_pending k ops"
    by (simp add: net_def sum_list_addf)
  moreover have "wrap_i64 (filled s' k + pending s' k) = wrap_i64 (wrap_i64 (filled s' k) + wrap_i64 (pending s' k))"
    by simp
  moreover have "\<dots> = wrap_i64 (wrap_i64 (filled s k + net op_filled k ops) + wrap_i64 (pending s k + net op_pending k ops))"
    using run_quantities [OF assms] by (simp only:)
  moreover have "\<dots> = wrap_i64 ((filled s k + net op_filled k ops) + (pending s k + net op_pending k ops))"
    by (simp only: wrap_i64_add_left wrap_i64_add_right)
  ultimately show ?thesis by (simp add: ac_simps)
qed

end

lemma apply_op_writes:
  assumes "pm_inv pm" and "valid_key (op_key op)" and "apply_op op pm = Some pm'"
  shows "pm_inv pm'"
    and "valid_key k \<Longrightarrow> tracked pm k \<Longrightarrow> tracked pm' k"
    and "valid_key k \<Longrightarrow> tracked pm k \<Longrightarrow> e_filled (position pm' k) =
      wrap_i64 (e_filled (position pm k) + (if op_key op = k then op_filled op else 0))"
    and "valid_key k \<Longrightarrow> tracked pm k \<Longrightarrow> e_pending (position pm' k) =
      wrap_i64 (e_pending (position pm k) + (if op_key op = k then op_pending op else 0))"
proof -
  have ok: "entry_ok (position pm k)" for k using assms(1) by (rule position_ok)
  have "pm_inv pm' \<and> (valid_key k \<and> tracked pm k \<longrightarrow> tracked pm' k \<and>
      e_filled (position pm' k) = wrap_i64 (e_filled (position pm k) + (if op_key op = k then op_filled op else 0)) \<and>
      e_pending (position pm' k) = wrap_i64 (e_pending (position pm k) + (if op_key op = k then op_pending op else 0)))" for k
  proof (cases op)
    case (Sent ord)
    then show ?thesis
      using onOrderSent_writes [OF assms(1), of ord pm'] assms(2,3) ok [of k]
      by (auto simp: writes_def entry_ok_def)
  next
    case (Cancelled ord)
    then show ?thesis
      using onOrderCancelled_writes [OF assms(1), of ord pm'] assms(2,3) ok [of k]
      by (auto simp: writes_def entry_ok_def)
  next
    case (Filled fill)
    then show ?thesis
      using onFill_writes [OF assms(1), of fill pm'] assms ok [of k]
      by (auto simp: writes_def entry_ok_def fill_entry_fields(2,3))
  qed
  then show "pm_inv pm'"
    and "valid_key k \<Longrightarrow> tracked pm k \<Longrightarrow> tracked pm' k"
    and "valid_key k \<Longrightarrow> tracked pm k \<Longrightarrow> e_filled (position pm' k) =
      wrap_i64 (e_filled (position pm k) + (if op_key op = k then op_filled op else 0))"
    and "valid_key k \<Longrightarrow> tracked pm k \<Longrightarrow> e_pending (position pm' k) =
      wrap_i64 (e_pending (position pm k) + (if op_key op = k then op_pending op else 0))"
    by blast+
qed

interpretation pm_book: position_book pm_inv tracked
  "\<lambda>pm k. e_filled (position pm k)" "\<lambda>pm k. e_pending (position pm k)" apply_op
  by unfold_locales (blast intro: apply_op_writes)+

section \<open>Keys of symbols and buffers\<close>

lemma le_u64_append_NUL: "le_u64 (s @ replicate n NUL) = le_u64 s"
proof -
  have "le_u64 (replicate n NUL) = 0" by (induction n) simp_all
  then show ?thesis by (induction s) simp_all
qed

lemma symbolToKey_copy_buf: "symbolToKey s = symbolBufferToKey (copy_buf 8 s)"
  by (simp add: symbolToKey_def symbolBufferToKey_def copy_buf_def le_u64_append_NUL)

text \<open>
  The risk check reads the position through the view of an order's symbol, the writers through
  all 8 bytes of its buffer: for a zero-padded buffer these are the same key.
\<close>

lemma symbolToKey_view: "padded 8 buf \<Longrightarrow> symbolToKey (buf_view buf) = symbolBufferToKey buf"
  by (metis padded_def symbolToKey_copy_buf)

lemma symbolBufferToKey_inj:
  "length a = 8 \<Longrightarrow> length b = 8 \<Longrightarrow> symbolBufferToKey a = symbolBufferToKey b \<longleftrightarrow> a = b"
  by (auto simp: symbolBufferToKey_def dest: le_u64_inj)

lemma getters_position:
  "getFilledPosition symbol pm = e_filled (position pm (symbolToKey symbol))"
  "getPendingPosition symbol pm = e_pending (position pm (symbolToKey symbol))"
  "getCostBasis symbol pm = e_cost_basis_total (position pm (symbolToKey symbol))"
  "getRealizedPnl symbol pm = e_realized_pnl (position pm (symbolToKey symbol))"
  "getTotalExposure symbol pm =
     i64_add (e_filled (position pm (symbolToKey symbol))) (e_pending (position pm (symbolToKey symbol)))"
  by (simp_all add: getFilledPosition_def getPendingPosition_def getCostBasis_def getRealizedPnl_def
      getTotalExposure_def position_def empty_Entry_def i64_add_def chk_i64_def split: option.splits)

section \<open>Registration\<close>

definition registerAll :: "string list \<Rightarrow> PositionManager \<Rightarrow> PositionManager" where
  "registerAll syms pm = fold registerSymbol syms pm"

definition tracked_keys :: "PositionManager \<Rightarrow> u64 set" where
  "tracked_keys pm = {k. valid_key k \<and> tracked pm k}"

lemma tracked_keys_full:
  assumes "pm_inv pm" and "\<forall>j < kMaxSymbols. e_key (pm_table pm ! j) \<noteq> kEmptySlot"
  shows "kMaxSymbols \<le> card (tracked_keys pm)"
proof -
  let ?f = "\<lambda>j. e_key (pm_table pm ! j)"
  have "inj_on ?f {..<kMaxSymbols}"
  proof (rule inj_onI)
    fix i j assume "i \<in> {..<kMaxSymbols}" "j \<in> {..<kMaxSymbols}" "?f i = ?f j"
    then have "find_entry (?f i) pm = Some i" "find_entry (?f i) pm = Some j"
      using assms by (simp_all add: find_entry_iff)
    then show "i = j" by simp
  qed
  then have "kMaxSymbols = card (?f ` {..<kMaxSymbols})" by (simp add: card_image)
  moreover have "?f ` {..<kMaxSymbols} \<subseteq> tracked_keys pm"
    using assms find_entry_iff [OF assms(1)] by (fastforce simp: tracked_keys_def tracked_def)
  moreover have "finite (tracked_keys pm)" by simp
  ultimately show ?thesis by (metis card_mono)
qed

lemma registerSymbol_laws:
  assumes inv: "pm_inv pm" and k: "valid_key (symbolToKey symbol)"
    and room: "tracked pm (symbolToKey symbol) \<or> card (tracked_keys pm) < kMaxSymbols"
  shows "pm_inv (registerSymbol symbol pm)"
    and "tracked_keys (registerSymbol symbol pm) = insert (symbolToKey symbol) (tracked_keys pm)"
    and "valid_key k' \<Longrightarrow> position (registerSymbol symbol pm) k' = position pm k'"
proof -
  obtain slot pm1 where f: "findOrInsert (symbolToKey symbol) pm = (slot, pm1)" by fastforce
  have "slot \<noteq> None"
  proof
    assume "slot = None"
    with f have n: "findOrInsert (symbolToKey symbol) pm = (None, pm1)" by simp
    then have "\<not> tracked pm (symbolToKey symbol)" using findOrInsert_None(2) [OF inv] by (simp add: tracked_def)
    moreover have "kMaxSymbols \<le> card (tracked_keys pm)"
      using findOrInsert_None(3) [OF inv n] by (intro tracked_keys_full [OF inv]) simp
    ultimately show False using room by simp
  qed
  then obtain j where f: "findOrInsert (symbolToKey symbol) pm = (Some j, pm1)" using f by auto
  have r: "registerSymbol symbol pm = pm1" using f by (simp add: registerSymbol_def)
  show "pm_inv (registerSymbol symbol pm)" using findOrInsert_inv [OF inv k f] r by simp
  show "tracked_keys (registerSymbol symbol pm) = insert (symbolToKey symbol) (tracked_keys pm)"
    using findOrInsert_tracks [OF inv k f] k r by (auto simp: tracked_keys_def)
  show "position (registerSymbol symbol pm) k' = position pm k'" if "valid_key k'"
    using findOrInsert_position [OF inv k f that] r by simp
qed

lemma registerAll_laws:
  assumes "pm_inv pm" and "\<forall>symbol \<in> set syms. valid_key (symbolToKey symbol)"
    and "card (tracked_keys pm) + length syms \<le> kMaxSymbols"
  shows "pm_inv (registerAll syms pm) \<and>
    tracked_keys (registerAll syms pm) = symbolToKey ` set syms \<union> tracked_keys pm \<and>
    (\<forall>k. valid_key k \<longrightarrow> position (registerAll syms pm) k = position pm k)"
  using assms
proof (induction syms arbitrary: pm)
  case (Cons symbol syms)
  note laws = registerSymbol_laws [of pm symbol]
  have "card (insert (symbolToKey symbol) (tracked_keys pm)) \<le> Suc (card (tracked_keys pm))"
    by (rule card_insert_le_m1) simp_all
  then have "card (tracked_keys (registerSymbol symbol pm)) + length syms \<le> kMaxSymbols"
    using Cons.prems laws by simp
  then show ?case
    using Cons.IH [of "registerSymbol symbol pm"] Cons.prems laws by (auto simp: registerAll_def)
qed (simp add: registerAll_def)

lemma tracked_keys_new: "tracked_keys new_PositionManager = {}"
proof -
  have "e_key (pm_table new_PositionManager ! j) = kEmptySlot" if "j < kMaxSymbols" for j
    using that by (simp add: new_PositionManager_def empty_Entry_def)
  then show ?thesis
    using find_entry_iff [OF pm_inv_new] by (fastforce simp: tracked_keys_def tracked_def)
qed

lemma position_new: "valid_key k \<Longrightarrow> position new_PositionManager k = empty_Entry\<lparr>e_key := k\<rparr>"
  using tracked_keys_new by (auto simp: position_def tracked_keys_def tracked_def split: option.splits)

section \<open>Runs of fills\<close>

text \<open>The price of a fill in ticks, as \<open>onFill\<close> scales it.\<close>

definition ticks :: "Fill \<Rightarrow> int" where
  "ticks fill = (case scaled_price (fill_price fill) of None \<Rightarrow> 0 | Some p \<Rightarrow> p)"

definition fill_signed :: "Fill \<Rightarrow> int" where
  "fill_signed fill = signed_qty (fill_side fill) (fill_quantity fill)"

definition net_fills :: "u64 \<Rightarrow> Fill list \<Rightarrow> int" where
  "net_fills k fs = sum_list (map fill_signed (filter (\<lambda>fill. fill_key fill = k) fs))"

text \<open>The cash the fills of a key brought in: sells at their price less buys at theirs.\<close>

definition cash_flow :: "u64 \<Rightarrow> Fill list \<Rightarrow> int" where
  "cash_flow k fs = - sum_list (map (\<lambda>fill. ticks fill * fill_signed fill) (filter (\<lambda>fill. fill_key fill = k) fs))"

definition good_fill :: "int \<Rightarrow> PositionManager \<Rightarrow> Fill \<Rightarrow> bool" where
  "good_fill P pm fill \<longleftrightarrow> valid_key (fill_key fill) \<and> tracked pm (fill_key fill) \<and>
     0 \<le> fill_quantity fill \<and> scaled_price (fill_price fill) = Some (ticks fill) \<and>
     0 \<le> ticks fill \<and> ticks fill \<le> P"

definition acct_fills :: "u64 \<Rightarrow> Fill list \<Rightarrow> acct \<Rightarrow> acct" where
  "acct_fills k fs a =
     fold (\<lambda>fill a. if fill_key fill = k then acct_fill (fill_signed fill) (ticks fill) a else a) fs a"

definition book_exact :: "int \<Rightarrow> int \<Rightarrow> PositionManager \<Rightarrow> (u64 \<Rightarrow> acct) \<Rightarrow> bool" where
  "book_exact B P pm A \<longleftrightarrow> pm_inv pm \<and>
     (\<forall>k. valid_key k \<longrightarrow> entry_exact (position pm k) (A k) \<and> acct_bounded B P (A k))"

lemma abs_fill_signed: "0 \<le> fill_quantity fill \<Longrightarrow> \<bar>fill_signed fill\<bar> = fill_quantity fill"
  by (cases "fill_side fill") (simp_all add: fill_signed_def)

lemma acct_fills_pos: "a_pos (acct_fills k fs a) = a_pos a + net_fills k fs"
  by (induction fs arbitrary: a) (auto simp: acct_fills_def net_fills_def acct_fill_pos)

lemma acct_fills_cash: "acct_cash (acct_fills k fs a) = acct_cash a + cash_flow k fs"
  by (induction fs arbitrary: a) (auto simp: acct_fills_def cash_flow_def acct_fill_cash)

lemma acct_bounded_mono: "acct_bounded B P a \<Longrightarrow> B \<le> B' \<Longrightarrow> acct_bounded B' P a"
  by (simp add: acct_bounded_def)

lemma onFill_exact:
  assumes book: "book_exact B P pm A" and good: "good_fill P pm fill"
    and Q: "no_overflow Q P" and B: "B + fill_quantity fill \<le> Q"
  obtains pm1 where "onFill fill pm = Some pm1"
    and "book_exact (B + fill_quantity fill) P pm1 (\<lambda>k. acct_fills k [fill] (A k))"
    and "\<And>g. good_fill P pm g \<Longrightarrow> good_fill P pm1 g"
proof -
  let ?k = "fill_key fill" and ?q = "fill_quantity fill"
  have inv: "pm_inv pm" and k: "valid_key ?k" and t: "tracked pm ?k" and q: "0 \<le> ?q"
    and p: "scaled_price (fill_price fill) = Some (ticks fill)" "0 \<le> ticks fill" "ticks fill \<le> P"
    using book good by (simp_all add: book_exact_def good_fill_def)
  have bd: "acct_bounded B P (A ?k)" and ex: "entry_exact (position pm ?k) (A ?k)"
    using book k by (simp_all add: book_exact_def)
  have pos: "\<bar>a_pos (A ?k) + signed_qty (fill_side fill) ?q\<bar> \<le> B + ?q"
    using bd abs_fill_signed [OF q] by (auto simp: acct_bounded_def fill_signed_def)
  have bdQ: "acct_bounded Q P (A ?k)" using acct_bounded_mono [OF bd] B q by simp
  have posQ: "\<bar>a_pos (A ?k) + signed_qty (fill_side fill) ?q\<bar> \<le> Q" using pos B by linarith
  obtain e' where e': "fill_entry (fill_side fill) (ticks fill) ?q (position pm ?k) = Some e'"
    "entry_exact e' (acct_fill (fill_signed fill) (ticks fill) (A ?k))"
    by (rule fill_entry_exact [OF ex position_ok [OF inv] bdQ Q q posQ p(2,3)]) (simp add: fill_signed_def)
  obtain j where j: "findOrInsert ?k pm = (Some j, pm)" "find_entry ?k pm = Some j"
    "pm_table pm ! j = position pm ?k"
    using findOrInsert_tracked [OF inv k t] by metis
  define pm1 where "pm1 = pm\<lparr>pm_table := (pm_table pm)[j := e']\<rparr>"
  have run: "onFill fill pm = Some pm1"
    using j e'(1) p(1) by (simp add: onFill_eq pm1_def)
  have ok: "e_key e' = ?k" "entry_ok e'"
    using fill_entry_fields(1) [OF e'(1)] fill_entry_ok [OF e'(1)] inv k position_ok [OF inv] by simp_all
  note L = set_slot_laws [OF inv j(2) k ok, folded pm1_def]
  have "acct_bounded (B + ?q) P (acct_fills k' [fill] (A k'))" if "valid_key k'" for k'
    using book that q p pos
    by (auto simp: book_exact_def acct_bounded_def acct_fills_def acct_fill_sound acct_fill_pos fill_signed_def)
  then have "book_exact (B + ?q) P pm1 (\<lambda>k. acct_fills k [fill] (A k))"
    using L(1,2) e'(2) book by (auto simp: book_exact_def acct_fills_def)
  moreover have "good_fill P pm g \<Longrightarrow> good_fill P pm1 g" for g
    using L(3) by (simp add: good_fill_def)
  ultimately show thesis using run by (intro that)
qed

lemma onFills_exact:
  assumes "book_exact B P pm A" and "\<forall>fill \<in> set fs. good_fill P pm fill"
    and "no_overflow Q P" and "B + sum_list (map fill_quantity fs) \<le> Q"
  shows "\<exists>pm'. run_list onFill fs pm = Some pm' \<and>
    book_exact (B + sum_list (map fill_quantity fs)) P pm' (\<lambda>k. acct_fills k fs (A k))"
  using assms
proof (induction fs arbitrary: pm A B)
  case Nil
  then show ?case by (simp add: acct_fills_def)
next
  case (Cons fill fs)
  have "0 \<le> sum_list (map fill_quantity fs)"
    using Cons.prems(2) by (intro sum_list_nonneg) (auto simp: good_fill_def)
  then obtain pm1 where pm1: "onFill fill pm = Some pm1"
    "book_exact (B + fill_quantity fill) P pm1 (\<lambda>k. acct_fills k [fill] (A k))"
    "\<And>g. good_fill P pm g \<Longrightarrow> good_fill P pm1 g"
    using Cons.prems by (elim onFill_exact [of B P pm A fill Q]) auto
  have "\<exists>pm'. run_list onFill fs pm1 = Some pm' \<and>
      book_exact (B + fill_quantity fill + sum_list (map fill_quantity fs)) P pm'
        (\<lambda>k. acct_fills k fs (acct_fills k [fill] (A k)))"
    using Cons.prems pm1 by (intro Cons.IH) (auto simp: add.assoc)
  then show ?case using pm1(1) by (auto simp: acct_fills_def add.assoc)
qed

section \<open>Properties\<close>

lemma scaled_price_tick:
  assumes "1 \<le> k" and "k \<le> 2 ^ 50"
  shows "scaled_price (tick_price k) = Some k"
proof -
  obtain t where t: "fp_mul binary64 (tick_price k) (Fin 10000) = Fin t" "\<bar>t - of_int k\<bar> < 1 / 2"
    using tick_price_scaled [OF assms] .
  have "fp_of_int binary64 SCALING_FACTOR = Fin 10000"
    using fp_round_exact [of 10000 binary64] by (simp add: fp_of_int_def SCALING_FACTOR_def)
  moreover have "in_i64 k" using assms by (simp add: in_i64_def)
  ultimately show ?thesis
    using t round_away_near [OF t(2)] by (simp add: scaled_price_def)
qed

text \<open>Scaling is exact on decimal prices: a fill price of \<open>k\<close> ten-thousandths of a dollar,
  received as the nearest \<open>double\<close>, is scaled back to exactly \<open>k\<close> by \<open>llround(price * SCALING_FACTOR)\<close>,
  for every price from one tick up to \<open>2\<^sup>5\<^sup>0\<close> ticks.\<close>

theorem price_scaling_exact:
  assumes "1 \<le> k" and "k \<le> 2 ^ 50"
  shows "scaled_price (tick_price k) = Some k"
  using assms by (rule scaled_price_tick)

theorem price_scaling_exact_witness:
  "(1 :: int) \<le> 1502501 \<and> (1502501 :: int) \<le> 2 ^ 50 \<and> scaled_price (tick_price 1502501) = Some 1502501"
  using price_scaling_exact [of 1502501] by simp

text \<open>C9. Profit and loss: from flat positions, any sequence of fills (any symbols, any order of buys
  and sells, through zero and back) whose total quantity \<open>Q\<close> and highest price \<open>P\<close> satisfy
  \<open>Q\<^sup>2 P < 2\<^sup>6\<^sup>3\<close> runs without undefined behaviour; afterwards the filled position, the cost basis and the realised
  profit (modulo \<open>2\<^sup>6\<^sup>4\<close>) of every symbol are those of average-cost accounting of its fills over unbounded
  integers (\<open>acct_fill\<close>: a fill against the position takes out the closed share of the cost, rounded towards
  zero, and realises the difference). In particular the position is the net quantity, profit less cost basis
  is exactly the cash the fills moved, and a flat position has no cost left.\<close>

theorem pnl_of_fills:
  assumes inv: "pm_inv pm"
    and flat: "\<forall>k. valid_key k \<longrightarrow> entry_exact (position pm k) \<lparr>a_pos = 0, a_cost = 0, a_pnl = 0\<rparr>"
    and good: "\<forall>fill \<in> set fs. good_fill P pm fill"
    and bound: "no_overflow (sum_list (map fill_quantity fs)) P"
    and k: "valid_key (symbolToKey symbol)"
  shows "\<exists>pm'. run_list onFill fs pm = Some pm' \<and> pm_inv pm' \<and>
    (let a = acct_fills (symbolToKey symbol) fs \<lparr>a_pos = 0, a_cost = 0, a_pnl = 0\<rparr>
     in getFilledPosition symbol pm' = a_pos a \<and> getCostBasis symbol pm' = a_cost a \<and> getRealizedPnl symbol pm' = wrap_i64 (a_pnl a)) \<and>
    getFilledPosition symbol pm' = net_fills (symbolToKey symbol) fs \<and>
    getRealizedPnl symbol pm' =
      wrap_i64 (cash_flow (symbolToKey symbol) fs + getCostBasis symbol pm') \<and>
    (net_fills (symbolToKey symbol) fs = 0 \<longrightarrow> getCostBasis symbol pm' = 0)"
proof -
  let ?Q = "sum_list (map fill_quantity fs)" and ?z = "\<lparr>a_pos = 0, a_cost = 0, a_pnl = 0\<rparr> :: acct"
  let ?a = "acct_fills (symbolToKey symbol) fs ?z"
  have "book_exact 0 P pm (\<lambda>_. ?z)"
    using inv flat by (simp add: book_exact_def acct_bounded_def acct_sound_def)
  from onFills_exact [OF this good bound] obtain pm' where
    run: "run_list onFill fs pm = Some pm'" and ex: "book_exact ?Q P pm' (\<lambda>k. acct_fills k fs ?z)"
    by auto
  have e: "entry_exact (position pm' (symbolToKey symbol)) ?a" and b: "acct_bounded ?Q P ?a"
    using ex k by (simp_all add: book_exact_def)
  have "a_pnl ?a = cash_flow (symbolToKey symbol) fs + a_cost ?a"
    using acct_fills_cash [of "symbolToKey symbol" fs ?z] by (simp add: acct_cash_def)
  moreover have "a_pos ?a = net_fills (symbolToKey symbol) fs"
    using acct_fills_pos [of "symbolToKey symbol" fs ?z] by simp
  moreover have "a_pos ?a = 0 \<longrightarrow> a_cost ?a = 0"
    using b by (auto simp: acct_bounded_def acct_sound_flat)
  ultimately show ?thesis
    using run ex e by (auto simp: book_exact_def entry_exact_def getters_position Let_def)
qed

text \<open>A fresh book with its symbols registered, as the engine's constructor leaves it.\<close>

lemma fresh_book:
  assumes "\<forall>symbol \<in> set syms. valid_key (symbolToKey symbol)" and "length syms \<le> kMaxSymbols"
  shows "pm_inv (registerAll syms new_PositionManager)"
    and "\<forall>symbol \<in> set syms. tracked (registerAll syms new_PositionManager) (symbolToKey symbol)"
    and "valid_key k \<Longrightarrow> position (registerAll syms new_PositionManager) k = empty_Entry\<lparr>e_key := k\<rparr>"
proof -
  have "card (tracked_keys new_PositionManager) + length syms \<le> kMaxSymbols"
    using assms(2) by (simp add: tracked_keys_new)
  note L = registerAll_laws [OF pm_inv_new assms(1) this]
  show "pm_inv (registerAll syms new_PositionManager)" using L by simp
  show "\<forall>symbol \<in> set syms. tracked (registerAll syms new_PositionManager) (symbolToKey symbol)"
  proof
    fix symbol assume "symbol \<in> set syms"
    then have "symbolToKey symbol \<in> tracked_keys (registerAll syms new_PositionManager)" using L by blast
    then show "tracked (registerAll syms new_PositionManager) (symbolToKey symbol)"
      by (simp add: tracked_keys_def)
  qed
  show "position (registerAll syms new_PositionManager) k = empty_Entry\<lparr>e_key := k\<rparr>" if "valid_key k"
    using L that by (simp add: position_new)
qed

lemma fresh_book_flat:
  assumes "\<forall>symbol \<in> set syms. valid_key (symbolToKey symbol)" and "length syms \<le> kMaxSymbols"
  shows "\<forall>k. valid_key k \<longrightarrow> entry_exact (position (registerAll syms new_PositionManager) k)
    \<lparr>a_pos = 0, a_cost = 0, a_pnl = 0\<rparr>"
  using fresh_book(3) [OF assms] by (simp add: entry_exact_def empty_Entry_def)

definition demo_fills :: "Fill list" where
  "demo_fills =
     [\<lparr>fill_symbol = copy_buf 8 ''AAPL'', fill_executionId = 0, fill_orderId = 0, fill_side = Buy,
       fill_quantity = 100, fill_price = tick_price 1500000\<rparr>,
      \<lparr>fill_symbol = copy_buf 8 ''AAPL'', fill_executionId = 0, fill_orderId = 0, fill_side = Sell,
       fill_quantity = 100, fill_price = tick_price 1510000\<rparr>]"

lemma AAPL_key: "symbolToKey ''AAPL'' = 0x4c504141" "symbolBufferToKey (copy_buf 8 ''AAPL'') = 0x4c504141"
  by (simp_all add: symbolToKey_def symbolBufferToKey_def copy_buf_def eval_nat_numeral)

theorem pnl_of_fills_witness:
  "\<exists>pm'. run_list onFill demo_fills (registerAll [''AAPL''] new_PositionManager) = Some pm' \<and>
    getFilledPosition ''AAPL'' pm' = 0 \<and> getCostBasis ''AAPL'' pm' = 0 \<and>
    getRealizedPnl ''AAPL'' pm' = 1000000"
proof -
  let ?pm = "registerAll [''AAPL''] new_PositionManager"
  have syms: "\<forall>symbol \<in> set [''AAPL'']. valid_key (symbolToKey symbol)" "length [''AAPL''] \<le> kMaxSymbols"
    by (simp_all add: AAPL_key kEmptySlot_def kMaxSymbols_def)
  have good: "\<forall>fill \<in> set demo_fills. good_fill 2000000 ?pm fill"
    using fresh_book(2) [OF syms] syms(1)
    by (simp add: demo_fills_def good_fill_def ticks_def scaled_price_tick AAPL_key)
  have v: "valid_key (symbolToKey ''AAPL'')" using syms(1) by simp
  have q: "sum_list (map fill_quantity demo_fills) = 200" by (simp add: demo_fills_def)
  have nf: "net_fills (symbolToKey ''AAPL'') demo_fills = 0"
    by (simp add: demo_fills_def net_fills_def fill_signed_def AAPL_key)
  have cf: "cash_flow (symbolToKey ''AAPL'') demo_fills = 1000000"
    by (simp add: demo_fills_def cash_flow_def fill_signed_def ticks_def scaled_price_tick AAPL_key)
  have in64: "in_i64 1000000" by (simp add: in_i64_def)
  show ?thesis
    using pnl_of_fills [OF fresh_book(1) [OF syms] fresh_book_flat [OF syms] good _ v] q nf cf in64
    by (auto simp: no_overflow_def)
qed

text \<open>Exposure: over any sequence of orders sent, orders cancelled and fills on valid symbols, the
  filled plus pending quantity of a tracked symbol changes by the orders sent less the orders
  cancelled on that symbol, modulo \<open>2\<^sup>6\<^sup>4\<close>: fills only move quantity from pending to filled, and
  operations on other symbols have no effect.\<close>

theorem exposure_of_run:
  assumes "pm_inv pm" and "\<forall>op \<in> set ops. valid_key (op_key op)"
    and "valid_key (symbolToKey symbol)" and "tracked pm (symbolToKey symbol)"
    and "run_list apply_op ops pm = Some pm'"
  shows "wrap_i64 (getFilledPosition symbol pm' + getPendingPosition symbol pm') =
    wrap_i64 (getFilledPosition symbol pm + getPendingPosition symbol pm +
      net (\<lambda>op. case op of Sent ord \<Rightarrow> signed_qty (ord_side ord) (ord_quantity ord)
                | Cancelled ord \<Rightarrow> - signed_qty (ord_side ord) (ord_quantity ord)
                | Filled fill \<Rightarrow> 0) (symbolToKey symbol) ops)"
proof -
  have "(\<lambda>op. op_filled op + op_pending op) =
      (\<lambda>op. case op of Sent ord \<Rightarrow> signed_qty (ord_side ord) (ord_quantity ord)
        | Cancelled ord \<Rightarrow> - signed_qty (ord_side ord) (ord_quantity ord) | Filled fill \<Rightarrow> 0)"
    by (auto simp: fun_eq_iff split: book_op.splits)
  then show ?thesis
    using pm_book.run_exposure [OF assms(5,1,2,3,4)] by (simp add: getters_position)
qed

definition demo_order :: "OrderSide \<Rightarrow> i64 \<Rightarrow> Order" where
  "demo_order side qty = zero_Order\<lparr>ord_symbol := copy_buf 8 ''AAPL'', ord_side := side, ord_quantity := qty\<rparr>"

definition demo_ops :: "book_op list" where
  "demo_ops = [Sent (demo_order Buy 100), Sent (demo_order Sell 30), Cancelled (demo_order Sell 30)]"

lemma AAPL_syms: "\<forall>symbol \<in> set [''AAPL'']. valid_key (symbolToKey symbol)" "length [''AAPL''] \<le> kMaxSymbols"
  by (simp_all add: AAPL_key kEmptySlot_def kMaxSymbols_def)

lemma order_ops_total:
  assumes "in_i64 (- ord_quantity ord)" and "in_i64 (ord_quantity ord)"
  shows "\<exists>pm'. onOrderSent ord pm = Some pm'" and "\<exists>pm'. onOrderCancelled ord pm = Some pm'"
  using assms by (auto simp: onOrderSent_def onOrderCancelled_def i64_ops_defs chk_i64_def Let_def split: prod.splits option.splits)

lemma demo_ops_run: "\<exists>pm'. run_list apply_op demo_ops pm = Some pm'"
proof -
  have t: "\<exists>pm'. onOrderSent (demo_order side qty) pm = Some pm'" "\<exists>pm'. onOrderCancelled (demo_order side qty) pm = Some pm'"
    if "in_i64 (- qty)" "in_i64 qty" for side qty pm
    using order_ops_total [of "demo_order side qty" pm] that by (simp_all add: demo_order_def)
  have i: "in_i64 100" "in_i64 (- 100)" "in_i64 30" "in_i64 (- 30)" by (simp_all add: in_i64_def)
  obtain pm1 where 1: "onOrderSent (demo_order Buy 100) pm = Some pm1" using t(1) i by blast
  obtain pm2 where 2: "onOrderSent (demo_order Sell 30) pm1 = Some pm2" using t(1) i by blast
  obtain pm3 where 3: "onOrderCancelled (demo_order Sell 30) pm2 = Some pm3" using t(2) i by blast
  show ?thesis by (simp add: demo_ops_def 1 2 3)
qed

lemma demo_ops_keys: "\<forall>op \<in> set demo_ops. valid_key (op_key op)"
  by (simp add: demo_ops_def demo_order_def AAPL_key kEmptySlot_def)

theorem exposure_of_run_witness:
  "\<exists>pm'. run_list apply_op demo_ops (registerAll [''AAPL''] new_PositionManager) = Some pm' \<and>
    wrap_i64 (getFilledPosition ''AAPL'' pm' + getPendingPosition ''AAPL'' pm') = 100"
proof -
  let ?pm = "registerAll [''AAPL''] new_PositionManager"
  obtain pm' where run: "run_list apply_op demo_ops ?pm = Some pm'" using demo_ops_run by blast
  have v: "valid_key (symbolToKey ''AAPL'')" and t: "tracked ?pm (symbolToKey ''AAPL'')"
    using AAPL_syms(1) fresh_book(2) [OF AAPL_syms] by simp_all
  have "in_i64 100" by (simp add: in_i64_def)
  then show ?thesis
    using exposure_of_run [OF fresh_book(1) [OF AAPL_syms] demo_ops_keys v t run] run v
      fresh_book(3) [OF AAPL_syms]
    by (simp add: getters_position empty_Entry_def demo_ops_def demo_order_def AAPL_key signed_qty_def)
qed

text \<open>C10. The position table: after registering up to 256 symbols (as the engine's constructor does),
  any sequence of orders sent, orders cancelled and fills that runs leaves the table well formed
  (every key found where its probe path leads, every field in range), every registered symbol still
  has its entry, and the entry's filled and pending quantities are exactly the sums of that symbol's
  operations modulo \<open>2\<^sup>6\<^sup>4\<close>, whatever the hashes of the symbols.\<close>

theorem registered_book_run:
  assumes "\<forall>symbol \<in> set syms. valid_key (symbolToKey symbol)" and "length syms \<le> kMaxSymbols"
    and "\<forall>op \<in> set ops. valid_key (op_key op)" and "symbol \<in> set syms"
    and "run_list apply_op ops (registerAll syms new_PositionManager) = Some pm"
  shows "pm_inv pm \<and> tracked pm (symbolToKey symbol) \<and>
    getFilledPosition symbol pm = wrap_i64 (net op_filled (symbolToKey symbol) ops) \<and>
    getPendingPosition symbol pm = wrap_i64 (net op_pending (symbolToKey symbol) ops)"
proof -
  note new = fresh_book [OF assms(1,2)]
  have v: "valid_key (symbolToKey symbol)" and t: "tracked (registerAll syms new_PositionManager) (symbolToKey symbol)"
    using assms(1,4) new(2) by simp_all
  have inv: "pm_inv pm" by (rule pm_book.run_inv [OF assms(5) new(1) assms(3)])
  show ?thesis
    using pm_book.run_quantities [OF assms(5) new(1) assms(3) v t] inv position_ok [OF inv] new(3) [OF v] v
    by (simp add: getters_position empty_Entry_def entry_ok_def)
qed

theorem registered_book_run_witness:
  "\<exists>pm. run_list apply_op demo_ops (registerAll [''AAPL''] new_PositionManager) = Some pm \<and> pm_inv pm \<and>
    getFilledPosition ''AAPL'' pm = 0 \<and> getPendingPosition ''AAPL'' pm = 100"
proof -
  obtain pm where run: "run_list apply_op demo_ops (registerAll [''AAPL''] new_PositionManager) = Some pm"
    using demo_ops_run by blast
  have "in_i64 100" by (simp add: in_i64_def)
  then show ?thesis
    using registered_book_run [OF AAPL_syms demo_ops_keys _ run, of "''AAPL''"] run
    by (simp add: demo_ops_def demo_order_def AAPL_key signed_qty_def)
qed

end
