(* ===== verification/Order_Cooldown.thy ===== *)
theory Order_Cooldown
  imports Trading_Types
begin

text \<open>
  \<open>OrderCooldown\<close> (\<open>include/OrderCooldown.hpp\<close>, \<open>src/OrderCooldown.cpp\<close>): the minimum time between
  two orders on one symbol. The object is its 64 slots, the number of slots in use and the
  interval; the reading of \<open>nowNanos()\<close> is an argument of \<open>checkAndUpdate\<close>.
\<close>

section \<open>State and operations\<close>

record CooldownSlot =
  cs_symbol :: string
  cs_last_order_time :: u64

record OrderCooldown =
  oc_slots :: "CooldownSlot list"
  oc_num_symbols :: u32
  oc_cooldown_ns :: u64

definition cooldown_kMaxSymbols :: u32 where
  "cooldown_kMaxSymbols = 64"

definition kDefaultCooldownNs :: u64 where
  "kDefaultCooldownNs = 100000000"

definition new_OrderCooldown :: "u64 \<Rightarrow> OrderCooldown" where
  "new_OrderCooldown cooldown_ns =
     \<lparr>oc_slots = replicate (unat cooldown_kMaxSymbols) \<lparr>cs_symbol = replicate 8 NUL, cs_last_order_time = 0\<rparr>,
      oc_num_symbols = 0, oc_cooldown_ns = cooldown_ns\<rparr>"

definition cooldown_registerSymbol :: "string \<Rightarrow> OrderCooldown \<Rightarrow> OrderCooldown" where
  "cooldown_registerSymbol symbol oc =
     (if oc_num_symbols oc \<ge> cooldown_kMaxSymbols then oc
      else oc\<lparr>oc_slots := (oc_slots oc)[unat (oc_num_symbols oc) :=
                \<lparr>cs_symbol = copy_buf 8 symbol, cs_last_order_time = 0\<rparr>],
              oc_num_symbols := oc_num_symbols oc + 1\<rparr>)"

fun check_loop :: "string \<Rightarrow> u64 \<Rightarrow> nat list \<Rightarrow> OrderCooldown \<Rightarrow> bool \<times> OrderCooldown" where
  "check_loop symbol now [] oc = (False, oc)"
| "check_loop symbol now (i # is) oc =
     (let slot = oc_slots oc ! i
      in if cs_symbol slot = symbol
         then if now - cs_last_order_time slot < oc_cooldown_ns oc then (False, oc)
              else (True, oc\<lparr>oc_slots := (oc_slots oc)[i := slot\<lparr>cs_last_order_time := now\<rparr>]\<rparr>)
         else check_loop symbol now is oc)"

definition checkAndUpdate :: "string \<Rightarrow> u64 \<Rightarrow> OrderCooldown \<Rightarrow> bool \<times> OrderCooldown" where
  "checkAndUpdate symbol now oc = check_loop symbol now [0..<unat (oc_num_symbols oc)] oc"

definition cooldownNs :: "OrderCooldown \<Rightarrow> u64" where
  "cooldownNs oc = oc_cooldown_ns oc"

section \<open>The slots as a map from symbols to times\<close>

definition oc_inv :: "OrderCooldown \<Rightarrow> bool" where
  "oc_inv oc \<longleftrightarrow> length (oc_slots oc) = 64 \<and> oc_num_symbols oc \<le> cooldown_kMaxSymbols"

abbreviation used_slots :: "OrderCooldown \<Rightarrow> CooldownSlot list" where
  "used_slots oc \<equiv> take (unat (oc_num_symbols oc)) (oc_slots oc)"

definition slot_of :: "string \<Rightarrow> OrderCooldown \<Rightarrow> nat option" where
  "slot_of symbol oc = List.find (\<lambda>i. cs_symbol (oc_slots oc ! i) = symbol) [0..<unat (oc_num_symbols oc)]"

definition last_order :: "OrderCooldown \<Rightarrow> string \<Rightarrow> u64 option" where
  "last_order oc symbol = map_option (\<lambda>i. cs_last_order_time (oc_slots oc ! i)) (slot_of symbol oc)"

lemma oc_inv_num: "oc_inv oc \<Longrightarrow> unat (oc_num_symbols oc) \<le> 64"
  by (simp add: oc_inv_def cooldown_kMaxSymbols_def word_le_nat_alt)

lemma slot_of_SomeD:
  assumes "slot_of symbol oc = Some i"
  shows "i < unat (oc_num_symbols oc)" and "cs_symbol (oc_slots oc ! i) = symbol"
  using assms by (auto simp: slot_of_def find_Some_iff)

lemma slot_of_None: "slot_of symbol oc = None \<longleftrightarrow> (\<forall>i < unat (oc_num_symbols oc). cs_symbol (oc_slots oc ! i) \<noteq> symbol)"
  by (auto simp: slot_of_def find_None_iff)

lemma checkAndUpdate_eq:
  "checkAndUpdate symbol now oc =
     (case slot_of symbol oc of None \<Rightarrow> (False, oc)
      | Some i \<Rightarrow> if now - cs_last_order_time (oc_slots oc ! i) < oc_cooldown_ns oc then (False, oc)
          else (True, oc\<lparr>oc_slots := (oc_slots oc)[i := (oc_slots oc ! i)\<lparr>cs_last_order_time := now\<rparr>]\<rparr>))"
proof -
  have "check_loop symbol now is oc =
     (case List.find (\<lambda>i. cs_symbol (oc_slots oc ! i) = symbol) is of None \<Rightarrow> (False, oc)
      | Some i \<Rightarrow> if now - cs_last_order_time (oc_slots oc ! i) < oc_cooldown_ns oc then (False, oc)
          else (True, oc\<lparr>oc_slots := (oc_slots oc)[i := (oc_slots oc ! i)\<lparr>cs_last_order_time := now\<rparr>]\<rparr>))" for "is"
    by (induction "is") (simp_all add: Let_def)
  then show ?thesis by (simp only: checkAndUpdate_def slot_of_def)
qed

lemma slot_of_update:
  assumes "i < length (oc_slots oc)" and "cs_symbol s = cs_symbol (oc_slots oc ! i)"
  shows "slot_of symbol (oc\<lparr>oc_slots := (oc_slots oc)[i := s]\<rparr>) = slot_of symbol oc"
proof -
  have "(\<lambda>j. cs_symbol ((oc_slots oc)[i := s] ! j) = symbol) = (\<lambda>j. cs_symbol (oc_slots oc ! j) = symbol)"
    using assms by (auto simp: fun_eq_iff nth_list_update)
  then show ?thesis by (simp add: slot_of_def)
qed

text \<open>What one check does, over the map: accepted exactly when the symbol is registered and its
  interval has passed, and then its time is the clock's.\<close>

lemma checkAndUpdate_spec:
  assumes "oc_inv oc" and "checkAndUpdate symbol now oc = (ok, oc')"
  shows "ok \<longleftrightarrow> (\<exists>t. last_order oc symbol = Some t \<and> oc_cooldown_ns oc \<le> now - t)"
    and "last_order oc' = (if ok then (last_order oc)(symbol \<mapsto> now) else last_order oc)"
    and "oc_inv oc'" and "oc_cooldown_ns oc' = oc_cooldown_ns oc"
proof -
  show "ok \<longleftrightarrow> (\<exists>t. last_order oc symbol = Some t \<and> oc_cooldown_ns oc \<le> now - t)"
    using assms(2) by (auto simp: checkAndUpdate_eq last_order_def split: option.splits if_splits)
  show "oc_inv oc'" "oc_cooldown_ns oc' = oc_cooldown_ns oc"
    using assms by (auto simp: checkAndUpdate_eq oc_inv_def split: option.splits if_splits)
  show "last_order oc' = (if ok then (last_order oc)(symbol \<mapsto> now) else last_order oc)"
  proof (cases ok)
    case True
    then obtain i where i: "slot_of symbol oc = Some i" and
      oc': "oc' = oc\<lparr>oc_slots := (oc_slots oc)[i := (oc_slots oc ! i)\<lparr>cs_last_order_time := now\<rparr>]\<rparr>"
      using assms(2) by (auto simp: checkAndUpdate_eq split: option.splits if_splits)
    have li: "i < length (oc_slots oc)"
      using slot_of_SomeD(1) [OF i] oc_inv_num [OF assms(1)] assms(1) by (simp add: oc_inv_def)
    have "last_order oc' s = ((last_order oc)(symbol \<mapsto> now)) s" for s
    proof (cases "s = symbol")
      case True
      then show ?thesis using i li slot_of_update [OF li, of "(oc_slots oc ! i)\<lparr>cs_last_order_time := now\<rparr>" s]
        by (simp add: last_order_def oc')
    next
      case False
      have "j \<noteq> i" if "slot_of s oc = Some j" for j
        using slot_of_SomeD(2) [OF i] slot_of_SomeD(2) [OF that] False by auto
      then show ?thesis using False slot_of_update [OF li, of "(oc_slots oc ! i)\<lparr>cs_last_order_time := now\<rparr>" s]
        by (auto simp: last_order_def oc' split: option.splits intro!: option.map_cong)
    qed
    then show ?thesis using True by auto
  qed (use assms(2) in \<open>auto simp: checkAndUpdate_eq split: option.splits if_splits\<close>)
qed

section \<open>Registration\<close>

lemma oc_inv_new [simp]: "oc_inv (new_OrderCooldown cooldown_ns)"
  by (simp add: oc_inv_def new_OrderCooldown_def cooldown_kMaxSymbols_def)

lemma last_order_new [simp]: "last_order (new_OrderCooldown cooldown_ns) = Map.empty"
  by (simp add: fun_eq_iff last_order_def slot_of_def new_OrderCooldown_def)

lemma find_append: "List.find P (xs @ ys) = (case List.find P xs of None \<Rightarrow> List.find P ys | Some x \<Rightarrow> Some x)"
  by (induction xs) auto

lemma find_cong_set: "(\<And>x. x \<in> set xs \<Longrightarrow> P x = Q x) \<Longrightarrow> List.find P xs = List.find Q xs"
  by (induction xs) auto

lemma cooldown_registerSymbol_spec:
  assumes "oc_inv oc" and "unat (oc_num_symbols oc) < 64"
  shows "oc_inv (cooldown_registerSymbol symbol oc)"
    and "unat (oc_num_symbols (cooldown_registerSymbol symbol oc)) = Suc (unat (oc_num_symbols oc))"
    and "last_order (cooldown_registerSymbol symbol oc) = [copy_buf 8 symbol \<mapsto> 0] ++ last_order oc"
proof -
  let ?n = "unat (oc_num_symbols oc)" and ?oc = "cooldown_registerSymbol symbol oc"
  have room: "\<not> cooldown_kMaxSymbols \<le> oc_num_symbols oc"
    using assms(2) by (simp add: cooldown_kMaxSymbols_def word_le_nat_alt)
  have num: "unat (oc_num_symbols oc + 1) = Suc ?n"
    using assms(2) by (simp add: unat_word_ariths)
  show "unat (oc_num_symbols ?oc) = Suc ?n"
    using room num by (simp add: cooldown_registerSymbol_def)
  show "oc_inv ?oc"
    using assms num room
    by (simp add: cooldown_registerSymbol_def oc_inv_def cooldown_kMaxSymbols_def word_le_nat_alt)
  have len: "?n < length (oc_slots oc)" using assms by (simp add: oc_inv_def)
  have slots: "oc_slots ?oc = (oc_slots oc)[?n := \<lparr>cs_symbol = copy_buf 8 symbol, cs_last_order_time = 0\<rparr>]"
    "oc_num_symbols ?oc = oc_num_symbols oc + 1"
    using room by (simp_all add: cooldown_registerSymbol_def)
  have "slot_of s ?oc = (case slot_of s oc of None \<Rightarrow> if s = copy_buf 8 symbol then Some ?n else None | Some i \<Rightarrow> Some i)" for s
  proof -
    have "List.find (\<lambda>i. cs_symbol (oc_slots ?oc ! i) = s) [0..<?n] = slot_of s oc"
      unfolding slot_of_def by (rule find_cong_set) (simp add: slots)
    then show ?thesis
      using len by (auto simp: slot_of_def [of s ?oc] num slots find_append split: option.splits)
  qed
  then have "last_order ?oc s = ([copy_buf 8 symbol \<mapsto> 0] ++ last_order oc) s" for s
    using len slot_of_SomeD(1) [of s oc]
    by (auto simp: last_order_def slots map_add_def split: option.splits)
  then show "last_order ?oc = [copy_buf 8 symbol \<mapsto> 0] ++ last_order oc" by auto
qed

lemma cooldown_registerSymbol_full:
  "64 \<le> unat (oc_num_symbols oc) \<Longrightarrow> cooldown_registerSymbol symbol oc = oc"
  by (simp add: cooldown_registerSymbol_def cooldown_kMaxSymbols_def word_le_nat_alt)

text \<open>The registrations of the engine's constructor, in order.\<close>

definition cooldown_registerAll :: "string list \<Rightarrow> OrderCooldown \<Rightarrow> OrderCooldown" where
  "cooldown_registerAll syms oc = fold cooldown_registerSymbol syms oc"

lemma cooldown_registerAll_keeps:
  "oc_inv oc \<Longrightarrow> last_order oc s = Some t \<Longrightarrow> last_order (cooldown_registerAll syms oc) s = Some t"
proof (induction syms arbitrary: oc)
  case (Cons a syms)
  then show ?case using cooldown_registerSymbol_spec [of oc a] cooldown_registerSymbol_full [of oc a]
    by (cases "unat (oc_num_symbols oc) < 64") (auto simp: cooldown_registerAll_def map_add_def)
qed (simp add: cooldown_registerAll_def)

lemma cooldown_registerAll_spec:
  assumes "oc_inv oc"
  shows "oc_inv (cooldown_registerAll syms oc) \<and>
    dom (last_order (cooldown_registerAll syms oc)) =
      dom (last_order oc) \<union> copy_buf 8 ` set (take (64 - unat (oc_num_symbols oc)) syms) \<and>
    (\<forall>s. last_order oc s = None \<longrightarrow> last_order (cooldown_registerAll syms oc) s \<in> {None, Some 0}) \<and>
    oc_cooldown_ns (cooldown_registerAll syms oc) = oc_cooldown_ns oc"
  using assms
proof (induction syms arbitrary: oc)
  case (Cons symbol syms)
  show ?case
  proof (cases "unat (oc_num_symbols oc) < 64")
    case True
    note spec = cooldown_registerSymbol_spec [OF Cons.prems True, of symbol]
    have t: "take (64 - unat (oc_num_symbols oc)) (symbol # syms) =
        symbol # take (64 - Suc (unat (oc_num_symbols oc))) syms"
      using True by (simp add: take_Cons' Suc_diff_Suc)
    have cd: "oc_cooldown_ns (cooldown_registerSymbol symbol oc) = oc_cooldown_ns oc"
      by (simp add: cooldown_registerSymbol_def)
    have "last_order (cooldown_registerAll (symbol # syms) oc) s \<in> {None, Some 0}" if "last_order oc s = None" for s
    proof (cases "s = copy_buf 8 symbol")
      case False
      then show ?thesis using that Cons.IH [OF spec(1)] spec(3)
        by (auto simp: cooldown_registerAll_def map_add_def)
    next
      case True
      from cooldown_registerAll_keeps [OF spec(1), of s 0] show ?thesis using that True spec(3)
        by (simp add: cooldown_registerAll_def map_add_def)
    qed
    then show ?thesis
      using Cons.IH [OF spec(1)] spec(2,3) t cd by (auto simp: cooldown_registerAll_def)
  next
    case False
    then show ?thesis using Cons.IH [OF Cons.prems] cooldown_registerSymbol_full [of oc symbol]
      by (simp add: cooldown_registerAll_def)
  qed
qed (simp add: cooldown_registerAll_def)

section \<open>Sequences of checks\<close>

fun run_checks :: "(string \<times> u64) list \<Rightarrow> OrderCooldown \<Rightarrow> bool list \<times> OrderCooldown" where
  "run_checks [] oc = ([], oc)"
| "run_checks ((symbol, now) # calls) oc =
     (let (ok, oc) = checkAndUpdate symbol now oc; (oks, oc) = run_checks calls oc in (ok # oks, oc))"

lemma u64_later:
  fixes cd now t :: u64
  assumes "cd \<le> now - t" and "t \<le> now"
  shows "unat t + unat cd \<le> unat now"
proof -
  have "unat (now - t) = unat now - unat t" using assms(2) by (rule unat_sub)
  then show ?thesis using assms by (simp add: word_le_nat_alt)
qed

text \<open>After an order of \<open>symbol\<close> at time \<open>t\<close> and as long as the clock does not go back, no order of that
  symbol is accepted before the interval is over.\<close>

lemma run_checks_after:
  assumes "oc_inv oc" and "last_order oc symbol = Some t"
    and "sorted (map snd calls)" and "\<forall>now \<in> snd ` set calls. t \<le> now"
    and "j < length calls" and "fst (calls ! j) = symbol" and "fst (run_checks calls oc) ! j"
  shows "unat t + unat (oc_cooldown_ns oc) \<le> unat (snd (calls ! j))"
  using assms
proof (induction calls arbitrary: oc t j)
  case (Cons call calls)
  obtain s now where call: "call = (s, now)" by fastforce
  obtain ok oc1 where chk: "checkAndUpdate s now oc = (ok, oc1)" by fastforce
  note spec = checkAndUpdate_spec [OF Cons.prems(1) chk]
  have le: "t \<le> now" using Cons.prems(4) by (simp add: call)
  obtain t1 where t1: "last_order oc1 symbol = Some t1" "t1 = t \<or> t1 = now" "t1 \<le> now"
    "unat t \<le> unat t1"
    using spec(2) Cons.prems(2) le by (cases "ok \<and> s = symbol") (auto simp: word_le_nat_alt)
  show ?case
  proof (cases j)
    case 0
    then show ?thesis using Cons.prems(2,6,7) spec(1) le u64_later chk by (auto simp: call Let_def split: prod.splits)
  next
    case (Suc j')
    have "fst (run_checks calls oc1) ! j'"
      using Cons.prems(7) Suc chk by (auto simp: call split: prod.splits)
    moreover have "\<forall>now' \<in> snd ` set calls. t1 \<le> now'"
      using Cons.prems(3) t1(3) by (auto simp: call intro: order_trans)
    ultimately have "unat t1 + unat (oc_cooldown_ns oc1) \<le> unat (snd (calls ! j'))"
      using Cons.prems Suc t1(1) spec(3) by (intro Cons.IH) (auto simp: call)
    then show ?thesis using t1(4) spec(4) by (simp add: Suc)
  qed
qed simp

lemma run_checks_drop:
  assumes "oc_inv oc" and "i < length calls" and "fst (run_checks calls oc) ! i"
  shows "\<exists>oc1. oc_inv oc1 \<and> oc_cooldown_ns oc1 = oc_cooldown_ns oc \<and>
    last_order oc1 (fst (calls ! i)) = Some (snd (calls ! i)) \<and>
    (\<forall>j. fst (run_checks calls oc) ! (Suc i + j) = fst (run_checks (drop (Suc i) calls) oc1) ! j)"
  using assms
proof (induction calls arbitrary: oc i)
  case (Cons call calls)
  obtain s now where call: "call = (s, now)" by fastforce
  obtain ok oc1 where chk: "checkAndUpdate s now oc = (ok, oc1)" by fastforce
  note spec = checkAndUpdate_spec [OF Cons.prems(1) chk]
  have run: "fst (run_checks (call # calls) oc) = ok # fst (run_checks calls oc1)"
    using chk by (simp add: call split: prod.splits)
  show ?case
  proof (cases i)
    case 0
    then have "ok" using Cons.prems(3) by (simp add: run)
    then show ?thesis using spec 0 by (intro exI [of _ oc1]) (simp add: run, simp add: call)
  next
    case (Suc i')
    then have "fst (run_checks calls oc1) ! i'" using Cons.prems(3) by (simp add: run)
    then show ?thesis using Cons.IH [OF spec(3), of i'] Cons.prems(2) Suc spec(4) by (simp add: run)
  qed
qed simp

section \<open>Properties\<close>

text \<open>C11. Spacing of orders: for any sequence of checks with clock readings that do not go back, two
  accepted checks of the same symbol are at least the configured interval apart, whatever checks of
  this and other symbols happen in between.\<close>

theorem cooldown_spacing:
  assumes "oc_inv oc" and "sorted (map snd calls)" and "i < j" and "j < length calls"
    and "fst (calls ! i) = fst (calls ! j)"
    and "fst (run_checks calls oc) ! i" and "fst (run_checks calls oc) ! j"
  shows "unat (snd (calls ! i)) + unat (cooldownNs oc) \<le> unat (snd (calls ! j))"
proof -
  define n where "n = j - Suc i"
  have j: "j = Suc i + n" using assms(3) by (simp add: n_def)
  have i: "i < length calls" using assms(3,4) by simp
  obtain oc1 where oc1: "oc_inv oc1" "oc_cooldown_ns oc1 = oc_cooldown_ns oc"
    "last_order oc1 (fst (calls ! i)) = Some (snd (calls ! i))"
    "\<forall>j. fst (run_checks calls oc) ! (Suc i + j) = fst (run_checks (drop (Suc i) calls) oc1) ! j"
    using run_checks_drop [OF assms(1) i assms(6)] by blast
  have later: "snd (calls ! i) \<le> snd x" if "x \<in> set (drop (Suc i) calls)" for x
  proof -
    from that obtain k where k: "k < length calls - Suc i" "x = calls ! (Suc i + k)"
      by (auto simp: in_set_conv_nth)
    then have "map snd calls ! i \<le> map snd calls ! (Suc i + k)"
      using assms(2) by (intro sorted_nth_mono) auto
    then show ?thesis using k i by simp
  qed
  have "unat (snd (calls ! i)) + unat (oc_cooldown_ns oc1) \<le> unat (snd (drop (Suc i) calls ! n))"
    using oc1 later assms(2,4,5,7) j
    by (intro run_checks_after [OF oc1(1,3)]) (auto simp: drop_map [symmetric] sorted_wrt_drop)
  then show ?thesis using oc1(2) j assms(4) by (simp add: cooldownNs_def)
qed

definition demo_cooldown :: OrderCooldown where
  "demo_cooldown = cooldown_registerAll [''AAPL'', ''MSFT''] (new_OrderCooldown kDefaultCooldownNs)"

definition demo_checks :: "(string \<times> u64) list" where
  "demo_checks = [(copy_buf 8 ''AAPL'', 200000000), (copy_buf 8 ''MSFT'', 210000000),
     (copy_buf 8 ''AAPL'', 250000000), (copy_buf 8 ''AAPL'', 300000000)]"

lemma demo_checks_run: "fst (run_checks demo_checks demo_cooldown) = [True, True, False, True]"
  by code_simp

theorem cooldown_spacing_witness:
  "fst (run_checks demo_checks demo_cooldown) = [True, True, False, True] \<and>
   unat (snd (demo_checks ! 0)) + unat (cooldownNs demo_cooldown) \<le> unat (snd (demo_checks ! 3))"
proof -
  have "oc_inv demo_cooldown" using cooldown_registerAll_spec by (simp add: demo_cooldown_def)
  moreover have "sorted (map snd demo_checks)" by (simp add: demo_checks_def)
  ultimately show ?thesis
    using cooldown_spacing [of demo_cooldown demo_checks 0 3] demo_checks_run
    by (simp add: demo_checks_def)
qed

lemma registered_first_check:
  "fst (checkAndUpdate buf now (cooldown_registerAll syms (new_OrderCooldown cooldown_ns))) \<longleftrightarrow>
     buf \<in> copy_buf 8 ` set (take 64 syms) \<and> cooldown_ns \<le> now"
proof -
  let ?oc = "cooldown_registerAll syms (new_OrderCooldown cooldown_ns)"
  have new: "unat (oc_num_symbols (new_OrderCooldown cooldown_ns)) = 0"
    "oc_cooldown_ns (new_OrderCooldown cooldown_ns) = cooldown_ns"
    by (simp_all add: new_OrderCooldown_def)
  note spec = cooldown_registerAll_spec [OF oc_inv_new, of syms cooldown_ns]
  obtain ok oc' where chk: "checkAndUpdate buf now ?oc = (ok, oc')" by fastforce
  have inv: "oc_inv ?oc" using spec by simp
  have dom: "last_order ?oc buf \<noteq> None \<longleftrightarrow> buf \<in> copy_buf 8 ` set (take 64 syms)"
    using spec new by (auto simp: domIff set_eq_iff)
  have "last_order ?oc buf \<in> {None, Some 0}" "oc_cooldown_ns ?oc = cooldown_ns"
    using spec new by simp_all
  then show ?thesis using checkAndUpdate_spec(1) [OF inv chk] chk dom by auto
qed

text \<open>Capacity: after the engine registers its symbols, a check of a symbol can only ever be accepted
  if the symbol is one of the first 64 registered; for those, the first check is accepted exactly when
  the clock has reached the interval. A 65th symbol is refused whatever the time.\<close>

theorem cooldown_first_check:
  "fst (checkAndUpdate buf now (cooldown_registerAll syms (new_OrderCooldown cooldown_ns))) \<longleftrightarrow>
     buf \<in> copy_buf 8 ` set (take 64 syms) \<and> cooldown_ns \<le> now"
  by (rule registered_first_check)

end
