(* ===== verification/Risk_Manager.thy ===== *)
theory Risk_Manager
  imports Position_Book Order_Cooldown
begin

text \<open>
  \<open>RiskManager\<close> (\<open>include/RiskManager.hpp\<close>, \<open>src/RiskManager.cpp\<close>): the gate every order passes.
  The two objects it points to are shared with other components and are passed explicitly;
  a null pointer is \<^const>\<open>None\<close>. The result is \<^const>\<open>None\<close> where signed arithmetic overflows.
\<close>

section \<open>State and operation\<close>

record RiskManager =
  rm_max_position_per_symbol :: i64
  rm_max_order_value :: fp

definition new_RiskManager :: "i64 \<Rightarrow> fp \<Rightarrow> RiskManager" where
  "new_RiskManager max_position_per_symbol max_order_value =
     \<lparr>rm_max_position_per_symbol = max_position_per_symbol, rm_max_order_value = max_order_value\<rparr>"

type_synonym risk_objects = "OrderCooldown option \<times> PositionManager option"

definition safeAbs :: "i64 \<Rightarrow> u64" where
  "safeAbs v = (if v < 0 then - i64_to_u64 v else i64_to_u64 v)"

text \<open>The \<open>long double\<close> comparison \<open>notional > limit\<close> of an order with a price and a quantity.\<close>

definition exceeds_order_value :: "RiskManager \<Rightarrow> Order \<Rightarrow> bool" where
  "exceeds_order_value rm ord =
     (0 < ord_price ord \<and> ord_quantity ord \<noteq> 0 \<and>
      (let notional = fp_mul x87_extended (fp_of_int x87_extended (uint (ord_price ord)))
                        (fp_of_int x87_extended (uint (safeAbs (ord_quantity ord))));
           limit = fp_mul x87_extended (rm_max_order_value rm) (fp_of_int x87_extended SCALING_FACTOR)
       in fp_less limit notional))"

definition passes_cooldown :: "string \<Rightarrow> u64 \<Rightarrow> OrderCooldown option \<Rightarrow> bool \<times> OrderCooldown option" where
  "passes_cooldown symbol now cooldown =
     (case cooldown of None \<Rightarrow> (True, None)
      | Some oc \<Rightarrow> (case checkAndUpdate symbol now oc of (ok, oc) \<Rightarrow> (ok, Some oc)))"

definition onNewOrder :: "RiskManager \<Rightarrow> u64 \<Rightarrow> Order \<Rightarrow> risk_objects \<Rightarrow> (bool \<times> risk_objects) option" where
  "onNewOrder rm now ord objs =
     (let symbol = buf_view (ord_symbol ord);
          (cooldown, position_manager) = objs;
          (pass, cooldown) = passes_cooldown (ord_symbol ord) now cooldown
      in if \<not> pass then Some (False, cooldown, position_manager)
         else case position_manager of
           None \<Rightarrow> Some (False, cooldown, None)
         | Some pm \<Rightarrow>
             if i64_to_u64 (rm_max_position_per_symbol rm) < safeAbs (ord_quantity ord)
             then Some (False, cooldown, Some pm)
             else do {
               total_exposure \<leftarrow> getTotalExposure symbol pm;
               new_exposure \<leftarrow> (if ord_side ord = Buy then i64_add total_exposure (ord_quantity ord)
                                else i64_sub total_exposure (ord_quantity ord));
               (if i64_to_u64 (rm_max_position_per_symbol rm) < safeAbs new_exposure
                then Some (False, cooldown, Some pm)
                else if exceeds_order_value rm ord then Some (False, cooldown, Some pm)
                else do {
                  pm \<leftarrow> onOrderSent ord pm;
                  Some (True, cooldown, Some pm)
                })
             })"

section \<open>The limits as integers\<close>

lemma unat_safeAbs:
  assumes "in_i64 v"
  shows "uint (safeAbs v) = \<bar>v\<bar>"
proof -
  have r: "- (2 ^ 63) \<le> v" "v < 2 ^ 63" using assms by (simp_all add: in_i64_def)
  show ?thesis
  proof (cases "v < 0")
    case True
    then have "safeAbs v = word_of_int (- v)"
      unfolding safeAbs_def i64_to_u64_def wi_hom_neg [symmetric] by simp
    then have "uint (safeAbs v) = (- v) mod 2 ^ 64" by (simp only: uint_word_of_int len_bit0 len_num1 len_bit1) simp
    then show ?thesis using True r by simp
  next
    case False
    then show ?thesis using r by (simp add: safeAbs_def i64_to_u64_def uint_word_of_int)
  qed
qed

lemma safeAbs_exceeds:
  assumes "in_i64 v" and "0 \<le> m" and "in_i64 m"
  shows "i64_to_u64 m < safeAbs v \<longleftrightarrow> m < \<bar>v\<bar>"
proof -
  have "uint (i64_to_u64 m) = m" using assms(2,3) by (simp add: i64_to_u64_def uint_word_of_int in_i64_def)
  then show ?thesis using unat_safeAbs [OF assms(1)] by (simp add: word_less_def)
qed

lemma fp_of_int_x87: "\<bar>n\<bar> < 2 ^ 64 \<Longrightarrow> fp_of_int x87_extended n = Fin (of_int n)"
  unfolding fp_of_int_def by (rule fp_round_exact) simp_all

text \<open>An integer limit below \<open>2\<^sup>6\<^sup>3\<close> is compared exactly: a product beyond the 64-bit significand
  rounds to a value that is still larger.\<close>

lemma x87_product_exceeds:
  fixes n L :: int
  assumes "0 \<le> n" and "0 \<le> L" and "L < 2 ^ 63"
  shows "fp_less (Fin (of_int L)) (fp_round x87_extended (of_int n)) \<longleftrightarrow> L < n"
proof (cases "n < 2 ^ 64")
  case True
  then have "fp_round x87_extended (of_int n) = Fin (of_int n)"
    using assms(1) by (intro fp_round_exact) simp_all
  then show ?thesis by simp
next
  case False
  let ?s = "fround 64 (- 16445) (of_int n)"
  have n: "(2 ^ 64 :: rat) \<le> of_int n" using False by (metis linorder_not_less of_int_le_iff of_int_numeral of_int_power)
  have "pow2 (- 16445 + int 64 - 1) \<le> pow2 (int 64)" by (rule pow2_mono) simp
  then have "pow2 (- 16445 + int 64 - 1) \<le> \<bar>of_int n\<bar>" using n by (simp add: pow2_nat del: of_nat_numeral)
  then have "\<bar>?s - of_int n\<bar> \<le> \<bar>of_int n\<bar> * pow2 (- int 64)"
    using n by (intro fround_rel_err) auto
  also have "\<dots> = of_int n / 2 ^ 64" using n by (simp add: pow2_minus pow2_nat del: of_nat_numeral)
  finally have "of_int n - of_int n / 2 ^ 64 \<le> ?s" by linarith
  moreover have "2 ^ 64 - 1 \<le> of_int n - of_int n / (2 ^ 64 :: rat)" using n by (simp add: field_simps)
  moreover have "(of_int L :: rat) < 2 ^ 63" using assms(3) by (metis of_int_less_iff of_int_numeral of_int_power)
  ultimately have "of_int L < ?s" by simp
  moreover have "(0 :: rat) < of_int n" using n by simp
  ultimately show ?thesis using False assms(3) by (simp add: fp_round_def Let_def)
qed

lemma exceeds_order_value_iff:
  assumes "in_i64 (ord_quantity ord)" and "rm_max_order_value rm = Fin v"
    and "v * 10000 = of_int L" and "0 \<le> L" and "L < 2 ^ 63"
  shows "exceeds_order_value rm ord \<longleftrightarrow> L < uint (ord_price ord) * \<bar>ord_quantity ord\<bar>"
proof -
  have abs: "uint (safeAbs (ord_quantity ord)) = \<bar>ord_quantity ord\<bar>" by (rule unat_safeAbs [OF assms(1)])
  have ql: "\<bar>ord_quantity ord\<bar> < 2 ^ 64" using assms(1) by (auto simp: in_i64_def)
  have pl: "uint (ord_price ord) < 2 ^ 64" using uint_lt2p [of "ord_price ord"] by simp
  have p: "fp_of_int x87_extended (uint (ord_price ord)) = Fin (of_int (uint (ord_price ord)))"
    using pl by (intro fp_of_int_x87) simp
  have q: "fp_of_int x87_extended \<bar>ord_quantity ord\<bar> = Fin (of_int \<bar>ord_quantity ord\<bar>)"
    using ql by (intro fp_of_int_x87) simp
  have L: "fp_mul x87_extended (rm_max_order_value rm) (fp_of_int x87_extended SCALING_FACTOR) = Fin (of_int L)"
  proof -
    have "fp_of_int x87_extended SCALING_FACTOR = Fin 10000"
      using fp_of_int_x87 [of 10000] by (simp only: SCALING_FACTOR_def) simp
    moreover have "fp_round x87_extended (of_int L) = Fin (of_int L)"
      using assms(4,5) by (intro fp_round_exact) simp_all
    ultimately show ?thesis using assms(2,3) by (simp only: fp_mul.simps)
  qed
  have M: "fp_mul x87_extended (Fin (of_int (uint (ord_price ord)))) (Fin (of_int \<bar>ord_quantity ord\<bar>)) =
      fp_round x87_extended (of_int (uint (ord_price ord) * \<bar>ord_quantity ord\<bar>))"
    by simp
  have "exceeds_order_value rm ord \<longleftrightarrow> 0 < ord_price ord \<and> ord_quantity ord \<noteq> 0 \<and>
      L < uint (ord_price ord) * \<bar>ord_quantity ord\<bar>"
    unfolding exceeds_order_value_def Let_def abs p q L M
    using assms(4,5) x87_product_exceeds [of "uint (ord_price ord) * \<bar>ord_quantity ord\<bar>" L] by simp
  moreover have "0 < ord_price ord" "ord_quantity ord \<noteq> 0" if "L < uint (ord_price ord) * \<bar>ord_quantity ord\<bar>"
  proof -
    have "0 < uint (ord_price ord) * \<bar>ord_quantity ord\<bar>" using that assms(4) by linarith
    then show "0 < ord_price ord" "ord_quantity ord \<noteq> 0"
      by (auto simp: zero_less_mult_iff word_less_def)
  qed
  ultimately show ?thesis by blast
qed

section \<open>The decision\<close>

definition exposure :: "PositionManager \<Rightarrow> u64 \<Rightarrow> int" where
  "exposure pm k = e_filled (position pm k) + e_pending (position pm k)"

text \<open>What the gate means to check, on exact integers: \<open>L\<close> is the order value limit in ticks.\<close>

definition risk_approves :: "int \<Rightarrow> int \<Rightarrow> bool \<Rightarrow> int \<Rightarrow> Order \<Rightarrow> bool" where
  "risk_approves max_pos L cooled E ord \<longleftrightarrow> cooled \<and> \<bar>ord_quantity ord\<bar> \<le> max_pos \<and>
     \<bar>E + signed_qty (ord_side ord) (ord_quantity ord)\<bar> \<le> max_pos \<and>
     uint (ord_price ord) * \<bar>ord_quantity ord\<bar> \<le> L"

definition rm_limits :: "RiskManager \<Rightarrow> int \<Rightarrow> int \<Rightarrow> bool" where
  "rm_limits rm max_pos L \<longleftrightarrow> rm_max_position_per_symbol rm = max_pos \<and> 0 \<le> max_pos \<and> max_pos < 2 ^ 63 \<and>
     0 \<le> L \<and> L < 2 ^ 63 \<and> (\<exists>v. rm_max_order_value rm = Fin v \<and> v * 10000 = of_int L)"

lemma getTotalExposure_exposure: "getTotalExposure symbol pm = chk_i64 (exposure pm (symbolToKey symbol))"
  by (simp add: getters_position exposure_def i64_add_def)

lemma new_exposure_eq:
  "(if side = Buy then i64_add e q else i64_sub e q) = chk_i64 (e + signed_qty side q)"
  by (cases side) (simp_all add: i64_add_def i64_sub_def)

lemma onNewOrder_eq:
  assumes "padded 8 (ord_symbol ord)" and "passes_cooldown (ord_symbol ord) now cooldown = (cooled, cooldown')"
  shows "onNewOrder rm now ord (cooldown, Some pm) =
    (if \<not> cooled \<or> i64_to_u64 (rm_max_position_per_symbol rm) < safeAbs (ord_quantity ord)
     then Some (False, cooldown', Some pm)
     else do {
       E \<leftarrow> chk_i64 (exposure pm (ord_key ord));
       new_exposure \<leftarrow> chk_i64 (E + signed_qty (ord_side ord) (ord_quantity ord));
       (if i64_to_u64 (rm_max_position_per_symbol rm) < safeAbs new_exposure \<or> exceeds_order_value rm ord
        then Some (False, cooldown', Some pm)
        else do { pm \<leftarrow> onOrderSent ord pm; Some (True, cooldown', Some pm) })
     })"
  using assms(2) symbolToKey_view [OF assms(1)]
  by (simp add: onNewOrder_def getTotalExposure_exposure new_exposure_eq cong: if_cong)

lemma onNewOrder_decision:
  assumes lim: "rm_limits rm max_pos L" and pad: "padded 8 (ord_symbol ord)" and q: "in_i64 (ord_quantity ord)"
    and cd: "passes_cooldown (ord_symbol ord) now cooldown = (cooled, cooldown')"
    and safe: "\<bar>exposure pm (ord_key ord)\<bar> + max_pos < 2 ^ 63"
  shows "if risk_approves max_pos L cooled (exposure pm (ord_key ord)) ord
    then \<exists>pm'. onOrderSent ord pm = Some pm' \<and> onNewOrder rm now ord (cooldown, Some pm) = Some (True, cooldown', Some pm')
    else onNewOrder rm now ord (cooldown, Some pm) = Some (False, cooldown', Some pm)"
proof -
  let ?E = "exposure pm (ord_key ord)" and ?d = "signed_qty (ord_side ord) (ord_quantity ord)"
  have m: "0 \<le> max_pos" "in_i64 max_pos" "rm_max_position_per_symbol rm = max_pos"
    using lim by (simp_all add: rm_limits_def in_i64_def)
  obtain v where "rm_max_order_value rm = Fin v" "v * 10000 = of_int L" "0 \<le> L" "L < 2 ^ 63"
    using lim by (auto simp: rm_limits_def)
  note val = exceeds_order_value_iff [OF q this]
  note big = safeAbs_exceeds [OF q m(1,2)]
  show ?thesis
  proof (cases "cooled \<and> \<bar>ord_quantity ord\<bar> \<le> max_pos")
    case False
    then show ?thesis using big m(3) by (auto simp: onNewOrder_eq [OF pad cd] risk_approves_def)
  next
    case True
    then have "\<bar>?d\<bar> \<le> max_pos" by (cases "ord_side ord") simp_all
    then have E: "in_i64 ?E" "in_i64 (?E + ?d)" using safe m(1) by (auto simp: in_i64_def)
    have "in_i64 (- ord_quantity ord)" using True m by (auto simp: in_i64_def)
    then obtain pm' where pm': "onOrderSent ord pm = Some pm'" using order_ops_total(1) q by blast
    show ?thesis
      using True E big m(3) val safeAbs_exceeds [OF E(2) m(1,2)] pm'
      by (auto simp: onNewOrder_eq [OF pad cd] risk_approves_def chk_i64_def)
  qed
qed

text \<open>Sending an order moves its own symbol's exposure by its signed quantity, modulo \<open>2\<^sup>6\<^sup>4\<close>, and no other.\<close>

lemma onOrderSent_exposure:
  assumes "pm_inv pm" and "valid_key (ord_key ord)" and "onOrderSent ord pm = Some pm'" and "valid_key k"
  shows "exposure pm' k = (if k = ord_key ord \<and> tracked pm' k
    then e_filled (position pm k) + wrap_i64 (e_pending (position pm k) + signed_qty (ord_side ord) (ord_quantity ord))
    else exposure pm k)"
  using onOrderSent_writes [OF assms(1-3)] assms(4) by (auto simp: writes_def exposure_def)

section \<open>The interface of the gate\<close>

text \<open>
  The clients of the gate submit orders and later settle fills. \<open>exposure\<close> is filled plus pending
  quantity as the counters hold it; the gate promises that a submission either leaves a symbol's
  exposure alone or leaves it within the limit, and settlement promises not to move it.
\<close>

datatype ('o, 'f) gate_event = Submit 'o | Settle 'f

fun gate_step :: "('o \<Rightarrow> 's \<Rightarrow> (bool \<times> 's) option) \<Rightarrow> ('f \<Rightarrow> 's \<Rightarrow> 's option) \<Rightarrow>
    ('o, 'f) gate_event \<Rightarrow> 's \<Rightarrow> 's option" where
  "gate_step submit settle (Submit a) s = map_option snd (submit a s)"
| "gate_step submit settle (Settle f) s = settle f s"

fun good_event :: "('o \<Rightarrow> bool) \<Rightarrow> ('f \<Rightarrow> bool) \<Rightarrow> ('o, 'f) gate_event \<Rightarrow> bool" where
  "good_event good_submit good_settle (Submit a) = good_submit a"
| "good_event good_submit good_settle (Settle f) = good_settle f"

locale risk_gate =
  fixes inv :: "'s \<Rightarrow> bool"
    and good_submit :: "'o \<Rightarrow> bool"
    and good_settle :: "'f \<Rightarrow> bool"
    and exposed :: "'s \<Rightarrow> u64 \<Rightarrow> int"
    and limit :: "'s \<Rightarrow> int"
    and submit :: "'o \<Rightarrow> 's \<Rightarrow> (bool \<times> 's) option"
    and settle :: "'f \<Rightarrow> 's \<Rightarrow> 's option"
  assumes submit_inv: "inv s \<Longrightarrow> good_submit a \<Longrightarrow> submit a s = Some (ok, s') \<Longrightarrow> inv s' \<and> limit s' = limit s"
    and submit_bound: "inv s \<Longrightarrow> good_submit a \<Longrightarrow> submit a s = Some (ok, s') \<Longrightarrow> valid_key k \<Longrightarrow>
      exposed s' k = exposed s k \<or> \<bar>exposed s' k\<bar> \<le> limit s"
    and settle_inv: "inv s \<Longrightarrow> good_settle f \<Longrightarrow> settle f s = Some s' \<Longrightarrow> inv s' \<and> limit s' = limit s"
    and settle_exposed: "inv s \<Longrightarrow> good_settle f \<Longrightarrow> settle f s = Some s' \<Longrightarrow> valid_key k \<Longrightarrow>
      exposed s' k = exposed s k"
begin

definition bounded_within :: "'s \<Rightarrow> bool" where
  "bounded_within s \<longleftrightarrow> inv s \<and> (\<forall>k. valid_key k \<longrightarrow> \<bar>exposed s k\<bar> \<le> limit s)"

lemma gate_step_within:
  assumes "bounded_within s" and "good_event good_submit good_settle e" and "gate_step submit settle e s = Some s'"
  shows "bounded_within s' \<and> limit s' = limit s"
proof (cases e)
  case (Submit a)
  with assms(3) obtain ok where "submit a s = Some (ok, s')" by auto
  then show ?thesis
    using assms Submit submit_inv [of s a ok s'] submit_bound [of s a ok s'] by (fastforce simp: bounded_within_def)
next
  case (Settle f)
  then show ?thesis
    using assms settle_inv [of s f s'] settle_exposed [of s f s'] by (auto simp: bounded_within_def)
qed

lemma gate_run_within:
  assumes "run_list (gate_step submit settle) es s = Some s'" and "bounded_within s" and "\<forall>e \<in> set es. good_event good_submit good_settle e"
  shows "bounded_within s' \<and> limit s' = limit s"
  using assms(1)
  by (rule run_list_inv [where I = "\<lambda>t. bounded_within t \<and> limit t = limit s"])
    (use assms(2,3) gate_step_within in auto)

end

text \<open>The engine's gate: the risk manager with the objects it points to, and fills booked on the same
  position manager.\<close>

type_synonym risk_state = "RiskManager \<times> OrderCooldown option \<times> PositionManager"

definition risk_submit :: "u64 \<times> Order \<Rightarrow> risk_state \<Rightarrow> (bool \<times> risk_state) option" where
  "risk_submit req s = (case (req, s) of ((now, ord), (rm, cd, pm)) \<Rightarrow>
     (case onNewOrder rm now ord (cd, Some pm) of
        Some (ok, cd', Some pm') \<Rightarrow> Some (ok, rm, cd', pm')
      | _ \<Rightarrow> None))"

definition risk_settle :: "Fill \<Rightarrow> risk_state \<Rightarrow> risk_state option" where
  "risk_settle fill s = (case s of (rm, cd, pm) \<Rightarrow> map_option (\<lambda>pm. (rm, cd, pm)) (onFill fill pm))"

definition risk_inv :: "risk_state \<Rightarrow> bool" where
  "risk_inv s \<longleftrightarrow> (case s of (rm, cd, pm) \<Rightarrow> pm_inv pm \<and>
     0 \<le> rm_max_position_per_symbol rm \<and> in_i64 (rm_max_position_per_symbol rm))"

definition risk_exposed :: "risk_state \<Rightarrow> u64 \<Rightarrow> int" where
  "risk_exposed s k = (case s of (rm, cd, pm) \<Rightarrow> wrap_i64 (exposure pm k))"

definition risk_limit :: "risk_state \<Rightarrow> int" where
  "risk_limit s = rm_max_position_per_symbol (fst s)"

definition good_request :: "u64 \<times> Order \<Rightarrow> bool" where
  "good_request req \<longleftrightarrow> padded 8 (ord_symbol (snd req)) \<and> valid_key (ord_key (snd req)) \<and> in_i64 (ord_quantity (snd req))"

lemma onNewOrder_cases:
  assumes inv: "risk_inv (rm, cd, pm)" and ord: "good_request (now, ord)"
    and run: "onNewOrder rm now ord (cd, Some pm) = Some (ok, cd', pm')"
  shows "(\<not> ok \<and> pm' = Some pm) \<or>
    (ok \<and> (\<exists>p. pm' = Some p \<and> onOrderSent ord pm = Some p) \<and>
      in_i64 (exposure pm (ord_key ord) + signed_qty (ord_side ord) (ord_quantity ord)) \<and>
      \<bar>exposure pm (ord_key ord) + signed_qty (ord_side ord) (ord_quantity ord)\<bar> \<le> rm_max_position_per_symbol rm)"
proof -
  obtain cooled cd1 where cd1: "passes_cooldown (ord_symbol ord) now cd = (cooled, cd1)" by fastforce
  have pad: "padded 8 (ord_symbol ord)" using ord by (simp add: good_request_def)
  have m: "0 \<le> rm_max_position_per_symbol rm" "in_i64 (rm_max_position_per_symbol rm)"
    using inv by (simp_all add: risk_inv_def)
  show ?thesis
    using run safeAbs_exceeds [OF _ m]
    by (auto simp: onNewOrder_eq [OF pad cd1] bind_eq_Some_conv linorder_not_less split: if_splits)
qed

lemma risk_submit_laws:
  assumes inv: "risk_inv s" and req: "good_request req" and run: "risk_submit req s = Some (ok, s')"
  shows "risk_inv s' \<and> risk_limit s' = risk_limit s"
    and "valid_key k \<Longrightarrow> risk_exposed s' k = risk_exposed s k \<or> \<bar>risk_exposed s' k\<bar> \<le> risk_limit s"
proof -
  obtain now ord rm cd pm where s: "req = (now, ord)" "s = (rm, cd, pm)" by (metis prod.exhaust)
  obtain cd' pm' where r: "onNewOrder rm now ord (cd, Some pm) = Some (ok, cd', Some pm')" "s' = (rm, cd', pm')"
    using run by (auto simp: risk_submit_def s split: option.splits)
  note c = onNewOrder_cases [OF inv [unfolded s] req [unfolded s] r(1)]
  have v: "valid_key (ord_key ord)" and i: "pm_inv pm" using req inv by (simp_all add: s good_request_def risk_inv_def)
  have "pm_inv pm'" using c i onOrderSent_writes [OF i v] by (auto simp: writes_def)
  then show "risk_inv s' \<and> risk_limit s' = risk_limit s" using inv by (simp add: s r risk_inv_def risk_limit_def)
  show "risk_exposed s' k = risk_exposed s k \<or> \<bar>risk_exposed s' k\<bar> \<le> risk_limit s" if k: "valid_key k"
  proof (cases ok)
    case True
    then have sent: "onOrderSent ord pm = Some pm'" using c by auto
    show ?thesis
      using c True onOrderSent_exposure [OF i v sent k]
      by (auto simp: s r risk_exposed_def risk_limit_def exposure_def add.assoc)
  qed (use c in \<open>auto simp: s r risk_exposed_def\<close>)
qed

lemma onFill_exposure:
  assumes inv: "pm_inv pm" and k: "valid_key (fill_key fill)" and s: "onFill fill pm = Some pm'" and v: "valid_key k'"
  shows "wrap_i64 (exposure pm' k') = wrap_i64 (exposure pm k')"
proof -
  consider "pm' = pm" | p e' where
    "fill_entry (fill_side fill) p (fill_quantity fill) (position pm (fill_key fill)) = Some e'"
    "writes pm (fill_key fill) (\<lambda>_. e') pm'"
    using onFill_writes [OF inv k s] by blast
  then show ?thesis
  proof cases
    case 2
    then show ?thesis using v fill_entry_fields(2,3) [OF 2(1)] by (auto simp: writes_def exposure_def)
  qed simp
qed

lemma risk_settle_laws:
  assumes inv: "risk_inv s" and k: "valid_key (fill_key fill)" and run: "risk_settle fill s = Some s'"
  shows "risk_inv s' \<and> risk_limit s' = risk_limit s" and "valid_key k' \<Longrightarrow> risk_exposed s' k' = risk_exposed s k'"
proof -
  obtain rm cd pm pm' where s: "s = (rm, cd, pm)" "onFill fill pm = Some pm'" "s' = (rm, cd, pm')"
    using run by (auto simp: risk_settle_def split: prod.splits)
  have i: "pm_inv pm" using inv by (simp add: s risk_inv_def)
  have op: "apply_op (Filled fill) pm = Some pm'" "valid_key (op_key (Filled fill))" using s(2) k by simp_all
  have i': "pm_inv pm'" by (rule pm_book.step_inv [OF i op(2,1)])
  then show "risk_inv s' \<and> risk_limit s' = risk_limit s" using inv by (simp add: s risk_inv_def risk_limit_def)
  show "risk_exposed s' k' = risk_exposed s k'" if v: "valid_key k'"
    using onFill_exposure [OF i k s(2) v] by (simp add: s risk_exposed_def)
qed

interpretation risk: risk_gate risk_inv good_request "\<lambda>fill. valid_key (fill_key fill)"
  risk_exposed risk_limit risk_submit risk_settle
  by unfold_locales (auto dest: risk_submit_laws risk_settle_laws)

section \<open>Properties\<close>

text \<open>C12. The decision of the risk gate is exact: for an order with a NUL-padded symbol, a position limit
  \<open>max_pos\<close> and a value limit of \<open>L\<close> ticks, the order is approved exactly when the cooldown lets it
  pass, its quantity and the exposure it would lead to are within \<open>max_pos\<close> in magnitude, and price
  times quantity is at most \<open>L\<close>, with no rounding slack from the \<open>long double\<close> comparison. An approved
  order is booked as sent; a rejected one leaves the positions as they were, and both leave the
  cooldown's check done.\<close>

theorem risk_decision:
  assumes "rm_limits rm max_pos L" and "padded 8 (ord_symbol ord)" and "in_i64 (ord_quantity ord)"
    and "checkAndUpdate (ord_symbol ord) now oc = (cooled, oc')"
    and "\<bar>exposure pm (ord_key ord)\<bar> + max_pos < 2 ^ 63"
  shows "if risk_approves max_pos L cooled (exposure pm (ord_key ord)) ord
    then \<exists>pm'. onOrderSent ord pm = Some pm' \<and>
      onNewOrder rm now ord (Some oc, Some pm) = Some (True, Some oc', Some pm')
    else onNewOrder rm now ord (Some oc, Some pm) = Some (False, Some oc', Some pm)"
  using assms by (intro onNewOrder_decision) (simp_all add: passes_cooldown_def)

definition demo_risk :: RiskManager where
  "demo_risk = \<lparr>rm_max_position_per_symbol = 100, rm_max_order_value = Fin 10000\<rparr>"

definition demo_book :: PositionManager where
  "demo_book = registerAll [''AAPL''] new_PositionManager"

lemma demo_risk_limits: "rm_limits demo_risk 100 100000000"
  by (simp add: rm_limits_def demo_risk_def)

lemma demo_book_flat: "pm_inv demo_book" "valid_key k \<Longrightarrow> exposure demo_book k = 0"
  using fresh_book [OF AAPL_syms] by (simp_all add: demo_book_def exposure_def empty_Entry_def)

lemma demo_order_good:
  "padded 8 (ord_symbol (demo_order side qty))" "valid_key (ord_key (demo_order side qty))"
  by (simp_all add: demo_order_def AAPL_key kEmptySlot_def padded_copy_buf)

theorem risk_decision_witness:
  "\<exists>pm'. onOrderSent (demo_order Buy 100) demo_book = Some pm' \<and>
     onNewOrder demo_risk 200000000 (demo_order Buy 100) (Some demo_cooldown, Some demo_book) =
       Some (True, Some (snd (checkAndUpdate (copy_buf 8 ''AAPL'') 200000000 demo_cooldown)), Some pm')"
proof -
  let ?ord = "demo_order Buy 100"
  have E: "exposure demo_book (ord_key ?ord) = 0" using demo_book_flat(2) demo_order_good(2) by blast
  have f: "ord_symbol ?ord = copy_buf 8 ''AAPL''" "ord_quantity ?ord = 100" "ord_side ?ord = Buy" "ord_price ?ord = 0"
    by (simp_all add: demo_order_def zero_Order_def)
  have i: "in_i64 (ord_quantity ?ord)" by (simp add: f in_i64_def)
  have "fst (checkAndUpdate (copy_buf 8 ''AAPL'') 200000000 demo_cooldown)" by code_simp
  then obtain oc' where c: "checkAndUpdate (ord_symbol ?ord) 200000000 demo_cooldown = (True, oc')"
    using f(1) by (cases "checkAndUpdate (copy_buf 8 ''AAPL'') 200000000 demo_cooldown") auto
  have "risk_approves 100 100000000 True 0 ?ord" by (simp add: risk_approves_def f)
  then show ?thesis
    using risk_decision [OF demo_risk_limits demo_order_good(1) i c, of demo_book] E c f(1) by simp
qed

text \<open>C13. The position limit holds along every run of the gate without cancellations: starting from
  exposures within the limit, after any interleaving of submitted orders (approved or not) and fills
  that runs, the exposure of every symbol, read as the counters hold it, is within the limit.\<close>

theorem exposure_within_limit:
  assumes "pm_inv pm" and "0 \<le> rm_max_position_per_symbol rm" and "in_i64 (rm_max_position_per_symbol rm)"
    and "\<forall>k. valid_key k \<longrightarrow> \<bar>wrap_i64 (exposure pm k)\<bar> \<le> rm_max_position_per_symbol rm"
    and "\<forall>e \<in> set es. good_event good_request (\<lambda>fill. valid_key (fill_key fill)) e"
    and "run_list (gate_step risk_submit risk_settle) es (rm, cd, pm) = Some (rm', cd', pm')"
    and "valid_key (symbolToKey symbol)"
  shows "\<bar>wrap_i64 (getFilledPosition symbol pm' + getPendingPosition symbol pm')\<bar> \<le> rm_max_position_per_symbol rm"
proof -
  have "risk.bounded_within (rm, cd, pm)"
    using assms(1-4) by (simp add: risk.bounded_within_def risk_inv_def risk_exposed_def risk_limit_def)
  from risk.gate_run_within [OF assms(6) this assms(5)] show ?thesis
    using assms(7) by (auto simp: risk.bounded_within_def risk_exposed_def risk_limit_def exposure_def getters_position)
qed

definition demo_gate :: "(u64 \<times> Order, Fill) gate_event list" where
  "demo_gate = [Submit (1, demo_order Buy 60), Submit (2, demo_order Buy 60), Submit (3, demo_order Sell 30)]"

lemma demo_gate_run:
  "map_option (\<lambda>(rm, cd, pm). getPendingPosition ''AAPL'' pm)
     (run_list (gate_step risk_submit risk_settle) demo_gate (demo_risk, None, demo_book)) = Some 30"
  by code_simp

theorem exposure_within_limit_witness:
  "\<exists>rm' cd' pm'. run_list (gate_step risk_submit risk_settle) demo_gate (demo_risk, None, demo_book) =
      Some (rm', cd', pm') \<and> getPendingPosition ''AAPL'' pm' = 30 \<and>
    \<bar>wrap_i64 (getFilledPosition ''AAPL'' pm' + getPendingPosition ''AAPL'' pm')\<bar> \<le> 100"
proof -
  obtain rm' cd' pm' where run: "run_list (gate_step risk_submit risk_settle) demo_gate (demo_risk, None, demo_book) =
      Some (rm', cd', pm')" "getPendingPosition ''AAPL'' pm' = 30"
    using demo_gate_run by auto
  have m: "rm_max_position_per_symbol demo_risk = 100" "in_i64 100" by (simp_all add: demo_risk_def in_i64_def)
  have good: "\<forall>e \<in> set demo_gate. good_event good_request (\<lambda>fill. valid_key (fill_key fill)) e"
    using demo_order_good by (simp add: demo_gate_def good_request_def) (simp add: demo_order_def in_i64_def)
  have "\<bar>wrap_i64 (getFilledPosition ''AAPL'' pm' + getPendingPosition ''AAPL'' pm')\<bar> \<le> rm_max_position_per_symbol demo_risk"
    using demo_book_flat m AAPL_syms(1)
    by (intro exposure_within_limit [OF demo_book_flat(1) _ _ _ good run(1)]) simp_all
  then show ?thesis using run m by auto
qed

text \<open>An order within the limits, on a tracked symbol: it is approved, and its quantity is pending.\<close>

lemma approved_order:
  assumes lim: "rm_limits rm max_pos L" and pad: "padded 8 (ord_symbol ord)" and v: "valid_key (ord_key ord)"
    and cd: "passes_cooldown (ord_symbol ord) now cd = (True, cd')" and q: "\<bar>ord_quantity ord\<bar> \<le> max_pos" and price: "uint (ord_price ord) * \<bar>ord_quantity ord\<bar> \<le> L"
    and pm: "pm_inv pm" "tracked pm (ord_key ord)" and e: "\<bar>exposure pm (ord_key ord)\<bar> + max_pos < 2 ^ 63"
    "\<bar>exposure pm (ord_key ord) + signed_qty (ord_side ord) (ord_quantity ord)\<bar> \<le> max_pos"
    and room: "in_i64 (e_pending (position pm (ord_key ord)) + signed_qty (ord_side ord) (ord_quantity ord))"
  shows "\<exists>pm'. onNewOrder rm now ord (cd, Some pm) = Some (True, cd', Some pm') \<and> pm_inv pm' \<and> tracked pm' (ord_key ord) \<and>
    position pm' (ord_key ord) = (position pm (ord_key ord))
      \<lparr>e_pending := e_pending (position pm (ord_key ord)) + signed_qty (ord_side ord) (ord_quantity ord)\<rparr>"
proof -
  have m: "0 \<le> max_pos" "max_pos < 2 ^ 63" using lim by (simp_all add: rm_limits_def)
  have i: "in_i64 (ord_quantity ord)" using q m by (auto simp: in_i64_def)
  have "risk_approves max_pos L True (exposure pm (ord_key ord)) ord" using q price e(2) by (simp add: risk_approves_def)
  then obtain pm' where pm': "onOrderSent ord pm = Some pm'" "onNewOrder rm now ord (cd, Some pm) = Some (True, cd', Some pm')"
    using onNewOrder_decision [OF lim pad i cd e(1)] by auto
  note w = onOrderSent_writes [OF pm(1) v pm'(1)]
  have "tracked pm' (ord_key ord)" using w pm(2) v by (simp add: writes_def)
  then show ?thesis using w pm' v room by (auto simp: writes_def)
qed

text \<open>C34. Cancellation is outside that guarantee. Whatever the limits, take a symbol with an exposure of 0 and orders of the size of the position
  limit at a price the value limit allows: if the cooldown lets them pass, a buy and two sells of it are all
  approved, one after the other, and when the buy is then cancelled the exposure is twice the limit, short.\<close>

theorem exposure_after_cancel:
  assumes "rm_limits rm max_pos L" and "padded 8 (ord_symbol ord)" and "valid_key (ord_key ord)"
    and "ord_quantity ord = max_pos" and "uint (ord_price ord) * max_pos \<le> L"
    and "pm_inv pm" and "tracked pm (ord_key ord)" and "exposure pm (ord_key ord) = 0"
    and "\<bar>e_pending (position pm (ord_key ord))\<bar> + 2 * max_pos < 2 ^ 63"
    and "passes_cooldown (ord_symbol ord) t1 cd = (True, cd1)" and "passes_cooldown (ord_symbol ord) t2 cd1 = (True, cd2)"
    and "passes_cooldown (ord_symbol ord) t3 cd2 = (True, cd3)"
  shows "\<exists>pm1 pm2 pm3 pm4. onNewOrder rm t1 (ord\<lparr>ord_side := Buy\<rparr>) (cd, Some pm) = Some (True, cd1, Some pm1) \<and>
    onNewOrder rm t2 (ord\<lparr>ord_side := Sell\<rparr>) (cd1, Some pm1) = Some (True, cd2, Some pm2) \<and>
    onNewOrder rm t3 (ord\<lparr>ord_side := Sell\<rparr>) (cd2, Some pm2) = Some (True, cd3, Some pm3) \<and>
    onOrderCancelled (ord\<lparr>ord_side := Buy\<rparr>) pm3 = Some pm4 \<and> exposure pm4 (ord_key ord) = - 2 * max_pos"
proof -
  let ?k = "ord_key ord" and ?buy = "ord\<lparr>ord_side := Buy\<rparr>" and ?sell = "ord\<lparr>ord_side := Sell\<rparr>"
  have m: "0 \<le> max_pos" "max_pos < 2 ^ 63" "\<bar>max_pos\<bar> = max_pos" using assms(1) by (simp_all add: rm_limits_def)
  define f p where "f = e_filled (position pm ?k)" and "p = e_pending (position pm ?k)"
  have z: "f + p = 0" "\<bar>p\<bar> + 2 * max_pos < 2 ^ 63" using assms(8,9) by (simp_all add: exposure_def f_def p_def)
  have in64: "in_i64 (p + max_pos)" "in_i64 p" "in_i64 (p - max_pos)" "in_i64 (p - 2 * max_pos)" using z m by (auto simp: in_i64_def)
  note order = approved_order [OF assms(1), of ?buy] approved_order [OF assms(1), of ?sell]
  have "\<exists>pm1. onNewOrder rm t1 ?buy (cd, Some pm) = Some (True, cd1, Some pm1) \<and> pm_inv pm1 \<and> tracked pm1 ?k \<and>
      position pm1 ?k = (position pm ?k)\<lparr>e_pending := p + max_pos\<rparr>"
    using order(1) [of t1 cd cd1 pm] assms m z in64(1) by (simp add: p_def)
  then obtain pm1 where 1: "onNewOrder rm t1 ?buy (cd, Some pm) = Some (True, cd1, Some pm1)" "pm_inv pm1" "tracked pm1 ?k"
    "position pm1 ?k = (position pm ?k)\<lparr>e_pending := p + max_pos\<rparr>" by blast
  have e1: "exposure pm1 ?k = max_pos" using 1(4) z(1) by (simp add: exposure_def f_def)
  have "\<exists>pm2. onNewOrder rm t2 ?sell (cd1, Some pm1) = Some (True, cd2, Some pm2) \<and> pm_inv pm2 \<and> tracked pm2 ?k \<and>
      position pm2 ?k = (position pm ?k)\<lparr>e_pending := p\<rparr>"
    using order(2) [of t2 cd1 cd2 pm1] assms m z 1 e1 in64(2) by simp
  then obtain pm2 where 2: "onNewOrder rm t2 ?sell (cd1, Some pm1) = Some (True, cd2, Some pm2)" "pm_inv pm2" "tracked pm2 ?k"
    "position pm2 ?k = (position pm ?k)\<lparr>e_pending := p\<rparr>" by blast
  have e2: "exposure pm2 ?k = 0" using 2(4) z(1) by (simp add: exposure_def f_def)
  have "\<exists>pm3. onNewOrder rm t3 ?sell (cd2, Some pm2) = Some (True, cd3, Some pm3) \<and> pm_inv pm3 \<and> tracked pm3 ?k \<and>
      position pm3 ?k = (position pm ?k)\<lparr>e_pending := p - max_pos\<rparr>"
    using order(2) [of t3 cd2 cd3 pm2] assms m z 2 e2 in64(3) by simp
  then obtain pm3 where 3: "onNewOrder rm t3 ?sell (cd2, Some pm2) = Some (True, cd3, Some pm3)" "pm_inv pm3" "tracked pm3 ?k"
    "position pm3 ?k = (position pm ?k)\<lparr>e_pending := p - max_pos\<rparr>" by blast
  obtain pm4 where 4: "onOrderCancelled ?buy pm3 = Some pm4"
    using order_ops_total(2) [of ?buy pm3] assms(4) m by (auto simp: in_i64_def)
  have "position pm4 ?k = (position pm ?k)\<lparr>e_pending := p - 2 * max_pos\<rparr>"
    using onOrderCancelled_writes [OF 3(2) _ 4] assms(3,4) 3(3,4) in64(4) by (simp add: writes_def)
  then have "exposure pm4 ?k = - 2 * max_pos" using z(1) by (simp add: exposure_def f_def)
  then show ?thesis using 1(1) 2(1) 3(1) 4 by blast
qed

theorem exposure_after_cancel_witness:
  "\<exists>cd1 cd2 cd3 pm1 pm2 pm3 pm4.
    onNewOrder demo_risk 200000000 (demo_order Buy 100) (Some demo_cooldown, Some demo_book) = Some (True, cd1, Some pm1) \<and>
    onNewOrder demo_risk 400000000 (demo_order Sell 100) (cd1, Some pm1) = Some (True, cd2, Some pm2) \<and>
    onNewOrder demo_risk 600000000 (demo_order Sell 100) (cd2, Some pm2) = Some (True, cd3, Some pm3) \<and>
    onOrderCancelled (demo_order Buy 100) pm3 = Some pm4 \<and> rm_max_position_per_symbol demo_risk = 100 \<and>
    exposure pm4 (symbolToKey ''AAPL'') = - 200"
proof -
  let ?o = "demo_order Buy 100" and ?s = "copy_buf 8 ''AAPL''"
  define c1 c2 c3 where "c1 = snd (checkAndUpdate ?s 200000000 demo_cooldown)" and "c2 = snd (checkAndUpdate ?s 400000000 c1)"
    and "c3 = snd (checkAndUpdate ?s 600000000 c2)"
  have "fst (checkAndUpdate ?s 200000000 demo_cooldown)" by code_simp
  then have 1: "passes_cooldown ?s 200000000 (Some demo_cooldown) = (True, Some c1)" by (auto simp: passes_cooldown_def c1_def split: prod.splits)
  have "fst (checkAndUpdate ?s 400000000 c1)" unfolding c1_def by code_simp
  then have 2: "passes_cooldown ?s 400000000 (Some c1) = (True, Some c2)" by (auto simp: passes_cooldown_def c2_def split: prod.splits)
  have "fst (checkAndUpdate ?s 600000000 c2)" unfolding c1_def c2_def by code_simp
  then have 3: "passes_cooldown ?s 600000000 (Some c2) = (True, Some c3)" by (auto simp: passes_cooldown_def c3_def split: prod.splits)
  have f: "ord_symbol ?o = ?s" "ord_quantity ?o = 100" "ord_price ?o = 0" "ord_key ?o = symbolToKey ''AAPL''"
    by (simp_all add: demo_order_def zero_Order_def AAPL_key)
  have v: "valid_key (ord_key ?o)" by (rule demo_order_good(2))
  have b: "pm_inv demo_book" "tracked demo_book (ord_key ?o)" "exposure demo_book (ord_key ?o) = 0" "e_pending (position demo_book (ord_key ?o)) = 0"
    using demo_book_flat fresh_book(2,3) [OF AAPL_syms] v f(4) by (simp_all add: demo_book_def empty_Entry_def)
  have s: "?o\<lparr>ord_side := Sell\<rparr> = demo_order Sell 100" "?o\<lparr>ord_side := Buy\<rparr> = ?o" by (simp_all add: demo_order_def)
  have m: "rm_max_position_per_symbol demo_risk = 100" by (simp add: demo_risk_def)
  from exposure_after_cancel [OF demo_risk_limits demo_order_good(1) v f(2) _ b(1-3) _ 1 [folded f(1)] 2 [folded f(1)] 3 [folded f(1)]] f(3) b(4)
  obtain pm1 pm2 pm3 pm4 where "onNewOrder demo_risk 200000000 ?o (Some demo_cooldown, Some demo_book) = Some (True, Some c1, Some pm1)"
    "onNewOrder demo_risk 400000000 (demo_order Sell 100) (Some c1, Some pm1) = Some (True, Some c2, Some pm2)"
    "onNewOrder demo_risk 600000000 (demo_order Sell 100) (Some c2, Some pm2) = Some (True, Some c3, Some pm3)"
    "onOrderCancelled ?o pm3 = Some pm4" "exposure pm4 (symbolToKey ''AAPL'') = - 200"
    unfolding s f(4) by auto
  then show ?thesis using m by blast
qed

end
