(* ===== verification/Latency_Tracker.thy ===== *)
theory Latency_Tracker
  imports Trading_Types
begin

text \<open>
  \<open>LatencyTracker\<close> (\<open>include/LatencyTracker.hpp\<close>, \<open>src/LatencyTracker.cpp\<close>): a histogram per metric and
  the submit times of orders in flight. The histogram library is outside code, the record
  \<open>hdr_api\<close>; \<open>'h\<close> is one histogram. Clock readings are arguments. The report is in \<open>Latency_Report\<close>.
\<close>

datatype LatencyMetric = EndToEnd | ZmqTransport | StrategyRisk | MpscQueue | FillRoundTrip | Count

primrec metric_index :: "LatencyMetric \<Rightarrow> nat" where
  "metric_index EndToEnd = 0"
| "metric_index ZmqTransport = 1"
| "metric_index StrategyRisk = 2"
| "metric_index MpscQueue = 3"
| "metric_index FillRoundTrip = 4"
| "metric_index Count = 5"

definition kMetricCount :: nat where
  "kMetricCount = metric_index Count"

text \<open>\<open>hdr_init\<close> allocates: whether its \<open>n\<close>-th call succeeds may depend on \<open>n\<close>.\<close>

record 'h hdr_api =
  hdr_init :: "nat \<Rightarrow> i64 \<Rightarrow> i64 \<Rightarrow> int \<Rightarrow> 'h option"
  hdr_record_value_atomic :: "'h \<Rightarrow> i64 \<Rightarrow> 'h"
  hdr_value_at_percentile :: "'h \<Rightarrow> fp \<Rightarrow> i64"
  hdr_total_count :: "'h \<Rightarrow> i64"

record 'h LatencyTracker =
  lt_histograms :: "'h list"
  lt_submit_timestamps :: "string \<rightharpoonup> u64"

definition kLowestTrackable :: i64 where
  "kLowestTrackable = 1"

definition kHighestTrackable :: i64 where
  "kHighestTrackable = 60000000000"

definition kSignificantDigits :: int where
  "kSignificantDigits = 3"

text \<open>\<^const>\<open>None\<close>: the constructor throws, after closing the histograms it had opened.\<close>

definition new_LatencyTracker :: "'h hdr_api \<Rightarrow> 'h LatencyTracker option" where
  "new_LatencyTracker H =
     (let hs = map (\<lambda>i. hdr_init H i kLowestTrackable kHighestTrackable kSignificantDigits) [0..<kMetricCount]
      in if None \<in> set hs then None
         else Some \<lparr>lt_histograms = map the hs, lt_submit_timestamps = Map.empty\<rparr>)"

definition lt_record :: "'h hdr_api \<Rightarrow> LatencyMetric \<Rightarrow> u64 \<Rightarrow> 'h LatencyTracker \<Rightarrow> 'h LatencyTracker" where
  "lt_record H metric nanos lt =
     (let idx = metric_index metric
      in if idx \<ge> kMetricCount then lt
         else lt\<lparr>lt_histograms := (lt_histograms lt)
                  [idx := hdr_record_value_atomic H (lt_histograms lt ! idx) (u64_to_i64 nanos)]\<rparr>)"

definition recordOrderSubmit :: "string \<Rightarrow> u64 \<Rightarrow> 'h LatencyTracker \<Rightarrow> 'h LatencyTracker" where
  "recordOrderSubmit client_order_id now lt =
     lt\<lparr>lt_submit_timestamps := (lt_submit_timestamps lt)(client_order_id \<mapsto> now)\<rparr>"

definition recordFillReceived :: "'h hdr_api \<Rightarrow> string \<Rightarrow> u64 \<Rightarrow> 'h LatencyTracker \<Rightarrow> 'h LatencyTracker" where
  "recordFillReceived H client_order_id now lt =
     (case lt_submit_timestamps lt client_order_id of
        None \<Rightarrow> lt
      | Some submitted \<Rightarrow>
          (let latency = now - submitted;
               lt = lt_record H FillRoundTrip latency lt
           in lt\<lparr>lt_submit_timestamps := (lt_submit_timestamps lt)(client_order_id := None)\<rparr>))"

definition lt_percentile :: "'h hdr_api \<Rightarrow> LatencyMetric \<Rightarrow> fp \<Rightarrow> 'h LatencyTracker \<Rightarrow> i64" where
  "lt_percentile H metric pct lt =
     (let idx = metric_index metric
      in if idx \<ge> kMetricCount then 0 else hdr_value_at_percentile H (lt_histograms lt ! idx) pct)"

definition lt_count :: "'h hdr_api \<Rightarrow> LatencyMetric \<Rightarrow> 'h LatencyTracker \<Rightarrow> i64" where
  "lt_count H metric lt =
     (let idx = metric_index metric in if idx \<ge> kMetricCount then 0 else hdr_total_count H (lt_histograms lt ! idx))"

section \<open>Laws\<close>

definition lt_inv :: "'h LatencyTracker \<Rightarrow> bool" where
  "lt_inv lt \<longleftrightarrow> length (lt_histograms lt) = kMetricCount"

lemma lt_inv_intros [invariant_intros]:
  "new_LatencyTracker H = Some lt \<Longrightarrow> lt_inv lt"
  "lt_inv lt \<Longrightarrow> lt_inv (lt_record H metric nanos lt)"
  "lt_inv lt \<Longrightarrow> lt_inv (recordOrderSubmit i now lt)"
  "lt_inv lt \<Longrightarrow> lt_inv (recordFillReceived H i now lt)"
  by (auto simp: lt_inv_def new_LatencyTracker_def lt_record_def recordOrderSubmit_def recordFillReceived_def
      Let_def split: if_splits option.splits)

text \<open>Fill round trips: however often an order's fills arrive, its latency is recorded once, as the time
  from its last submission to the first fill after it, and the other histograms are untouched.\<close>

theorem fill_round_trip_once:
  assumes "lt_inv lt" and "ts \<noteq> []"
  shows "lt_histograms (fold (recordFillReceived H i) ts (recordOrderSubmit i t0 lt)) =
    (lt_histograms lt)[4 := hdr_record_value_atomic H (lt_histograms lt ! 4) (u64_to_i64 (hd ts - t0))]"
proof -
  obtain t1 ts' where ts: "ts = t1 # ts'" using assms(2) by (cases ts) auto
  let ?lt = "recordFillReceived H i t1 (recordOrderSubmit i t0 lt)"
  have first: "lt_histograms ?lt = (lt_histograms lt)[4 := hdr_record_value_atomic H (lt_histograms lt ! 4) (u64_to_i64 (t1 - t0))]"
    "lt_submit_timestamps ?lt i = None"
    by (simp_all add: recordFillReceived_def recordOrderSubmit_def lt_record_def Let_def kMetricCount_def)
  have "fold (recordFillReceived H i) us l = l" if "lt_submit_timestamps l i = None" for us l
    using that by (induction us) (simp_all add: recordFillReceived_def)
  then show ?thesis using first by (simp add: ts)
qed

definition demo_hdr :: "int list hdr_api" where
  "demo_hdr = \<lparr>hdr_init = (\<lambda>_ _ _ _. Some []), hdr_record_value_atomic = (\<lambda>h v. v # h),
     hdr_value_at_percentile = (\<lambda>_ _. 0), hdr_total_count = (\<lambda>h. int (length h))\<rparr>"

theorem fill_round_trip_once_witness:
  "\<exists>lt. new_LatencyTracker demo_hdr = Some lt \<and>
    lt_histograms (fold (recordFillReceived demo_hdr ''id'') [150, 300] (recordOrderSubmit ''id'' 100 lt)) = [[], [], [], [], [50]]"
proof -
  obtain lt where lt: "new_LatencyTracker demo_hdr = Some lt" "lt_histograms lt = [[], [], [], [], []]"
    by (simp add: new_LatencyTracker_def demo_hdr_def kMetricCount_def upt_rec)
  have "u64_to_i64 50 = 50" using u64_to_i64_nonneg [of 50] by simp
  then show ?thesis
    using fill_round_trip_once [OF lt_inv_intros(1) [OF lt(1)], of "[150, 300]" demo_hdr "''id''" 100] lt
    by (simp add: demo_hdr_def numeral_eq_Suc)
qed

end
