(* ===== verification/Event_Consumer.thy ===== *)
theory Event_Consumer
  imports Market_Making Market_Wire Risk_Manager Latency_Tracker
begin

text \<open>
  \<open>MarketEventConsumer\<close> (\<open>include/MarketEventConsumer.hpp\<close>): the loop of one consumer thread, generic in its
  strategy (an operation \<open>on_event\<close> on a state \<open>'s\<close>) and in its order callback (an operation on \<open>'q\<close>).
  The socket is outside code: a turn of the loop is given what the two receives return and the clock
  readings the turn takes. The risk manager and the objects it points to are fields of the state.
\<close>

section \<open>Model\<close>

record ('s, 'q, 'h) Consumer =
  mc_strategy :: 's
  mc_risk :: RiskManager
  mc_objects :: risk_objects
  mc_latency :: "'h LatencyTracker option"
  mc_orders :: 'q

text \<open>\<^const>\<open>None\<close>: the constructor throws; otherwise the symbol's buffer and the subscribed prefix.\<close>

definition new_Consumer :: "string \<Rightarrow> (string \<times> string) option" where
  "new_Consumer symb = (if length symb > 8 then None else Some (copy_buf 9 symb, take (length symb) (copy_buf 9 symb)))"

text \<open>The clock readings of a turn: on receipt, in the cooldown check, and before the order is queued.\<close>

record turn_clock =
  tc_received :: u64
  tc_risk :: u64
  tc_queue :: u64

definition consume_event :: "(MarketEvent \<Rightarrow> 's \<Rightarrow> Order option \<times> 's) \<Rightarrow> (Order \<Rightarrow> 'q \<Rightarrow> 'q option) \<Rightarrow> 'h hdr_api \<Rightarrow>
    turn_clock \<Rightarrow> MarketEvent \<Rightarrow> ('s, 'q, 'h) Consumer \<Rightarrow> ('s, 'q, 'h) Consumer option" where
  "consume_event on_event order_callback H t event C =
     (let zmq_received_at = (if mc_latency C \<noteq> None then tc_received t else 0);
          C = C\<lparr>mc_latency := map_option (lt_record H ZmqTransport (zmq_received_at - ev_arrivedAt event)) (mc_latency C)\<rparr>;
          (order, strategy) = on_event event (mc_strategy C);
          C = C\<lparr>mc_strategy := strategy\<rparr>
      in case order of
           None \<Rightarrow> Some C
         | Some order \<Rightarrow> do {
             (approved, objects) \<leftarrow> onNewOrder (mc_risk C) (tc_risk t) order (mc_objects C);
             let C = C\<lparr>mc_objects := objects\<rparr>;
             (if \<not> approved then Some C
              else let pre_queue_at = tc_queue t;
                       C = C\<lparr>mc_latency := map_option (lt_record H StrategyRisk (pre_queue_at - zmq_received_at)) (mc_latency C)\<rparr>;
                       order = order\<lparr>ord_arrivedAt := ev_arrivedAt event, ord_queuedAt := pre_queue_at\<rparr>
                   in do {
                     orders \<leftarrow> order_callback order (mc_orders C);
                     Some (C\<lparr>mc_orders := orders\<rparr>)
                   })
           })"

text \<open>One turn of the loop: the two messages it receives, \<^const>\<open>None\<close> when the receive times out. (Any other error of a receive is an
  exception that nothing catches; it ends the program.)\<close>

record turn =
  tu_clock :: turn_clock
  tu_topic :: "string option"
  tu_payload :: "string option"

definition consumer_turn :: "(MarketEvent \<Rightarrow> 's \<Rightarrow> Order option \<times> 's) \<Rightarrow> (Order \<Rightarrow> 'q \<Rightarrow> 'q option) \<Rightarrow> 'h hdr_api \<Rightarrow>
    turn \<Rightarrow> ('s, 'q, 'h) Consumer \<Rightarrow> ('s, 'q, 'h) Consumer option" where
  "consumer_turn on_event order_callback H tu C =
     (case tu_topic tu of
        None \<Rightarrow> Some C
      | Some topic \<Rightarrow>
          (case tu_payload tu of
             None \<Rightarrow> Some C
           | Some payload \<Rightarrow>
               if length payload \<noteq> 64 then Some C
               else consume_event on_event order_callback H (tu_clock tu) (event_of_bytes payload) C))"

text \<open>The loop, for the turns it makes until it reads the running flag as false.\<close>

definition consumer_run :: "(MarketEvent \<Rightarrow> 's \<Rightarrow> Order option \<times> 's) \<Rightarrow> (Order \<Rightarrow> 'q \<Rightarrow> 'q option) \<Rightarrow> 'h hdr_api \<Rightarrow>
    (bool \<times> turn) list \<Rightarrow> ('s, 'q, 'h) Consumer \<Rightarrow> ('s, 'q, 'h) Consumer option" where
  "consumer_run on_event order_callback H turns C =
     run_list (consumer_turn on_event order_callback H) (map snd (takeWhile fst turns)) C"

section \<open>What a turn does\<close>

text \<open>Either no order leaves the turn and the positions are untouched, or exactly one approved order does.\<close>

definition event_in :: "turn \<Rightarrow> MarketEvent option" where
  "event_in tu = (case (tu_topic tu, tu_payload tu) of
     (Some _, Some payload) \<Rightarrow> if length payload = 64 then Some (event_of_bytes payload) else None | _ \<Rightarrow> None)"

lemma consumer_turn_event:
  "consumer_turn f cb H tu C = (case event_in tu of None \<Rightarrow> Some C | Some e \<Rightarrow> consume_event f cb H (tu_clock tu) e C)"
  by (simp add: consumer_turn_def event_in_def split: option.splits)

lemma consume_event_cases:
  assumes run: "consume_event f cb H t e C = Some C'"
  obtains (no_order) "fst (f e (mc_strategy C)) = None" and "mc_objects C' = mc_objects C" and "mc_orders C' = mc_orders C"
      and "mc_strategy C' = snd (f e (mc_strategy C))" and "mc_risk C' = mc_risk C"
    | (rejected) ord objs where "fst (f e (mc_strategy C)) = Some ord"
      and "onNewOrder (mc_risk C) (tc_risk t) ord (mc_objects C) = Some (False, objs)" and "mc_objects C' = objs"
      and "mc_orders C' = mc_orders C" and "mc_strategy C' = snd (f e (mc_strategy C))" and "mc_risk C' = mc_risk C"
    | (queued) ord objs where "fst (f e (mc_strategy C)) = Some ord"
      and "onNewOrder (mc_risk C) (tc_risk t) ord (mc_objects C) = Some (True, objs)" and "mc_objects C' = objs"
      and "cb (ord\<lparr>ord_arrivedAt := ev_arrivedAt e, ord_queuedAt := tc_queue t\<rparr>) (mc_orders C) = Some (mc_orders C')"
      and "mc_strategy C' = snd (f e (mc_strategy C))" and "mc_risk C' = mc_risk C"
proof (cases "f e (mc_strategy C)")
  case (Pair o' s')
  show thesis
  proof (cases o')
    case None
    then show thesis using run Pair by (intro no_order) (auto simp: consume_event_def Let_def)
  next
    case (Some ord)
    then obtain ok objs where n: "onNewOrder (mc_risk C) (tc_risk t) ord (mc_objects C) = Some (ok, objs)"
      using run Pair by (auto simp: consume_event_def Let_def bind_eq_Some_conv)
    show thesis
    proof (cases ok)
      case True
      then show thesis using run Pair Some n
        by (intro queued [of ord objs]) (auto simp: consume_event_def Let_def bind_eq_Some_conv)
    next
      case False
      then show thesis using run Pair Some n by (intro rejected [of ord objs]) (auto simp: consume_event_def Let_def)
    qed
  qed
qed

end
