(* ===== verification/Mpsc_Queue.thy ===== *)
theory Mpsc_Queue
  imports Prelude
begin

text \<open>
  \<open>LockFreeMPSCQueue\<close> (\<open>include/LockFreeMPSCQueue.hpp\<close>): a linked queue with many producers and one
  consumer. Nodes live in a heap, a partial map from addresses; a deleted node is outside its domain
  and reading or writing it is a memory error, \<^const>\<open>None\<close>. Address 0 is the embedded \<open>stub_\<close>, the
  null pointer of \<open>next\<close> is \<^const>\<open>None\<close>.

  The first part has the member functions as one thread runs them; the second splits them into their
  atomic accesses and interleaves any number of producers with the consumer. Accesses are sequentially
  consistent in the model: the release store of \<open>next\<close> and the acquire load pair up on the only
  locations the threads share.
\<close>

section \<open>The queue object\<close>

type_synonym addr = nat

record 'a Node =
  nd_next :: "addr option"
  nd_data :: 'a

record 'a Queue =
  q_heap :: "addr \<rightharpoonup> 'a Node"
  q_head :: addr
  q_tail :: addr

definition stub :: addr where
  "stub = 0"

text \<open>\<open>T{}\<close>, the data of the stub, is an argument.\<close>

definition new_Queue :: "'a \<Rightarrow> 'a Queue" where
  "new_Queue dflt = \<lparr>q_heap = [stub \<mapsto> \<lparr>nd_next = None, nd_data = dflt\<rparr>], q_head = stub, q_tail = stub\<rparr>"

definition new_node :: "addr \<Rightarrow> 'a \<Rightarrow> 'a Queue \<Rightarrow> 'a Queue" where
  "new_node a v q = q\<lparr>q_heap := (q_heap q)(a \<mapsto> \<lparr>nd_next = None, nd_data = v\<rparr>)\<rparr>"

definition exchange_head :: "addr \<Rightarrow> 'a Queue \<Rightarrow> addr \<times> 'a Queue" where
  "exchange_head node q = (q_head q, q\<lparr>q_head := node\<rparr>)"

definition store_next :: "addr \<Rightarrow> addr \<Rightarrow> 'a Queue \<Rightarrow> 'a Queue option" where
  "store_next prev_head node q =
     (case q_heap q prev_head of None \<Rightarrow> None
      | Some n \<Rightarrow> Some (q\<lparr>q_heap := (q_heap q)(prev_head \<mapsto> n\<lparr>nd_next := Some node\<rparr>)\<rparr>))"

definition load_next :: "'a Queue \<Rightarrow> addr option option" where
  "load_next q = map_option nd_next (q_heap q (q_tail q))"

text \<open>The common end of the three pops: copy the data out of \<open>next\<close>, advance the tail, delete the old node.\<close>

definition take_next :: "addr \<Rightarrow> 'a Queue \<Rightarrow> ('a \<times> 'a Queue) option" where
  "take_next nxt q =
     (case q_heap q nxt of None \<Rightarrow> None
      | Some n \<Rightarrow>
          (let tail = q_tail q; q = q\<lparr>q_tail := nxt\<rparr>
           in Some (nd_data n, if tail \<noteq> stub then q\<lparr>q_heap := (q_heap q)(tail := None)\<rparr> else q)))"

section \<open>The member functions\<close>

text \<open>\<open>a\<close> is the address the allocator returns.\<close>

definition push :: "addr \<Rightarrow> 'a \<Rightarrow> 'a Queue \<Rightarrow> 'a Queue option" where
  "push a v q = (case exchange_head a (new_node a v q) of (prev_head, q) \<Rightarrow> store_next prev_head a q)"

definition try_pop :: "'a Queue \<Rightarrow> ('a option \<times> 'a Queue) option" where
  "try_pop q = do {
     nxt \<leftarrow> load_next q;
     (case nxt of
        None \<Rightarrow> Some (None, q)
      | Some n \<Rightarrow> do { (v, q) \<leftarrow> take_next n q; Some (Some v, q) })
   }"

text \<open>
  One turn of the loops of \<open>wait_and_pop\<close>: it pops, gives up (only the variant with a \<open>running\<close> flag), or
  goes round again.
\<close>

datatype 'a wait_result = Popped 'a | Stopped | Again

definition wait_and_pop_turn :: "bool option \<Rightarrow> 'a Queue \<Rightarrow> ('a wait_result \<times> 'a Queue) option" where
  "wait_and_pop_turn running q = do {
     nxt \<leftarrow> load_next q;
     (case nxt of
        Some n \<Rightarrow> do { (v, q) \<leftarrow> take_next n q; Some (Popped v, q) }
      | None \<Rightarrow> Some (if running = Some False \<and> q_tail q = q_head q then Stopped else Again, q))
   }"

text \<open>The destructor drains the queue and deletes the last node; \<open>fuel\<close> bounds the draining loop.\<close>

fun drain :: "nat \<Rightarrow> 'a Queue \<Rightarrow> 'a Queue option" where
  "drain 0 q = None"
| "drain (Suc fuel) q = do {
     (r, q) \<leftarrow> try_pop q;
     (case r of None \<Rightarrow> Some q | Some v \<Rightarrow> drain fuel q)
   }"

definition destroy_Queue :: "nat \<Rightarrow> 'a Queue \<Rightarrow> 'a Queue option" where
  "destroy_Queue fuel q = do {
     q \<leftarrow> drain fuel q;
     Some (if q_tail q \<noteq> stub then q\<lparr>q_heap := (q_heap q)(q_tail q := None)\<rparr> else q)
   }"

section \<open>Producers and the consumer as threads\<close>

datatype producer = Idle | Allocated addr | Exchanged addr addr

datatype consumer = Ready | Loaded addr

record 'a mpsc =
  m_queue :: "'a Queue"
  m_producers :: "nat \<Rightarrow> producer"
  m_consumer :: consumer

datatype 'a action =
    Alloc nat addr 'a | Exchange nat | StoreNext nat | LoadNext | TakeNext | CheckStop

datatype 'a chan_event = Enq 'a | Deq 'a | Empty | Drained | Silent

definition new_mpsc :: "'a \<Rightarrow> 'a mpsc" where
  "new_mpsc dflt = \<lparr>m_queue = new_Queue dflt, m_producers = (\<lambda>_. Idle), m_consumer = Ready\<rparr>"

primrec enabled :: "'a action \<Rightarrow> 'a mpsc \<Rightarrow> bool" where
  "enabled (Alloc p a v) s \<longleftrightarrow> m_producers s p = Idle \<and> q_heap (m_queue s) a = None"
| "enabled (Exchange p) s \<longleftrightarrow> (case m_producers s p of Allocated a \<Rightarrow> True | _ \<Rightarrow> False)"
| "enabled (StoreNext p) s \<longleftrightarrow> (case m_producers s p of Exchanged prev a \<Rightarrow> True | _ \<Rightarrow> False)"
| "enabled LoadNext s \<longleftrightarrow> m_consumer s = Ready"
| "enabled TakeNext s \<longleftrightarrow> (case m_consumer s of Loaded n \<Rightarrow> True | _ \<Rightarrow> False)"
| "enabled CheckStop s \<longleftrightarrow> m_consumer s = Ready"

text \<open>
  One atomic access. The value enters the queue at the exchange of \<open>head_\<close>; a pop that reads a null
  \<open>next\<close> is \<open>Empty\<close>; the stop check of \<open>wait_and_pop\<close> that finds \<open>tail == head_\<close> is \<open>Drained\<close>.
\<close>

primrec exec :: "'a action \<Rightarrow> 'a mpsc \<Rightarrow> ('a chan_event \<times> 'a mpsc) option" where
  "exec (Alloc p a v) s =
     Some (Silent, s\<lparr>m_queue := new_node a v (m_queue s), m_producers := (m_producers s)(p := Allocated a)\<rparr>)"
| "exec (Exchange p) s =
     (case m_producers s p of
        Allocated a \<Rightarrow>
          (case (q_heap (m_queue s) a, exchange_head a (m_queue s)) of
             (Some n, prev_head, q) \<Rightarrow>
               Some (Enq (nd_data n), s\<lparr>m_queue := q, m_producers := (m_producers s)(p := Exchanged prev_head a)\<rparr>)
           | _ \<Rightarrow> None)
      | _ \<Rightarrow> None)"
| "exec (StoreNext p) s =
     (case m_producers s p of
        Exchanged prev_head a \<Rightarrow> do {
          q \<leftarrow> store_next prev_head a (m_queue s);
          Some (Silent, s\<lparr>m_queue := q, m_producers := (m_producers s)(p := Idle)\<rparr>)
        }
      | _ \<Rightarrow> None)"
| "exec LoadNext s = do {
     nxt \<leftarrow> load_next (m_queue s);
     Some (case nxt of None \<Rightarrow> (Empty, s) | Some n \<Rightarrow> (Silent, s\<lparr>m_consumer := Loaded n\<rparr>))
   }"
| "exec TakeNext s =
     (case m_consumer s of
        Loaded n \<Rightarrow> do {
          (v, q) \<leftarrow> take_next n (m_queue s);
          Some (Deq v, s\<lparr>m_queue := q, m_consumer := Ready\<rparr>)
        }
      | _ \<Rightarrow> None)"
| "exec CheckStop s = Some (if q_tail (m_queue s) = q_head (m_queue s) then Drained else Silent, s)"

inductive mpsc_step :: "'a mpsc \<Rightarrow> 'a chan_event \<Rightarrow> 'a mpsc \<Rightarrow> bool" where
  mpsc_stepI: "enabled act s \<Longrightarrow> exec act s = Some (e, s') \<Longrightarrow> mpsc_step s e s'"

inductive_cases mpsc_stepE: "mpsc_step s e s'"

section \<open>The chain of nodes\<close>

text \<open>
  The nodes from the tail to the head, in the order of the exchanges. Two neighbours are linked, or
  the producer that exchanged is still about to link them. \<open>mpsc_inv s ns\<close> states this and that the
  heap holds nothing else but the stub and nodes a producer has not yet published.
\<close>

definition link_ok :: "'a mpsc \<Rightarrow> addr \<Rightarrow> addr \<Rightarrow> bool" where
  "link_ok s a b \<longleftrightarrow> (\<exists>n. q_heap (m_queue s) a = Some n \<and>
     (nd_next n = Some b \<or> nd_next n = None \<and> (\<exists>p. m_producers s p = Exchanged a b)))"

definition is_last :: "'a mpsc \<Rightarrow> addr \<Rightarrow> bool" where
  "is_last s a \<longleftrightarrow> (\<exists>n. q_heap (m_queue s) a = Some n \<and> nd_next n = None)"

definition private_nodes :: "'a mpsc \<Rightarrow> addr set" where
  "private_nodes s = {a. \<exists>p. m_producers s p = Allocated a}"

definition chain_ok :: "'a mpsc \<Rightarrow> addr list \<Rightarrow> bool" where
  "chain_ok s ns \<longleftrightarrow> ns \<noteq> [] \<and> hd ns = q_tail (m_queue s) \<and> last ns = q_head (m_queue s) \<and>
     distinct ns \<and> successively (link_ok s) ns \<and> is_last s (last ns) \<and> stub \<notin> set (tl ns)"

definition producers_ok :: "'a mpsc \<Rightarrow> addr list \<Rightarrow> bool" where
  "producers_ok s ns \<longleftrightarrow>
     (\<forall>p a. m_producers s p = Allocated a \<longrightarrow> is_last s a \<and> a \<notin> set ns \<and> a \<noteq> stub) \<and>
     (\<forall>p p' a. m_producers s p = Allocated a \<longrightarrow> m_producers s p' = Allocated a \<longrightarrow> p = p') \<and>
     (\<forall>p a b. m_producers s p = Exchanged a b \<longrightarrow> is_last s a \<and> (\<exists>xs ys. ns = xs @ a # b # ys)) \<and>
     (\<forall>p p' a b b'. m_producers s p = Exchanged a b \<longrightarrow> m_producers s p' = Exchanged a b' \<longrightarrow> p = p')"

definition consumer_ok :: "'a mpsc \<Rightarrow> addr list \<Rightarrow> bool" where
  "consumer_ok s ns \<longleftrightarrow> (\<forall>b. m_consumer s = Loaded b \<longrightarrow>
     (\<exists>a ys n. ns = a # b # ys \<and> q_heap (m_queue s) a = Some n \<and> nd_next n = Some b))"

definition mpsc_inv :: "'a mpsc \<Rightarrow> addr list \<Rightarrow> bool" where
  "mpsc_inv s ns \<longleftrightarrow> chain_ok s ns \<and> producers_ok s ns \<and> consumer_ok s ns \<and>
     stub \<in> dom (q_heap (m_queue s)) \<and> dom (q_heap (m_queue s)) \<subseteq> insert stub (set ns \<union> private_nodes s)"

definition contents :: "'a mpsc \<Rightarrow> addr list \<Rightarrow> 'a list" where
  "contents s ns = map (\<lambda>a. nd_data (the (q_heap (m_queue s) a))) (tl ns)"

lemmas mpsc_inv_defs = mpsc_inv_def chain_ok_def producers_ok_def consumer_ok_def private_nodes_def

lemma chain_allocated:
  assumes "chain_ok s ns" and "a \<in> set ns"
  shows "q_heap (m_queue s) a \<noteq> None"
proof -
  have "successively R xs \<Longrightarrow> a \<in> set xs \<Longrightarrow> a \<noteq> last xs \<Longrightarrow> \<exists>b. R a b" for R and xs :: "addr list"
    by (induction R xs rule: successively.induct) auto
  then have "is_last s a \<or> (\<exists>b. link_ok s a b)" using assms unfolding chain_ok_def by metis
  then show ?thesis by (auto simp: is_last_def link_ok_def)
qed

lemma mpsc_inv_new: "mpsc_inv (new_mpsc dflt) [stub]"
  by (simp add: mpsc_inv_defs new_mpsc_def new_Queue_def is_last_def)

lemma contents_new [simp]: "contents (new_mpsc dflt) [stub] = []"
  by (simp add: contents_def)

lemma exchangedD:
  assumes "mpsc_inv s ns" and "m_producers s p = Exchanged a b"
  shows "is_last s a" and "\<exists>xs ys. ns = xs @ a # b # ys"
    and "m_producers s p' = Exchanged a b' \<Longrightarrow> p' = p"
  using assms unfolding mpsc_inv_def producers_ok_def by metis+

lemma allocatedD:
  assumes "mpsc_inv s ns" and "m_producers s p = Allocated a"
  shows "is_last s a" and "a \<notin> set ns" and "a \<noteq> stub" and "m_producers s p' = Allocated a \<Longrightarrow> p' = p"
  using assms unfolding mpsc_inv_def producers_ok_def by metis+

subsection \<open>Each access keeps the invariant\<close>

lemma successively_cong_set:
  "(\<And>a b. a \<in> set xs \<Longrightarrow> b \<in> set xs \<Longrightarrow> P a b \<Longrightarrow> Q a b) \<Longrightarrow> successively P xs \<Longrightarrow> successively Q xs"
  by (induction P xs rule: successively.induct) auto

lemma link_ok_mono:
  assumes "link_ok s b c" and "\<And>n. q_heap (m_queue s) b = Some n \<Longrightarrow> q_heap (m_queue s') b = Some n"
    and "\<And>p. m_producers s p = Exchanged b c \<Longrightarrow> m_producers s' p = Exchanged b c"
  shows "link_ok s' b c"
  using assms unfolding link_ok_def by metis

lemma consumer_ok_mono:
  assumes "consumer_ok s ns" and "m_consumer s' = m_consumer s"
    and "\<And>a n. q_heap (m_queue s) a = Some n \<Longrightarrow> nd_next n \<noteq> None \<Longrightarrow> q_heap (m_queue s') a = Some n"
  shows "consumer_ok s' (ns @ zs)"
  unfolding consumer_ok_def
proof (intro allI impI)
  fix b assume "m_consumer s' = Loaded b"
  then obtain a ys n where "ns = a # b # ys" "q_heap (m_queue s) a = Some n" "nd_next n = Some b"
    using assms(1,2) unfolding consumer_ok_def by auto
  then show "\<exists>a ys n. ns @ zs = a # b # ys \<and> q_heap (m_queue s') a = Some n \<and> nd_next n = Some b"
    using assms(3) [of a n] by auto
qed

lemma Alloc_inv:
  assumes inv: "mpsc_inv s ns" and en: "enabled (Alloc p a v) s" and ex: "exec (Alloc p a v) s = Some (e, s')"
  shows "mpsc_inv s' ns \<and> contents s' ns = contents s ns \<and> e = Silent"
proof -
  have free: "q_heap (m_queue s) a = None" and idle: "m_producers s p = Idle" using en by simp_all
  have s': "e = Silent" "q_heap (m_queue s') = (q_heap (m_queue s))(a \<mapsto> \<lparr>nd_next = None, nd_data = v\<rparr>)"
    "q_head (m_queue s') = q_head (m_queue s)" "q_tail (m_queue s') = q_tail (m_queue s)"
    "m_producers s' = (m_producers s)(p := Allocated a)" "m_consumer s' = m_consumer s"
    using ex by (auto simp: new_node_def)
  have new: "a \<notin> set ns" "a \<noteq> stub"
    using inv free chain_allocated [of s ns a] by (auto simp: mpsc_inv_def)
  have last: "is_last s' b" if "is_last s b" for b using that free by (auto simp: is_last_def s')
  have kept: "m_producers s' p' = Exchanged b c" if "m_producers s p' = Exchanged b c" for p' b c
    using that idle by (auto simp: s')
  have link: "link_ok s' b c" if "link_ok s b c" for b c
    using that by (rule link_ok_mono) (use free kept in \<open>auto simp: s'(2)\<close>)
  have "chain_ok s' ns"
    using inv successively_cong_set [of ns "link_ok s" "link_ok s'"] link last by (auto simp: mpsc_inv_def chain_ok_def s')
  moreover have "m_producers s p' \<noteq> Allocated a" for p'
    using inv free unfolding mpsc_inv_def producers_ok_def is_last_def by fastforce
  then have "producers_ok s' ns"
    using inv new free last unfolding mpsc_inv_def producers_ok_def s'(5)
    by (auto simp: is_last_def s' split: if_splits)
  moreover have "consumer_ok s' ns"
    using consumer_ok_mono [of s ns s' "[]"] inv free unfolding mpsc_inv_def s'(2,6) by fastforce
  moreover have "dom (q_heap (m_queue s')) \<subseteq> insert stub (set ns \<union> private_nodes s')"
  proof -
    have "m_producers s' p' = Allocated b" if "m_producers s p' = Allocated b" for p' b
      using that idle by (auto simp: s')
    then have "private_nodes s \<subseteq> private_nodes s'" by (auto simp: private_nodes_def)
    moreover have "m_producers s' p = Allocated a" by (simp add: s')
    then have "a \<in> private_nodes s'" unfolding private_nodes_def by blast
    ultimately show ?thesis using inv by (auto simp: mpsc_inv_def s'(2))
  qed
  moreover have "a \<notin> set (tl ns)" using new(1) by (cases ns) auto
  ultimately show ?thesis
    using inv by (auto simp: mpsc_inv_def contents_def s')
qed

lemma Exchange_inv:
  assumes inv: "mpsc_inv s ns" and ex: "exec (Exchange p) s = Some (e, s')"
  shows "\<exists>a v. mpsc_inv s' (ns @ [a]) \<and> e = Enq v \<and> contents s' (ns @ [a]) = contents s ns @ [v]"
proof -
  obtain a n where pc: "m_producers s p = Allocated a" and n: "q_heap (m_queue s) a = Some n"
    and e: "e = Enq (nd_data n)" and s': "q_heap (m_queue s') = q_heap (m_queue s)" "q_head (m_queue s') = a"
    "q_tail (m_queue s') = q_tail (m_queue s)" "m_producers s' = (m_producers s)(p := Exchanged (q_head (m_queue s)) a)"
    "m_consumer s' = m_consumer s"
    using ex by (auto simp: exchange_head_def split: producer.splits option.splits)
  have ns: "ns \<noteq> []" "last ns = q_head (m_queue s)" "is_last s (last ns)"
    using inv unfolding mpsc_inv_def chain_ok_def by blast+
  have new: "a \<notin> set ns" "a \<noteq> stub" "is_last s a" using inv pc by (auto simp: mpsc_inv_def producers_ok_def)
  have last: "is_last s' b \<longleftrightarrow> is_last s b" for b by (simp add: is_last_def s')
  have kept: "m_producers s' p' = Exchanged b c" if "m_producers s p' = Exchanged b c" for p' b c
    using that pc by (auto simp: s')
  have link: "link_ok s' b c" if "link_ok s b c" for b c
    using that by (rule link_ok_mono) (use kept in \<open>auto simp: s'(1)\<close>)
  have link_new: "link_ok s' (last ns) a" using ns by (auto simp: link_ok_def is_last_def s')
  obtain xs where xs: "ns = xs @ [last ns]" using ns(1) by (metis append_butlast_last_id)
  have "chain_ok s' (ns @ [a])"
    using inv ns new link_new successively_cong_set [of ns "link_ok s" "link_ok s'"] link
    by (auto simp: mpsc_inv_def chain_ok_def s' last successively_append_iff)
  moreover have "producers_ok s' (ns @ [a])"
    unfolding producers_ok_def
  proof (intro conjI allI impI)
    fix p' b assume "m_producers s' p' = Allocated b"
    then have p': "m_producers s p' = Allocated b" "p' \<noteq> p" by (auto simp: s' split: if_splits)
    then have "b \<noteq> a" using allocatedD(4) [OF inv pc] by blast
    then show "is_last s' b" "b \<notin> set (ns @ [a])" "b \<noteq> stub" using allocatedD [OF inv p'(1)] by (simp_all add: last)
  next
    fix p' p'' b assume "m_producers s' p' = Allocated b" "m_producers s' p'' = Allocated b"
    then show "p' = p''" using inv by (auto simp: mpsc_inv_def producers_ok_def s' split: if_splits)
  next
    fix p' b c assume p': "m_producers s' p' = Exchanged b c"
    have "is_last s b \<and> (\<exists>xs ys. ns @ [a] = xs @ b # c # ys)"
    proof (cases "p' = p")
      case True
      then have "b = last ns" "c = a" using p' ns(2) by (simp_all add: s')
      then have "ns @ [a] = xs @ b # c # []" using xs by simp
      then show ?thesis using ns(3) \<open>b = last ns\<close> by blast
    next
      case False
      then have "m_producers s p' = Exchanged b c" using p' by (simp add: s')
      then obtain us vs where "is_last s b" "ns = us @ b # c # vs" using exchangedD [OF inv] by blast
      then have "is_last s b" "ns @ [a] = us @ b # c # (vs @ [a])" by simp_all
      then show ?thesis by blast
    qed
    then show "is_last s' b" and "\<exists>xs ys. ns @ [a] = xs @ b # c # ys" by (simp_all add: last)
  next
    fix p' p'' b c c' assume "m_producers s' p' = Exchanged b c" "m_producers s' p'' = Exchanged b c'"
    moreover have "m_producers s p' \<noteq> Exchanged (last ns) c" for p' c
    proof
      assume "m_producers s p' = Exchanged (last ns) c"
      then obtain us vs where "ns = us @ last ns # c # vs" using exchangedD(2) [OF inv] by blast
      moreover have "distinct ns" using inv by (simp add: mpsc_inv_def chain_ok_def)
      ultimately show False by (metis append_is_Nil_conv distinct.simps(2) distinct_append last.simps last_appendR last_in_set list.distinct(1))
    qed
    ultimately show "p' = p''" using inv ns(2) by (auto simp: mpsc_inv_def producers_ok_def s' split: if_splits)
  qed
  moreover have "consumer_ok s' (ns @ [a])" using inv by (intro consumer_ok_mono [of s]) (auto simp: mpsc_inv_def s')
  moreover have "dom (q_heap (m_queue s')) \<subseteq> insert stub (set (ns @ [a]) \<union> private_nodes s')"
  proof -
    have "b = a \<or> m_producers s' p' = Allocated b" if "m_producers s p' = Allocated b" for p' b
      using that pc by (auto simp: s')
    then have "private_nodes s \<subseteq> insert a (private_nodes s')" unfolding private_nodes_def by blast
    then show ?thesis using inv by (auto simp: mpsc_inv_def s'(1))
  qed
  ultimately have "mpsc_inv s' (ns @ [a])" using inv by (simp add: mpsc_inv_def s')
  moreover have "contents s' (ns @ [a]) = contents s ns @ [nd_data n]" using ns(1) n by (cases ns) (simp_all add: contents_def s')
  ultimately show ?thesis using e by blast
qed

lemma StoreNext_inv:
  assumes inv: "mpsc_inv s ns" and ex: "exec (StoreNext p) s = Some (e, s')"
  shows "mpsc_inv s' ns \<and> contents s' ns = contents s ns \<and> e = Silent"
proof -
  obtain a b n where pc: "m_producers s p = Exchanged a b" and n: "q_heap (m_queue s) a = Some n"
    and s': "e = Silent" "q_heap (m_queue s') = (q_heap (m_queue s))(a \<mapsto> n\<lparr>nd_next := Some b\<rparr>)"
    "q_head (m_queue s') = q_head (m_queue s)" "q_tail (m_queue s') = q_tail (m_queue s)"
    "m_producers s' = (m_producers s)(p := Idle)" "m_consumer s' = m_consumer s"
    using ex by (auto simp: store_next_def bind_eq_Some_conv split: producer.splits option.splits)
  have none: "nd_next n = None" using exchangedD(1) [OF inv pc] n by (simp add: is_last_def)
  obtain xs ys where ns: "ns = xs @ a # b # ys" using exchangedD(2) [OF inv pc] by blast
  have last: "is_last s' c" if "is_last s c" "c \<noteq> a" for c using that by (simp add: is_last_def s')
  have "distinct ns" using inv by (simp add: mpsc_inv_def chain_ok_def)
  then have last_ns: "last ns \<noteq> a" using ns last_in_set [of "b # ys"] by auto
  have link: "link_ok s' c d" if l: "link_ok s c d" for c d
  proof (cases "c = a")
    case True
    then have "d = b" using l n none exchangedD(3) [OF inv pc] pc by (auto simp: link_ok_def)
    then show ?thesis using True by (simp add: link_ok_def s')
  next
    case False
    have keep: "m_producers s' p' = Exchanged c d" if "m_producers s p' = Exchanged c d" for p'
      using that pc False by (auto simp: s'(5))
    show ?thesis using l by (rule link_ok_mono) (simp_all add: s'(2) False keep)
  qed
  have other: "m_producers s p' = Exchanged c d \<Longrightarrow> p' \<noteq> p \<Longrightarrow> c \<noteq> a" for p' c d
    using exchangedD(3) [OF inv pc] by blast
  have "chain_ok s' ns"
    using inv last last_ns link successively_cong_set [of ns "link_ok s" "link_ok s'"]
    by (auto simp: mpsc_inv_def chain_ok_def s')
  moreover have "producers_ok s' ns"
    unfolding producers_ok_def
  proof (intro conjI allI impI)
    fix p' c assume "m_producers s' p' = Allocated c"
    then have "m_producers s p' = Allocated c" by (simp add: s' split: if_splits)
    from allocatedD [OF inv this] show "is_last s' c" "c \<notin> set ns" "c \<noteq> stub" using last [of c] ns by auto
  next
    fix p' p'' c assume "m_producers s' p' = Allocated c" "m_producers s' p'' = Allocated c"
    then show "p' = p''" using allocatedD(4) [OF inv] by (auto simp: s' split: if_splits)
  next
    fix p' c d assume "m_producers s' p' = Exchanged c d"
    then have p': "m_producers s p' = Exchanged c d" "p' \<noteq> p" by (auto simp: s' split: if_splits)
    show "is_last s' c" using exchangedD(1) [OF inv p'(1)] other [OF p'] by (rule last)
    show "\<exists>xs ys. ns = xs @ c # d # ys" by (rule exchangedD(2) [OF inv p'(1)])
  next
    fix p' p'' c d d' assume "m_producers s' p' = Exchanged c d" "m_producers s' p'' = Exchanged c d'"
    then show "p' = p''" using exchangedD(3) [OF inv] by (auto simp: s' split: if_splits)
  qed
  moreover have "consumer_ok s' ns"
    using consumer_ok_mono [of s ns s' "[]"] inv n none unfolding mpsc_inv_def s'(2,6) by fastforce
  moreover have "private_nodes s' = private_nodes s"
    using pc by (auto simp: private_nodes_def s') (metis producer.distinct(5))
  ultimately show ?thesis
    using inv n by (auto simp: mpsc_inv_def contents_def s')
qed

lemma TakeNext_inv:
  assumes inv: "mpsc_inv s ns" and ex: "exec TakeNext s = Some (e, s')"
  shows "\<exists>v. mpsc_inv s' (tl ns) \<and> e = Deq v \<and> contents s ns = v # contents s' (tl ns)"
proof -
  obtain b n where pc: "m_consumer s = Loaded b" and n: "q_heap (m_queue s) b = Some n"
    and e: "e = Deq (nd_data n)" and s': "q_heap (m_queue s') = (if q_tail (m_queue s) \<noteq> stub
        then (q_heap (m_queue s))(q_tail (m_queue s) := None) else q_heap (m_queue s))"
    "q_head (m_queue s') = q_head (m_queue s)" "q_tail (m_queue s') = b"
    "m_producers s' = m_producers s" "m_consumer s' = Ready"
    using ex by (auto simp: take_next_def Let_def bind_eq_Some_conv split: consumer.splits option.splits)
  obtain a ys m where ns: "ns = a # b # ys" and m: "q_heap (m_queue s) a = Some m" "nd_next m = Some b"
    using inv pc by (auto simp: mpsc_inv_def consumer_ok_def)
  have a: "q_tail (m_queue s) = a" "a \<notin> set (b # ys)" using inv by (auto simp: mpsc_inv_def chain_ok_def ns)
  have heap: "q_heap (m_queue s') c = q_heap (m_queue s) c" if "c \<noteq> a" for c using that a by (simp add: s')
  have last: "is_last s' c" if "is_last s c" for c
  proof -
    have "c \<noteq> a" using that m by (auto simp: is_last_def)
    then show ?thesis using that by (simp add: is_last_def heap)
  qed
  have link: "link_ok s' c d" if "link_ok s c d" "c \<in> set (b # ys)" for c d
    using that(1) by (rule link_ok_mono) (use that(2) a(2) heap [of c] in \<open>auto simp: s'(4)\<close>)
  have "successively (link_ok s) (b # ys)" using inv by (simp add: mpsc_inv_def chain_ok_def ns)
  then have "successively (link_ok s') (b # ys)"
    by (rule successively_cong_set [rotated]) (rule link)
  then have "chain_ok s' (b # ys)" using inv last by (auto simp: mpsc_inv_def chain_ok_def ns s')
  moreover have "producers_ok s' (b # ys)"
    unfolding producers_ok_def s'(4)
  proof (intro conjI allI impI)
    fix p c assume "m_producers s p = Allocated c"
    from allocatedD [OF inv this] show "is_last s' c" "c \<notin> set (b # ys)" "c \<noteq> stub" using last ns by auto
  next
    fix p c d assume p: "m_producers s p = Exchanged c d"
    show "is_last s' c" using exchangedD(1) [OF inv p] by (rule last)
    obtain us vs where us: "ns = us @ c # d # vs" using exchangedD(2) [OF inv p] by blast
    have "c \<noteq> a" using exchangedD(1) [OF inv p] m by (auto simp: is_last_def)
    then have "b # ys = tl us @ c # d # vs" using us ns by (cases us) auto
    then show "\<exists>xs ys'. b # ys = xs @ c # d # ys'" by blast
  next
    fix p p' c assume "m_producers s p = Allocated c" "m_producers s p' = Allocated c"
    then show "p = p'" using allocatedD(4) [OF inv] by blast
  next
    fix p p' c d d' assume "m_producers s p = Exchanged c d" "m_producers s p' = Exchanged c d'"
    then show "p = p'" using exchangedD(3) [OF inv] by blast
  qed
  moreover have "consumer_ok s' (b # ys)" by (simp add: consumer_ok_def s')
  moreover have "dom (q_heap (m_queue s')) \<subseteq> insert stub (set (b # ys) \<union> private_nodes s')"
    "stub \<in> dom (q_heap (m_queue s'))"
    using inv a by (auto simp: mpsc_inv_def private_nodes_def ns s' split: if_splits)
  ultimately have "mpsc_inv s' (tl ns)" by (simp add: mpsc_inv_def ns)
  moreover have "map (\<lambda>c. nd_data (the (q_heap (m_queue s') c))) ys = map (\<lambda>c. nd_data (the (q_heap (m_queue s) c))) ys"
    using a(2) by (intro map_cong refl arg_cong [where f = "\<lambda>x. nd_data (the x)"] heap) auto
  then have "contents s ns = nd_data n # contents s' (tl ns)" by (simp add: contents_def ns n)
  ultimately show ?thesis using e by blast
qed

lemma LoadNext_inv:
  assumes inv: "mpsc_inv s ns" and ex: "exec LoadNext s = Some (e, s')"
  shows "mpsc_inv s' ns \<and> contents s' ns = contents s ns \<and>
    (e = Silent \<or> e = Empty \<and> (contents s ns = [] \<or> (\<exists>p a b. m_producers s p = Exchanged a b)))"
proof -
  obtain n where n: "q_heap (m_queue s) (q_tail (m_queue s)) = Some n"
    using ex by (auto simp: load_next_def bind_eq_Some_conv)
  obtain a zs where ns: "ns = a # zs" "a = q_tail (m_queue s)" using inv by (cases ns) (auto simp: mpsc_inv_def chain_ok_def)
  have nx: "nd_next n = None \<and> zs = [] \<or> (\<exists>b ys. zs = b # ys \<and>
      (nd_next n = Some b \<or> nd_next n = None \<and> (\<exists>p. m_producers s p = Exchanged a b)))"
    using inv n by (cases zs) (auto simp: mpsc_inv_def chain_ok_def ns link_ok_def is_last_def)
  show ?thesis
  proof (cases "nd_next n")
    case None
    then have "e = Empty" "s' = s" using ex n by (auto simp: load_next_def)
    then show ?thesis using inv nx None by (auto simp: contents_def ns)
  next
    case (Some b)
    then have s': "e = Silent" "s' = s\<lparr>m_consumer := Loaded b\<rparr>" using ex n by (auto simp: load_next_def)
    have "link_ok s' = link_ok s" "is_last s' = is_last s" "private_nodes s' = private_nodes s"
      by (auto simp: fun_eq_iff link_ok_def is_last_def private_nodes_def s')
    then show ?thesis using inv nx Some n ns
      by (auto simp: mpsc_inv_def chain_ok_def producers_ok_def consumer_ok_def contents_def s')
  qed
qed

lemma CheckStop_inv:
  assumes inv: "mpsc_inv s ns" and ex: "exec CheckStop s = Some (e, s')"
  shows "s' = s \<and> (e = Silent \<or> e = Drained \<and> contents s ns = [])"
proof -
  have "contents s ns = []" if eq: "q_tail (m_queue s) = q_head (m_queue s)"
  proof (cases ns)
    case (Cons a zs)
    then have "last (a # zs) = a" "distinct (a # zs)" using inv eq by (auto simp: mpsc_inv_def chain_ok_def)
    then have "zs = []" using last_in_set [of zs] by (auto split: if_splits)
    then show ?thesis by (simp add: contents_def Cons)
  qed (simp add: contents_def)
  then show ?thesis using ex by (auto split: if_splits)
qed

text \<open>No access touches a deleted node.\<close>

lemma exec_defined:
  assumes inv: "mpsc_inv s ns" and en: "enabled act s"
  shows "exec act s \<noteq> None"
proof (cases act)
  case (Exchange p)
  then show ?thesis using en allocatedD(1) [OF inv]
    by (auto simp: exchange_head_def is_last_def split: producer.splits option.splits)
next
  case (StoreNext p)
  then show ?thesis using en exchangedD(1) [OF inv]
    by (fastforce simp: store_next_def is_last_def split: producer.splits option.splits)
next
  case LoadNext
  have c: "chain_ok s ns" using inv by (simp add: mpsc_inv_def)
  then have "hd ns = q_tail (m_queue s)" "hd ns \<in> set ns" unfolding chain_ok_def by (blast intro: hd_in_set)+
  then have "q_heap (m_queue s) (q_tail (m_queue s)) \<noteq> None" using chain_allocated [OF c] by metis
  then show ?thesis using LoadNext by (auto simp: load_next_def)
next
  case TakeNext
  then obtain b where b: "m_consumer s = Loaded b" using en by (auto split: consumer.splits)
  then have "b \<in> set ns" using inv by (auto simp: mpsc_inv_def consumer_ok_def)
  then have "q_heap (m_queue s) b \<noteq> None" using inv chain_allocated by (auto simp: mpsc_inv_def)
  then show ?thesis using TakeNext b by (auto simp: take_next_def Let_def)
qed simp_all

section \<open>The interface of a channel\<close>

primrec enqs :: "'a chan_event list \<Rightarrow> 'a list" where
  "enqs [] = []"
| "enqs (e # es) = (case e of Enq v \<Rightarrow> v # enqs es | _ \<Rightarrow> enqs es)"

primrec deqs :: "'a chan_event list \<Rightarrow> 'a list" where
  "deqs [] = []"
| "deqs (e # es) = (case e of Deq v \<Rightarrow> v # deqs es | _ \<Rightarrow> deqs es)"

inductive runs :: "('s \<Rightarrow> 'e \<Rightarrow> 's \<Rightarrow> bool) \<Rightarrow> 's \<Rightarrow> 'e list \<Rightarrow> 's \<Rightarrow> bool" for step where
  runs_Nil: "runs step s [] s"
| runs_Cons: "step s e s1 \<Longrightarrow> runs step s1 es s' \<Longrightarrow> runs step s (e # es) s'"

text \<open>A first-in first-out channel: \<open>rep s xs\<close> says that the state holds the values \<open>xs\<close>, oldest first.\<close>

locale fifo_channel =
  fixes rep :: "'s \<Rightarrow> 'a list \<Rightarrow> bool"
    and step :: "'s \<Rightarrow> 'a chan_event \<Rightarrow> 's \<Rightarrow> bool"
  assumes enq: "rep s xs \<Longrightarrow> step s (Enq v) s' \<Longrightarrow> rep s' (xs @ [v])"
    and deq: "rep s xs \<Longrightarrow> step s (Deq v) s' \<Longrightarrow> \<exists>ys. xs = v # ys \<and> rep s' ys"
    and other: "rep s xs \<Longrightarrow> step s e s' \<Longrightarrow> e \<in> {Silent, Empty, Drained} \<Longrightarrow> rep s' xs"
    and drained: "rep s xs \<Longrightarrow> step s Drained s' \<Longrightarrow> xs = []"
begin

lemma runs_fifo:
  assumes "runs step s es s'" and "rep s xs"
  shows "\<exists>ys. rep s' ys \<and> xs @ enqs es = deqs es @ ys"
  using assms
proof (induction arbitrary: xs rule: runs.induct)
  case (runs_Cons s e s1 es s')
  consider v where "e = Enq v" | v where "e = Deq v" | "e \<in> {Silent, Empty, Drained}" by (cases e) auto
  then show ?case
  proof cases
    case 1
    then show ?thesis using runs_Cons.IH [of "xs @ [v]"] enq runs_Cons.hyps(1) runs_Cons.prems by auto
  next
    case 2
    then obtain ys where ys: "xs = v # ys" "rep s1 ys" using deq runs_Cons.hyps(1) runs_Cons.prems by blast
    then show ?thesis using runs_Cons.IH [OF ys(2)] 2 by auto
  next
    case 3
    then have "rep s1 xs" using other runs_Cons.hyps(1) runs_Cons.prems by blast
    then show ?thesis using runs_Cons.IH 3 by auto
  qed
qed auto

text \<open>When the consumer sees the channel drained, it has received everything that was sent.\<close>

lemma runs_drained:
  assumes "runs step s es s'" and "rep s []" and "step s' Drained s''"
  shows "deqs es = enqs es"
  using runs_fifo [OF assms(1,2)] drained [OF _ assms(3)] by auto

end

definition mpsc_rep :: "'a mpsc \<Rightarrow> 'a list \<Rightarrow> bool" where
  "mpsc_rep s xs \<longleftrightarrow> (\<exists>ns. mpsc_inv s ns \<and> contents s ns = xs)"

lemma mpsc_step_refines:
  assumes inv: "mpsc_inv s ns" and st: "mpsc_step s e s'"
  shows "case e of
      Enq v \<Rightarrow> mpsc_rep s' (contents s ns @ [v])
    | Deq v \<Rightarrow> \<exists>ys. contents s ns = v # ys \<and> mpsc_rep s' ys
    | Drained \<Rightarrow> mpsc_rep s' (contents s ns) \<and> contents s ns = []
    | _ \<Rightarrow> mpsc_rep s' (contents s ns)"
proof -
  obtain act where en: "enabled act s" and ex: "exec act s = Some (e, s')" using st by (rule mpsc_stepE)
  show ?thesis
  proof (cases act)
    case (Alloc p a v)
    then show ?thesis using Alloc_inv [OF inv, of p a v e s'] en ex unfolding mpsc_rep_def by auto
  next
    case (Exchange p)
    then show ?thesis using Exchange_inv [OF inv, of p e s'] ex unfolding mpsc_rep_def by auto
  next
    case (StoreNext p)
    then show ?thesis using StoreNext_inv [OF inv, of p e s'] ex unfolding mpsc_rep_def by auto
  next
    case LoadNext
    then show ?thesis using LoadNext_inv [OF inv, of e s'] ex unfolding mpsc_rep_def by auto
  next
    case TakeNext
    then show ?thesis using TakeNext_inv [OF inv, of e s'] ex unfolding mpsc_rep_def by auto
  next
    case CheckStop
    then show ?thesis using CheckStop_inv [OF inv, of e s'] ex inv unfolding mpsc_rep_def by auto
  qed
qed

lemma mpsc_rep_step:
  assumes "mpsc_rep s xs" and "mpsc_step s e s'"
  shows "case e of Enq v \<Rightarrow> mpsc_rep s' (xs @ [v]) | Deq v \<Rightarrow> \<exists>ys. xs = v # ys \<and> mpsc_rep s' ys
    | Drained \<Rightarrow> mpsc_rep s' xs \<and> xs = [] | _ \<Rightarrow> mpsc_rep s' xs"
proof -
  obtain ns where "mpsc_inv s ns" "contents s ns = xs" using assms(1) unfolding mpsc_rep_def by blast
  with mpsc_step_refines [OF this(1) assms(2)] show ?thesis by (cases e) auto
qed

interpretation mpsc: fifo_channel mpsc_rep mpsc_step
  by unfold_locales (auto dest: mpsc_rep_step)

lemma mpsc_rep_new: "mpsc_rep (new_mpsc dflt) []"
  unfolding mpsc_rep_def using mpsc_inv_new contents_new by metis

lemma mpsc_inv_runs: "runs mpsc_step s es s' \<Longrightarrow> \<exists>ns. mpsc_inv s ns \<Longrightarrow> \<exists>ns. mpsc_inv s' ns"
proof (induction rule: runs.induct)
  case (runs_Cons s e s1 es s')
  then obtain ns where "mpsc_inv s ns" by blast
  from mpsc_step_refines [OF this runs_Cons.hyps(1)] have "\<exists>ns. mpsc_inv s1 ns"
    by (cases e) (auto simp: mpsc_rep_def)
  then show ?case using runs_Cons.IH by blast
qed blast

section \<open>The member functions on a quiescent queue\<close>

text \<open>With no push in progress a call is a fixed sequence of accesses.\<close>

definition quiet :: "'a Queue \<Rightarrow> 'a mpsc" where
  "quiet q = \<lparr>m_queue = q, m_producers = (\<lambda>_. Idle), m_consumer = Ready\<rparr>"

definition queue_rep :: "'a Queue \<Rightarrow> 'a list \<Rightarrow> bool" where
  "queue_rep q xs \<longleftrightarrow> mpsc_rep (quiet q) xs"

lemma queue_rep_new: "queue_rep (new_Queue dflt) []"
  using mpsc_rep_new by (simp add: queue_rep_def quiet_def new_mpsc_def)

lemma push_refines:
  assumes rep: "queue_rep q xs" and free: "q_heap q a = None"
  shows "\<exists>q'. push a v q = Some q' \<and> queue_rep q' (xs @ [v])"
proof -
  define s1 where "s1 = (quiet q)\<lparr>m_queue := new_node a v q, m_producers := (\<lambda>_. Idle)(0 := Allocated a)\<rparr>"
  define s2 where "s2 = s1\<lparr>m_queue := (new_node a v q)\<lparr>q_head := a\<rparr>, m_producers := (\<lambda>_. Idle)(0 := Exchanged (q_head q) a)\<rparr>"
  have "mpsc_step (quiet q) Silent s1"
    by (rule mpsc_stepI [of "Alloc 0 a v"]) (simp_all add: free quiet_def s1_def)
  then have r1: "mpsc_rep s1 xs" by (rule mpsc.other [OF rep [unfolded queue_rep_def]]) simp
  have "mpsc_step s1 (Enq v) s2"
    by (rule mpsc_stepI [of "Exchange 0"]) (simp_all add: s1_def s2_def exchange_head_def new_node_def)
  then have r2: "mpsc_rep s2 (xs @ [v])" by (rule mpsc.enq [OF r1])
  then obtain ns where "mpsc_inv s2 ns" unfolding mpsc_rep_def by blast
  moreover have en: "enabled (StoreNext 0) s2" by (simp add: s2_def)
  ultimately have "exec (StoreNext 0) s2 \<noteq> None" by (rule exec_defined)
  then obtain q' where q': "store_next (q_head q) a ((new_node a v q)\<lparr>q_head := a\<rparr>) = Some q'"
    by (auto simp: s2_def bind_eq_Some_conv)
  then have ex: "exec (StoreNext 0) s2 = Some (Silent, quiet q')"
    by (simp add: s1_def s2_def quiet_def) (simp add: fun_eq_iff)
  then have "mpsc_rep (quiet q') (xs @ [v])"
    by (intro mpsc.other [OF r2 mpsc_stepI [OF en ex]]) simp
  then show ?thesis using q' by (simp add: push_def exchange_head_def queue_rep_def new_node_def)
qed

lemma quiet_load:
  assumes rep: "queue_rep q xs"
  shows "\<exists>nxt. load_next q = Some nxt \<and> (nxt = None \<longleftrightarrow> xs = []) \<and>
    (\<forall>n. nxt = Some n \<longrightarrow> (\<exists>v ys q'. xs = v # ys \<and> take_next n q = Some (v, q') \<and> queue_rep q' ys))"
proof -
  obtain ns where ns: "mpsc_inv (quiet q) ns" "contents (quiet q) ns = xs"
    using rep unfolding queue_rep_def mpsc_rep_def by blast
  have "exec LoadNext (quiet q) \<noteq> None" by (rule exec_defined [OF ns(1)]) (simp add: quiet_def)
  then obtain nxt where nxt: "load_next q = Some nxt" by (auto simp: quiet_def bind_eq_Some_conv)
  show ?thesis
  proof (cases nxt)
    case None
    then have "exec LoadNext (quiet q) = Some (Empty, quiet q)" using nxt by (simp add: quiet_def)
    from LoadNext_inv [OF ns(1) this] have "xs = []" using ns(2) by (simp add: quiet_def)
    then show ?thesis using nxt None by simp
  next
    case (Some n)
    define s1 where "s1 = (quiet q)\<lparr>m_consumer := Loaded n\<rparr>"
    have "exec LoadNext (quiet q) = Some (Silent, s1)" using nxt Some by (simp add: quiet_def s1_def)
    from LoadNext_inv [OF ns(1) this] have i1: "mpsc_inv s1 ns" "contents s1 ns = xs" using ns(2) by simp_all
    have "exec TakeNext s1 \<noteq> None" by (rule exec_defined [OF i1(1)]) (simp add: s1_def)
    then obtain v q' where t: "take_next n q = Some (v, q')" by (auto simp: s1_def quiet_def bind_eq_Some_conv)
    then have "exec TakeNext s1 = Some (Deq v, quiet q')" by (simp add: s1_def quiet_def)
    from TakeNext_inv [OF i1(1) this] have "\<exists>ys. xs = v # ys \<and> queue_rep q' ys"
      using i1(2) unfolding queue_rep_def mpsc_rep_def by auto
    then show ?thesis using nxt Some t by auto
  qed
qed

lemma try_pop_refines:
  assumes "queue_rep q xs"
  shows "case xs of [] \<Rightarrow> try_pop q = Some (None, q)
    | v # ys \<Rightarrow> \<exists>q'. try_pop q = Some (Some v, q') \<and> queue_rep q' ys"
  using quiet_load [OF assms] by (cases xs) (auto simp: try_pop_def)

text \<open>The blocking pop either takes the oldest value or, on an empty queue, stops or goes on waiting; it never
  stops while the queue holds a value.\<close>

lemma quiet_tail_head:
  assumes "queue_rep q []"
  shows "q_tail q = q_head q"
proof -
  obtain ns where ns: "mpsc_inv (quiet q) ns" "contents (quiet q) ns = []"
    using assms unfolding queue_rep_def mpsc_rep_def by blast
  then have "tl ns = []" by (simp add: contents_def)
  then show ?thesis using ns(1) by (cases ns) (auto simp: mpsc_inv_def chain_ok_def quiet_def)
qed

lemma wait_and_pop_refines:
  assumes "queue_rep q xs"
  shows "case xs of [] \<Rightarrow> wait_and_pop_turn running q = Some (if running = Some False then Stopped else Again, q)
    | v # ys \<Rightarrow> \<exists>q'. wait_and_pop_turn running q = Some (Popped v, q') \<and> queue_rep q' ys"
  using quiet_load [OF assms] quiet_tail_head [of q] assms
  by (cases xs) (auto simp: wait_and_pop_turn_def)

lemma drain_refines: "queue_rep q xs \<Longrightarrow> length xs < fuel \<Longrightarrow> \<exists>q'. drain fuel q = Some q' \<and> queue_rep q' []"
proof (induction xs arbitrary: q fuel)
  case Nil
  then show ?case using try_pop_refines [OF Nil.prems(1)] by (cases fuel) auto
next
  case (Cons v xs)
  then obtain f where f: "fuel = Suc f" by (cases fuel) auto
  obtain q' where "try_pop q = Some (Some v, q')" "queue_rep q' xs" using try_pop_refines [OF Cons.prems(1)] by auto
  then show ?case using Cons.IH [of q' f] Cons.prems(2) by (simp add: f)
qed

section \<open>Properties\<close>

text \<open>C15. First in, first out under concurrency: from an empty queue, along every interleaving of any number
  of producers with the consumer, the values popped so far followed by values still in the queue are
  exactly the values pushed (in the order of the exchanges of \<open>head_\<close>): nothing is lost, duplicated
  or reordered.\<close>

theorem mpsc_fifo:
  assumes "runs mpsc_step (new_mpsc dflt) es s"
  shows "\<exists>xs. mpsc_rep s xs \<and> enqs es = deqs es @ xs"
  using mpsc.runs_fifo [OF assms mpsc_rep_new] by simp

text \<open>A schedule, executed access by access.\<close>

fun exec_all :: "'a action list \<Rightarrow> 'a mpsc \<Rightarrow> ('a chan_event list \<times> 'a mpsc) option" where
  "exec_all [] s = Some ([], s)"
| "exec_all (act # acts) s =
     (if enabled act s then do {
        (e, s) \<leftarrow> exec act s;
        (es, s) \<leftarrow> exec_all acts s;
        Some (e # es, s)
      } else None)"

lemma exec_all_runs: "exec_all acts s = Some (es, s') \<Longrightarrow> runs mpsc_step s es s'"
proof (induction acts arbitrary: s es)
  case (Cons act acts)
  then obtain e s1 es1 where "enabled act s" "exec act s = Some (e, s1)" "exec_all acts s1 = Some (es1, s')" "es = e # es1"
    by (auto simp: bind_eq_Some_conv split: if_splits)
  then show ?case using Cons.IH by (auto intro: runs_Cons mpsc_stepI)
qed (auto intro: runs_Nil)

text \<open>Two producers interleave: the second exchanges before the first has linked its node, so the first pop
  finds nothing; after the link both values come out in the order of the exchanges.\<close>

definition demo_schedule :: "int action list" where
  "demo_schedule = [Alloc 0 1 7, Alloc 1 2 9, Exchange 0, Exchange 1, StoreNext 1, LoadNext,
     StoreNext 0, LoadNext, TakeNext, LoadNext, TakeNext]"

definition demo_events :: "int chan_event list" where
  "demo_events = [Silent, Silent, Enq 7, Enq 9, Silent, Empty, Silent, Silent, Deq 7, Silent, Deq 9]"

lemma demo_schedule_runs: "\<exists>s. runs mpsc_step (new_mpsc 0) demo_events s"
proof -
  have "map_option fst (exec_all demo_schedule (new_mpsc 0)) = Some demo_events" by code_simp
  then show ?thesis using exec_all_runs by fastforce
qed

theorem mpsc_fifo_witness:
  "\<exists>s. runs mpsc_step (new_mpsc 0) demo_events s \<and> mpsc_rep s [] \<and> deqs demo_events = [7, 9]"
proof -
  obtain s where s: "runs mpsc_step (new_mpsc 0) demo_events s" using demo_schedule_runs by blast
  then show ?thesis using mpsc_fifo [OF s] by (auto simp: demo_events_def)
qed

text \<open>C16. Memory safety under concurrency: in every reachable state every access a thread can make next
  (allocation, exchange, link, load, take, stop check) is on a live node, although the consumer
  deletes nodes while producers still hold pointers to their predecessors.\<close>

theorem mpsc_no_use_after_free:
  assumes "runs mpsc_step (new_mpsc dflt) es s" and "enabled act s"
  shows "exec act s \<noteq> None"
proof -
  have "\<exists>ns. mpsc_inv s ns" by (rule mpsc_inv_runs [OF assms(1)]) (rule exI, rule mpsc_inv_new)
  then show ?thesis using exec_defined assms(2) by blast
qed

theorem mpsc_no_use_after_free_witness:
  "\<exists>es s. exec_all (take 4 demo_schedule) (new_mpsc 0) = Some (es, s) \<and> enabled (StoreNext 1) s \<and>
    exec (StoreNext 1) s \<noteq> None"
proof -
  have "map_option (\<lambda>(es, s). enabled (StoreNext 1) s) (exec_all (take 4 demo_schedule) (new_mpsc 0)) = Some True"
    by code_simp
  then obtain es s where s: "exec_all (take 4 demo_schedule) (new_mpsc 0) = Some (es, s)" "enabled (StoreNext 1) s" by auto
  then show ?thesis using mpsc_no_use_after_free [OF exec_all_runs [OF s(1)] s(2)] by blast
qed

text \<open>C17. Shutdown: \<open>wait_and_pop\<close> gives up only when its check finds \<open>tail == head_\<close>; at that moment every
  value pushed so far has been popped, also those whose producer had not yet linked its node. And a
  pop that finds nothing while no push is in progress means that everything pushed was popped.\<close>

theorem mpsc_shutdown_complete:
  assumes "runs mpsc_step (new_mpsc dflt) es s"
  shows "(\<forall>s'. mpsc_step s Drained s' \<longrightarrow> deqs es = enqs es) \<and>
    (\<forall>s'. exec LoadNext s = Some (Empty, s') \<longrightarrow> (\<forall>p a b. m_producers s p \<noteq> Exchanged a b) \<longrightarrow> deqs es = enqs es)"
proof (intro conjI allI impI)
  show "deqs es = enqs es" if "mpsc_step s Drained s'" for s'
    using mpsc.runs_drained [OF assms mpsc_rep_new that] .
  obtain xs ns where xs: "enqs es = deqs es @ xs" "mpsc_inv s ns" "contents s ns = xs"
    using mpsc.runs_fifo [OF assms mpsc_rep_new] unfolding mpsc_rep_def by auto
  show "deqs es = enqs es" if "exec LoadNext s = Some (Empty, s')" "\<forall>p a b. m_producers s p \<noteq> Exchanged a b" for s'
    using LoadNext_inv [OF xs(2) that(1)] xs that(2) by auto
qed

theorem mpsc_shutdown_complete_witness:
  "\<exists>s s'. runs mpsc_step (new_mpsc 0) demo_events s \<and> mpsc_step s Drained s' \<and> deqs demo_events = enqs demo_events"
proof -
  have "map_option (\<lambda>(es, s). (es, enabled CheckStop s, map_option fst (exec CheckStop s)))
      (exec_all demo_schedule (new_mpsc 0)) = Some (demo_events, True, Some Drained)"
    by code_simp
  then obtain s s' where s: "exec_all demo_schedule (new_mpsc 0) = Some (demo_events, s)" "enabled CheckStop s"
    "exec CheckStop s = Some (Drained, s')" by (auto simp del: exec.simps enabled.simps)
  note runs = exec_all_runs [OF s(1)] and drained = mpsc_stepI [OF s(2,3)]
  show ?thesis using runs drained mpsc_shutdown_complete [OF runs] by blast
qed

text \<open>Destruction: on a queue with no push in progress, with enough turns for its length, the destructor
  pops every value and frees every node but the embedded stub.\<close>

theorem destroy_frees_all:
  assumes "queue_rep q xs" and "length xs < fuel"
  shows "\<exists>q'. destroy_Queue fuel q = Some q' \<and> dom (q_heap q') = {stub}"
proof -
  obtain q1 where q1: "drain fuel q = Some q1" "queue_rep q1 []" using drain_refines [OF assms] by blast
  then obtain ns where ns: "mpsc_inv (quiet q1) ns" "tl ns = []"
    unfolding queue_rep_def mpsc_rep_def contents_def by auto
  then have "ns = [q_tail q1]" by (cases ns) (auto simp: mpsc_inv_def chain_ok_def quiet_def)
  then have "stub \<in> dom (q_heap q1)" "dom (q_heap q1) \<subseteq> {stub, q_tail q1}"
    using ns(1) by (auto simp: mpsc_inv_def private_nodes_def quiet_def)
  then show ?thesis using q1(1) by (auto simp: destroy_Queue_def)
qed

theorem destroy_frees_all_witness:
  "\<exists>q q'. push 1 (5 :: int) (new_Queue 0) = Some q \<and> destroy_Queue 2 q = Some q' \<and> dom (q_heap q') = {stub}"
proof -
  obtain q where q: "push 1 (5 :: int) (new_Queue 0) = Some q" "queue_rep q ([] @ [5])"
    using push_refines [OF queue_rep_new, of 0 1 "5 :: int"] by (auto simp: new_Queue_def stub_def)
  then show ?thesis using destroy_frees_all [of q "[5]" 2] by simp
qed

end
