(* ===== verification/Order_Flow.thy ===== *)
theory Order_Flow
  imports Event_Consumer Mpsc_Queue
begin

text \<open>
  From market events to the order queue: what a consumer promises for any strategy and any order sink that
  keep their contracts, proved once in the locale \<open>order_flow\<close>, and the engine's consumer as its instance:
  \<open>SimpleMarketMakingStrategy\<close> with \<open>OrderQueuePusher\<close> (\<open>include/TradingEngine.hpp\<close>), which pushes into the
  \<open>LockFreeMPSCQueue\<close>.
\<close>

section \<open>The contract\<close>

definition good_symbol :: "string \<Rightarrow> bool" where
  "good_symbol symb \<longleftrightarrow> padded 8 symb \<and> valid_key (symbolBufferToKey symb)"

definition stamped :: "Order \<Rightarrow> MarketEvent \<Rightarrow> turn_clock \<Rightarrow> Order" where
  "stamped ord e t = ord\<lparr>ord_arrivedAt := ev_arrivedAt e, ord_queuedAt := tc_queue t\<rparr>"

lemma stamped_fields [simp]:
  "ord_symbol (stamped ord e t) = ord_symbol ord" "ord_quantity (stamped ord e t) = ord_quantity ord"
  "ord_side (stamped ord e t) = ord_side ord" "ord_price (stamped ord e t) = ord_price ord" "ord_type (stamped ord e t) = ord_type ord"
  by (simp_all add: stamped_def)

lemma onOrderSent_stamped: "onOrderSent (stamped ord e t) = onOrderSent ord"
  by (rule ext) (simp only: onOrderSent_def stamped_fields)

locale order_sink =
  fixes rep :: "'q \<Rightarrow> Order list \<Rightarrow> bool"
    and put_order :: "Order \<Rightarrow> 'q \<Rightarrow> 'q option"
  assumes put_rep: "rep q xs \<Longrightarrow> put_order ord q = Some q' \<Longrightarrow> rep q' (xs @ [ord])"

locale order_flow = strategy_like good on_event + order_sink rep put_order
  for good :: "'s \<Rightarrow> bool" and on_event :: "MarketEvent \<Rightarrow> 's \<Rightarrow> Order option \<times> 's"
    and rep :: "'q \<Rightarrow> Order list \<Rightarrow> bool" and put_order :: "Order \<Rightarrow> 'q \<Rightarrow> 'q option"
begin

text \<open>A consumer with its positions and the orders it has handed on.\<close>

definition flows :: "('s, 'q, 'h) Consumer \<Rightarrow> PositionManager \<Rightarrow> Order list \<Rightarrow> bool" where
  "flows C pm xs \<longleftrightarrow> good (mc_strategy C) \<and> rep (mc_orders C) xs \<and>
     (\<exists>cd. mc_objects C = (cd, Some pm) \<and> risk_inv (mc_risk C, cd, pm))"

definition order_of :: "MarketEvent \<Rightarrow> Order \<Rightarrow> bool" where
  "order_of e ord \<longleftrightarrow> (\<exists>s o' t. good s \<and> fst (on_event e s) = Some o' \<and> ord = stamped o' e t)"

lemma consume_event_flows:
  assumes flows: "flows C pm xs" and e: "good_symbol (ev_symbol e)" and run: "consume_event on_event put_order H t e C = Some C'"
  shows "\<exists>pm' ys. flows C' pm' (xs @ ys) \<and> run_list apply_op (map Sent ys) pm = Some pm' \<and> mc_risk C' = mc_risk C \<and>
    (\<forall>ord \<in> set ys. order_of e ord) \<and>
    ((\<forall>k. valid_key k \<longrightarrow> \<bar>wrap_i64 (exposure pm k)\<bar> \<le> rm_max_position_per_symbol (mc_risk C)) \<longrightarrow>
      (\<forall>k. valid_key k \<longrightarrow> \<bar>wrap_i64 (exposure pm' k)\<bar> \<le> rm_max_position_per_symbol (mc_risk C)))"
proof -
  obtain cd where cd: "mc_objects C = (cd, Some pm)" "risk_inv (mc_risk C, cd, pm)" and g: "good (mc_strategy C)"
    and r: "rep (mc_orders C) xs" using flows by (auto simp: flows_def)
  have g': "good (snd (on_event e (mc_strategy C)))" using on_event_good [OF g] .
  have ord: "good_request (tc_risk t, ord)" if "fst (on_event e (mc_strategy C)) = Some ord" for ord
    using on_event_order [OF g that] e by (simp add: good_request_def good_symbol_def)
  show ?thesis
  proof (rule consume_event_cases [OF run])
    assume *: "mc_objects C' = mc_objects C" "mc_orders C' = mc_orders C" "mc_strategy C' = snd (on_event e (mc_strategy C))" "mc_risk C' = mc_risk C"
    show ?thesis
      by (rule exI [of _ pm], rule exI [of _ "[]"]) (use * cd g' r in \<open>simp add: flows_def\<close>)
  next
    fix ord objs
    assume *: "fst (on_event e (mc_strategy C)) = Some ord" "onNewOrder (mc_risk C) (tc_risk t) ord (mc_objects C) = Some (False, objs)"
      "mc_objects C' = objs" "mc_orders C' = mc_orders C" "mc_strategy C' = snd (on_event e (mc_strategy C))" "mc_risk C' = mc_risk C"
    obtain cd' pm' where objs: "objs = (cd', pm')" by (cases objs)
    have "pm' = Some pm" using onNewOrder_cases [OF cd(2) ord [OF *(1)]] *(2) by (auto simp: cd(1) objs)
    then show ?thesis
      by (intro exI [of _ pm] exI [of _ "[]"]) (use * cd g' r objs in \<open>simp add: flows_def risk_inv_def\<close>)
  next
    fix ord objs
    assume *: "fst (on_event e (mc_strategy C)) = Some ord" "onNewOrder (mc_risk C) (tc_risk t) ord (mc_objects C) = Some (True, objs)"
      "mc_objects C' = objs" "put_order (ord\<lparr>ord_arrivedAt := ev_arrivedAt e, ord_queuedAt := tc_queue t\<rparr>) (mc_orders C) = Some (mc_orders C')"
      "mc_strategy C' = snd (on_event e (mc_strategy C))" "mc_risk C' = mc_risk C"
    obtain cd' pm' where objs: "objs = (cd', Some pm')" and sent: "onOrderSent ord pm = Some pm'"
      using onNewOrder_cases [OF cd(2) ord [OF *(1)]] *(2) by (cases objs) (auto simp: cd(1))
    have sub: "risk_submit (tc_risk t, ord) (mc_risk C, cd, pm) = Some (True, mc_risk C, cd', pm')"
      using *(2) by (simp add: risk_submit_def cd(1) objs)
    note laws = risk_submit_laws [OF cd(2) ord [OF *(1)] sub]
    have "rep (mc_orders C') (xs @ [stamped ord e t])" using put_rep [OF r *(4)] by (simp add: stamped_def)
    moreover have "order_of e (stamped ord e t)" using g *(1) by (auto simp: order_of_def)
    ultimately show ?thesis
      using * objs laws g' sent
      by (intro exI [of _ pm'] exI [of _ "[stamped ord e t]"])
        (fastforce simp: flows_def onOrderSent_stamped risk_exposed_def risk_limit_def)
  qed
qed

lemma consumer_turns_flow:
  assumes "run_list (consumer_turn on_event put_order H) turns C = Some C'" and "flows C pm xs"
    and "\<forall>tu \<in> set turns. \<forall>e. event_in tu = Some e \<longrightarrow> good_symbol (ev_symbol e)"
  shows "\<exists>pm' ys. flows C' pm' (xs @ ys) \<and> run_list apply_op (map Sent ys) pm = Some pm' \<and> mc_risk C' = mc_risk C \<and>
    (\<forall>ord \<in> set ys. \<exists>tu \<in> set turns. \<exists>e. event_in tu = Some e \<and> order_of e ord) \<and>
    ((\<forall>k. valid_key k \<longrightarrow> \<bar>wrap_i64 (exposure pm k)\<bar> \<le> rm_max_position_per_symbol (mc_risk C)) \<longrightarrow>
      (\<forall>k. valid_key k \<longrightarrow> \<bar>wrap_i64 (exposure pm' k)\<bar> \<le> rm_max_position_per_symbol (mc_risk C)))"
  using assms
proof (induction turns arbitrary: C pm xs)
  case Nil
  then show ?case by (intro exI [of _ pm] exI [of _ "[]"]) simp
next
  case (Cons tu turns)
  then obtain C1 where C1: "consumer_turn on_event put_order H tu C = Some C1"
    "run_list (consumer_turn on_event put_order H) turns C1 = Some C'"
    by (auto split: option.splits)
  have "\<exists>pm1 ys. flows C1 pm1 (xs @ ys) \<and> run_list apply_op (map Sent ys) pm = Some pm1 \<and> mc_risk C1 = mc_risk C \<and>
    (\<forall>ord \<in> set ys. \<exists>e. event_in tu = Some e \<and> order_of e ord) \<and>
    ((\<forall>k. valid_key k \<longrightarrow> \<bar>wrap_i64 (exposure pm k)\<bar> \<le> rm_max_position_per_symbol (mc_risk C)) \<longrightarrow>
      (\<forall>k. valid_key k \<longrightarrow> \<bar>wrap_i64 (exposure pm1 k)\<bar> \<le> rm_max_position_per_symbol (mc_risk C)))"
  proof (cases "event_in tu")
    case None
    then have "C1 = C" using C1(1) by (simp add: consumer_turn_event)
    then show ?thesis using Cons.prems(2) by (intro exI [of _ pm] exI [of _ "[]"]) simp
  next
    case (Some e)
    then show ?thesis using C1(1) Cons.prems consume_event_flows [OF Cons.prems(2), of e] by (auto simp: consumer_turn_event)
  qed
  then obtain pm1 ys where one: "flows C1 pm1 (xs @ ys)" "run_list apply_op (map Sent ys) pm = Some pm1" "mc_risk C1 = mc_risk C"
    "\<forall>ord \<in> set ys. \<exists>e. event_in tu = Some e \<and> order_of e ord"
    "(\<forall>k. valid_key k \<longrightarrow> \<bar>wrap_i64 (exposure pm k)\<bar> \<le> rm_max_position_per_symbol (mc_risk C)) \<longrightarrow>
      (\<forall>k. valid_key k \<longrightarrow> \<bar>wrap_i64 (exposure pm1 k)\<bar> \<le> rm_max_position_per_symbol (mc_risk C))"
    by blast
  have "\<forall>tu \<in> set turns. \<forall>e. event_in tu = Some e \<longrightarrow> good_symbol (ev_symbol e)" using Cons.prems(3) by simp
  from Cons.IH [OF C1(2) one(1) this] obtain pm' zs where rest: "flows C' pm' ((xs @ ys) @ zs)"
    "run_list apply_op (map Sent zs) pm1 = Some pm'" "mc_risk C' = mc_risk C1"
    "\<forall>ord \<in> set zs. \<exists>tu \<in> set turns. \<exists>e. event_in tu = Some e \<and> order_of e ord"
    "(\<forall>k. valid_key k \<longrightarrow> \<bar>wrap_i64 (exposure pm1 k)\<bar> \<le> rm_max_position_per_symbol (mc_risk C1)) \<longrightarrow>
      (\<forall>k. valid_key k \<longrightarrow> \<bar>wrap_i64 (exposure pm' k)\<bar> \<le> rm_max_position_per_symbol (mc_risk C1))"
    by blast
  have "run_list apply_op (map Sent (ys @ zs)) pm = Some pm'" using one(2) rest(2) by (simp add: run_list_append)
  moreover have "\<forall>ord \<in> set (ys @ zs). \<exists>tu' \<in> set (tu # turns). \<exists>e. event_in tu' = Some e \<and> order_of e ord"
    using one(4) rest(4) by auto
  ultimately show ?case using one(3,5) rest(1,3,5)
    by (intro exI [of _ pm'] exI [of _ "ys @ zs"]) simp
qed

end

section \<open>The engine's consumer\<close>

text \<open>\<open>OrderQueuePusher\<close>. The node's address comes from the allocator, which returns unused memory.\<close>

definition OrderQueuePusher :: "(Order Queue \<Rightarrow> addr) \<Rightarrow> Order \<Rightarrow> Order Queue \<Rightarrow> Order Queue option" where
  "OrderQueuePusher alloc order queue =
     (if q_heap queue (alloc queue) = None then push (alloc queue) order queue else None)"

lemma OrderQueuePusher_rep:
  assumes "queue_rep q xs" and "OrderQueuePusher alloc ord q = Some q'"
  shows "queue_rep q' (xs @ [ord])"
  using assms push_refines [OF assms(1), of "alloc q" ord] by (auto simp: OrderQueuePusher_def split: if_splits)

interpretation engine: order_flow strategy_ok onMarketEvent queue_rep "OrderQueuePusher alloc" for alloc
  by unfold_locales (rule OrderQueuePusher_rep)

lemma net_Sent: "net f k (map Sent ys) = (\<Sum>ord\<leftarrow>filter (\<lambda>ord. ord_key ord = k) ys. f (Sent ord))"
  by (induction ys) simp_all

lemma sent_filled: "net op_filled k (map Sent ys) = 0"
  by (induction ys) simp_all

lemma apply_sent_keys: "(\<forall>op \<in> set (map Sent ys). valid_key (op_key op)) \<longleftrightarrow> (\<forall>ord \<in> set ys. valid_key (ord_key ord))"
  by simp

lemma order_of_symbol: "engine.order_of e ord \<Longrightarrow> ord_symbol ord = ev_symbol e"
  using smm.on_event_order by (fastforce simp: engine.order_of_def)

text \<open>C29. Nothing is sent that is not reserved: over any run of the engine's consumer, for every symbol with an
  entry, the pending position moves by exactly the signed quantities of the orders the run pushed into the
  queue (modulo \<open>2\<^sup>6\<^sup>4\<close>), the filled position does not move, and the queue holds the orders it held before
  followed by the new ones in order.\<close>

theorem orders_reserved:
  assumes "consumer_run onMarketEvent (OrderQueuePusher alloc) H turns C = Some C'"
    and "strategy_ok (mc_strategy C)" and "mc_objects C = (cd, Some pm)" and "risk_inv (mc_risk C, cd, pm)"
    and "queue_rep (mc_orders C) xs"
    and "\<forall>tu \<in> set turns. \<forall>e. event_in (snd tu) = Some e \<longrightarrow> good_symbol (ev_symbol e)"
    and "valid_key (symbolToKey symbol)" and "tracked pm (symbolToKey symbol)"
  shows "\<exists>cd' pm' ys. mc_objects C' = (cd', Some pm') \<and> queue_rep (mc_orders C') (xs @ ys) \<and>
    getPendingPosition symbol pm' = wrap_i64 (getPendingPosition symbol pm +
      (\<Sum>ord\<leftarrow>filter (\<lambda>ord. ord_key ord = symbolToKey symbol) ys. signed_qty (ord_side ord) (ord_quantity ord))) \<and>
    getFilledPosition symbol pm' = getFilledPosition symbol pm"
proof -
  let ?k = "symbolToKey symbol"
  have turns: "\<forall>tu \<in> set (map snd (takeWhile fst turns)). \<forall>e. event_in tu = Some e \<longrightarrow> good_symbol (ev_symbol e)"
    using assms(6) by (auto dest: set_takeWhileD)
  have fl: "engine.flows C pm xs" using assms(2-5) by (auto simp: engine.flows_def)
  obtain pm' ys where *: "engine.flows C' pm' (xs @ ys)" "run_list apply_op (map Sent ys) pm = Some pm'"
    "\<forall>ord \<in> set ys. \<exists>tu \<in> set (map snd (takeWhile fst turns)). \<exists>e. event_in tu = Some e \<and> engine.order_of e ord"
    using engine.consumer_turns_flow [OF assms(1) [unfolded consumer_run_def] fl turns] by blast
  have inv: "pm_inv pm" "pm_inv pm'" using assms(4) *(1) by (auto simp: engine.flows_def risk_inv_def)
  have v: "\<forall>op \<in> set (map Sent ys). valid_key (op_key op)"
    using *(3) turns order_of_symbol by (fastforce simp: good_symbol_def)
  note q = pm_book.run_quantities [OF *(2) inv(1) v assms(7,8)]
  have ok: "in_i64 (e_filled (position pm' ?k))" "in_i64 (e_pending (position pm' ?k))" "in_i64 (e_filled (position pm ?k))"
    using position_ok [OF inv(2), of ?k] position_ok [OF inv(1), of ?k] by (simp_all add: entry_ok_def)
  obtain cd' where "mc_objects C' = (cd', Some pm')" "queue_rep (mc_orders C') (xs @ ys)"
    using *(1) by (auto simp: engine.flows_def)
  then show ?thesis
    using q ok by (auto simp: getters_position net_Sent sent_filled)
qed

text \<open>The position limit holds along every run of a consumer: starting from exposures within the limit, whatever
  events arrive and whatever the clock reads, the exposure of every symbol stays within the limit.\<close>

theorem consumer_within_limit:
  assumes "consumer_run onMarketEvent (OrderQueuePusher alloc) H turns C = Some C'"
    and "strategy_ok (mc_strategy C)" and "mc_objects C = (cd, Some pm)" and "risk_inv (mc_risk C, cd, pm)"
    and "queue_rep (mc_orders C) xs"
    and "\<forall>tu \<in> set turns. \<forall>e. event_in (snd tu) = Some e \<longrightarrow> good_symbol (ev_symbol e)"
    and "\<forall>k. valid_key k \<longrightarrow> \<bar>wrap_i64 (exposure pm k)\<bar> \<le> rm_max_position_per_symbol (mc_risk C)"
    and "valid_key (symbolToKey symbol)"
  shows "\<exists>cd' pm'. mc_objects C' = (cd', Some pm') \<and>
    \<bar>wrap_i64 (getFilledPosition symbol pm' + getPendingPosition symbol pm')\<bar> \<le> rm_max_position_per_symbol (mc_risk C)"
proof -
  have turns: "\<forall>tu \<in> set (map snd (takeWhile fst turns)). \<forall>e. event_in tu = Some e \<longrightarrow> good_symbol (ev_symbol e)"
    using assms(6) by (auto dest: set_takeWhileD)
  have fl: "engine.flows C pm xs" using assms(2-5) by (auto simp: engine.flows_def)
  obtain pm' ys where "engine.flows C' pm' (xs @ ys)"
    "\<forall>k. valid_key k \<longrightarrow> \<bar>wrap_i64 (exposure pm' k)\<bar> \<le> rm_max_position_per_symbol (mc_risk C)"
    using engine.consumer_turns_flow [OF assms(1) [unfolded consumer_run_def] fl turns] assms(7) by blast
  then show ?thesis using assms(8) by (auto simp: engine.flows_def exposure_def getters_position)
qed

definition demo_trade :: MarketEvent where
  "demo_trade = \<lparr>ev_eventType = 2, ev_symbol = copy_buf 8 ''AAPL'', ev_timestamp = 0, ev_p1 = 500000, ev_s1 = 1, ev_p2 = 0,
     ev_s2 = 0, ev_arrivedAt = 10\<rparr>"

definition demo_turns :: "(bool \<times> turn) list" where
  "demo_turns = [(True, \<lparr>tu_clock = \<lparr>tc_received = 20, tc_risk = 30, tc_queue = 40\<rparr>, tu_topic = Some ''AAPL'', tu_payload = Some (event_bytes demo_trade)\<rparr>),
     (True, \<lparr>tu_clock = \<lparr>tc_received = 50, tc_risk = 60, tc_queue = 70\<rparr>, tu_topic = Some ''AAPL'', tu_payload = Some ''short''\<rparr>),
     (False, \<lparr>tu_clock = \<lparr>tc_received = 80, tc_risk = 90, tc_queue = 100\<rparr>, tu_topic = None, tu_payload = None\<rparr>)]"

definition demo_consumer :: "(SimpleMarketMakingStrategy, Order Queue, int list) Consumer" where
  "demo_consumer = \<lparr>mc_strategy = default_strategy, mc_risk = demo_risk, mc_objects = (None, Some demo_book), mc_latency = None,
     mc_orders = new_Queue zero_Order\<rparr>"

lemma demo_turn_events:
  "event_in (snd (demo_turns ! 0)) = Some demo_trade" "event_in (snd (demo_turns ! 1)) = None" "event_in (snd (demo_turns ! 2)) = None"
  using length_event_bytes [of demo_trade] event_of_bytes_bytes [of demo_trade]
  by (simp_all add: demo_turns_def event_in_def demo_trade_def)

lemma demo_turns_good: "\<forall>tu \<in> set demo_turns. \<forall>e. event_in (snd tu) = Some e \<longrightarrow> good_symbol (ev_symbol e)"
proof -
  have "good_symbol (ev_symbol demo_trade)"
    by (simp add: good_symbol_def demo_trade_def AAPL_key kEmptySlot_def padded_copy_buf)
  then have "\<forall>i < 3. \<forall>e. event_in (snd (demo_turns ! i)) = Some e \<longrightarrow> good_symbol (ev_symbol e)"
    using demo_turn_events by (auto simp: numeral_eq_Suc less_Suc_eq)
  moreover have "length demo_turns = 3" by (simp add: demo_turns_def)
  ultimately show ?thesis by (auto simp: in_set_conv_nth)
qed

lemma demo_consumer_ok:
  "strategy_ok (mc_strategy demo_consumer)" "mc_objects demo_consumer = (None, Some demo_book)"
  "risk_inv (mc_risk demo_consumer, None, demo_book)" "queue_rep (mc_orders demo_consumer) []"
  "valid_key (symbolToKey ''AAPL'')" "tracked demo_book (symbolToKey ''AAPL'')"
  using demo_book_flat(1) queue_rep_new fresh_book(2) [OF AAPL_syms]
  by (simp_all add: demo_consumer_def strategy_ok_def default_strategy_def new_SimpleMarketMakingStrategy_def in_i64_def
      risk_inv_def demo_risk_def AAPL_key kEmptySlot_def demo_book_def)

lemma demo_consumer_run:
  "\<exists>C'. consumer_run onMarketEvent (OrderQueuePusher (\<lambda>_. 2)) demo_hdr demo_turns demo_consumer = Some C' \<and>
    mc_orders C' \<noteq> mc_orders demo_consumer"
proof -
  define ord where "ord = zero_Order\<lparr>ord_symbol := copy_buf 8 ''AAPL'', ord_side := Buy, ord_type := Limit, ord_quantity := 100, ord_price := 499900\<rparr>"
  have st: "onMarketEvent demo_trade default_strategy = (Some ord, default_strategy\<lparr>sm_last_trade_price := 500000\<rparr>)"
    by (simp add: onMarketEvent_def demo_trade_def default_strategy_def new_SimpleMarketMakingStrategy_def ord_def)
  have E: "exposure demo_book (ord_key ord) = 0" by (rule demo_book_flat(2)) (simp add: ord_def AAPL_key kEmptySlot_def)
  have o: "padded 8 (ord_symbol ord)" "in_i64 (ord_quantity ord)" by (simp_all add: ord_def padded_copy_buf in_i64_def)
  have cd: "passes_cooldown (ord_symbol ord) 30 None = (True, None)" by (simp add: passes_cooldown_def)
  have "risk_approves 100 100000000 True (exposure demo_book (ord_key ord)) ord" unfolding E by (simp add: risk_approves_def ord_def)
  then obtain pm' where pm': "onNewOrder demo_risk 30 ord (None, Some demo_book) = Some (True, None, Some pm')"
    using onNewOrder_decision [OF demo_risk_limits o cd, of demo_book] E by auto
  have free: "q_heap (new_Queue zero_Order) 2 = None" by (simp add: new_Queue_def stub_def)
  obtain q' where q': "push 2 (ord\<lparr>ord_arrivedAt := 10, ord_queuedAt := 40\<rparr>) (new_Queue zero_Order) = Some q'" "queue_rep q' ([] @ [ord\<lparr>ord_arrivedAt := 10, ord_queuedAt := 40\<rparr>])"
    using push_refines [OF queue_rep_new free] by blast
  have ne: "q' \<noteq> new_Queue zero_Order"
  proof
    assume "q' = new_Queue zero_Order"
    then have "queue_rep (new_Queue zero_Order) [ord\<lparr>ord_arrivedAt := 10, ord_queuedAt := 40\<rparr>]" using q'(2) by simp
    from try_pop_refines [OF this] try_pop_refines [OF queue_rep_new, of zero_Order] show False by auto
  qed
  have ev: "event_in (snd (demo_turns ! 0)) = Some demo_trade" "event_in (snd (demo_turns ! 1)) = None" by (rule demo_turn_events)+
  have a: "ev_arrivedAt demo_trade = 10" by (simp add: demo_trade_def)
  have "consume_event onMarketEvent (OrderQueuePusher (\<lambda>_. 2)) demo_hdr \<lparr>tc_received = 20, tc_risk = 30, tc_queue = 40\<rparr> demo_trade demo_consumer =
      Some (demo_consumer\<lparr>mc_strategy := default_strategy\<lparr>sm_last_trade_price := 500000\<rparr>, mc_objects := (None, Some pm'), mc_orders := q'\<rparr>)"
    by (simp add: consume_event_def demo_consumer_def st pm' OrderQueuePusher_def free q'(1) a)
  then show ?thesis using ev ne
    by (simp add: consumer_run_def demo_turns_def consumer_turn_event) (simp add: demo_consumer_def)
qed

theorem orders_reserved_witness:
  "\<exists>C' cd' pm' ys. consumer_run onMarketEvent (OrderQueuePusher (\<lambda>_. 2)) demo_hdr demo_turns demo_consumer = Some C' \<and>
    mc_objects C' = (cd', Some pm') \<and> queue_rep (mc_orders C') ys \<and>
    getPendingPosition ''AAPL'' pm' = wrap_i64 (getPendingPosition ''AAPL'' demo_book +
      (\<Sum>ord\<leftarrow>filter (\<lambda>ord. ord_key ord = symbolToKey ''AAPL'') ys. signed_qty (ord_side ord) (ord_quantity ord)))"
proof -
  obtain C' where run: "consumer_run onMarketEvent (OrderQueuePusher (\<lambda>_. 2)) demo_hdr demo_turns demo_consumer = Some C'"
    using demo_consumer_run by blast
  from orders_reserved [OF run demo_consumer_ok(1-4) demo_turns_good demo_consumer_ok(5,6)] run show ?thesis by auto
qed

theorem consumer_within_limit_witness:
  "\<exists>C' cd' pm'. consumer_run onMarketEvent (OrderQueuePusher (\<lambda>_. 2)) demo_hdr demo_turns demo_consumer = Some C' \<and>
    mc_objects C' = (cd', Some pm') \<and> \<bar>wrap_i64 (getFilledPosition ''AAPL'' pm' + getPendingPosition ''AAPL'' pm')\<bar> \<le> 100"
proof -
  obtain C' where run: "consumer_run onMarketEvent (OrderQueuePusher (\<lambda>_. 2)) demo_hdr demo_turns demo_consumer = Some C'"
    using demo_consumer_run by blast
  have m: "rm_max_position_per_symbol (mc_risk demo_consumer) = 100" by (simp add: demo_consumer_def demo_risk_def)
  from consumer_within_limit [OF run demo_consumer_ok(1-4) demo_turns_good _ demo_consumer_ok(5)] run demo_book_flat(2) m
  show ?thesis by simp
qed

end
