(* ===== verification/Pending_Order_Tracker.thy ===== *)
theory Pending_Order_Tracker
  imports Trading_Types
begin

unbundle bit_operations_syntax

text \<open>
  \<open>PendingOrderTracker\<close> (\<open>include/PendingOrderTracker.hpp\<close>, \<open>src/PendingOrderTracker.cpp\<close>) and the
  keys of \<open>include/SymbolKey.hpp\<close>: for each symbol and side, the broker's id of the open order.
  \<open>tbb::concurrent_hash_map\<close> is an outside library: its operations are the record \<open>slot_map\<close>, a
  parameter of the tracker, and \<open>slot_map_laws\<close> is its documented behaviour. An accessor locks its
  element, so each call of the tracker is one atomic step.
\<close>

section \<open>Keys and ids\<close>

record SymbolKey =
  sk_value :: string

definition SymbolKey_eq :: "SymbolKey \<Rightarrow> SymbolKey \<Rightarrow> bool" where
  "SymbolKey_eq a b \<longleftrightarrow> sk_value a = sk_value b"

definition SymbolKey_hash :: "(string \<Rightarrow> u64) \<Rightarrow> SymbolKey \<Rightarrow> u64" where
  "SymbolKey_hash hash_view k = hash_view (sk_value k)"

record OrderSlotKey =
  osk_symbol :: SymbolKey
  osk_side :: OrderSide

definition OrderSlotKey_eq :: "OrderSlotKey \<Rightarrow> OrderSlotKey \<Rightarrow> bool" where
  "OrderSlotKey_eq a b \<longleftrightarrow> SymbolKey_eq (osk_symbol a) (osk_symbol b) \<and> osk_side a = osk_side b"

definition side_u8 :: "OrderSide \<Rightarrow> u8" where
  "side_u8 side = (case side of Buy \<Rightarrow> 0 | Sell \<Rightarrow> 1)"

text \<open>\<open>std::hash\<close> of a view and of a byte are the library's: two parameters.\<close>

definition OrderSlotKey_hash :: "(string \<Rightarrow> u64) \<Rightarrow> (u8 \<Rightarrow> u64) \<Rightarrow> OrderSlotKey \<Rightarrow> u64" where
  "OrderSlotKey_hash hash_view hash_u8 k =
     (let h = SymbolKey_hash hash_view (osk_symbol k)
      in h XOR (hash_u8 (side_u8 (osk_side k)) + 0x9e3779b9 + push_bit 6 h + drop_bit 2 h))"

definition kCapacity :: nat where
  "kCapacity = 48"

record AlpacaOrderId =
  id_value :: string

definition empty_AlpacaOrderId :: AlpacaOrderId where
  "empty_AlpacaOrderId = \<lparr>id_value = replicate kCapacity NUL\<rparr>"

definition mk_AlpacaOrderId :: "string \<Rightarrow> AlpacaOrderId" where
  "mk_AlpacaOrderId i = \<lparr>id_value = copy_buf kCapacity i\<rparr>"

definition id_view :: "AlpacaOrderId \<Rightarrow> string" where
  "id_view i = buf_view (id_value i)"

definition id_equals :: "AlpacaOrderId \<Rightarrow> string \<Rightarrow> bool" where
  "id_equals i other \<longleftrightarrow> id_view i = other"

text \<open>The ids the buffer holds without loss.\<close>

definition good_id :: "string \<Rightarrow> bool" where
  "good_id i \<longleftrightarrow> length i \<le> kCapacity \<and> NUL \<notin> set i"

lemma id_view_mk: "good_id i \<Longrightarrow> id_view (mk_AlpacaOrderId i) = i"
  by (simp add: id_view_def mk_AlpacaOrderId_def good_id_def buf_view_copy_buf)

text \<open>The functor's requirement: keys it calls equal have the same hash, whatever \<open>std::hash\<close> is.\<close>

lemma OrderSlotKey_hash_eq:
  "OrderSlotKey_eq a b \<Longrightarrow> OrderSlotKey_hash hash_view hash_u8 a = OrderSlotKey_hash hash_view hash_u8 b"
  by (simp add: OrderSlotKey_eq_def SymbolKey_eq_def OrderSlotKey_hash_def SymbolKey_hash_def)

lemma OrderSlotKey_eq_iff [simp]: "OrderSlotKey_eq a b \<longleftrightarrow> a = b"
  by (auto simp: OrderSlotKey_eq_def SymbolKey_eq_def)

section \<open>The concurrent hash map\<close>

record 'm slot_map =
  sm_find :: "'m \<Rightarrow> OrderSlotKey \<Rightarrow> AlpacaOrderId option"
  sm_insert :: "OrderSlotKey \<Rightarrow> 'm \<Rightarrow> 'm"
  sm_assign :: "OrderSlotKey \<Rightarrow> AlpacaOrderId \<Rightarrow> 'm \<Rightarrow> 'm"
  sm_erase :: "OrderSlotKey \<Rightarrow> 'm \<Rightarrow> 'm"

text \<open>
  \<open>insert(acc, key)\<close> adds a default-constructed element unless the key is present; writing through
  the accessor replaces the element; \<open>erase(acc)\<close> removes it.
\<close>

definition slot_map_laws :: "'m slot_map \<Rightarrow> bool" where
  "slot_map_laws M \<longleftrightarrow>
     (\<forall>k m. sm_find M (sm_insert M k m) =
        (case sm_find M m k of None \<Rightarrow> (sm_find M m)(k \<mapsto> empty_AlpacaOrderId) | Some _ \<Rightarrow> sm_find M m)) \<and>
     (\<forall>k v m. sm_find M m k \<noteq> None \<longrightarrow> sm_find M (sm_assign M k v m) = (sm_find M m)(k \<mapsto> v)) \<and>
     (\<forall>k m. sm_find M m k \<noteq> None \<longrightarrow> sm_find M (sm_erase M k m) = (sm_find M m)(k := None))"

section \<open>Operations\<close>

definition getExistingOrder :: "'m slot_map \<Rightarrow> SymbolKey \<Rightarrow> OrderSide \<Rightarrow> 'm \<Rightarrow> AlpacaOrderId option" where
  "getExistingOrder M symbol side slots = sm_find M slots \<lparr>osk_symbol = symbol, osk_side = side\<rparr>"

definition recordOrder :: "'m slot_map \<Rightarrow> SymbolKey \<Rightarrow> OrderSide \<Rightarrow> string \<Rightarrow> 'm \<Rightarrow> 'm" where
  "recordOrder M symbol side alpaca_order_id slots =
     (let key = \<lparr>osk_symbol = symbol, osk_side = side\<rparr>;
          slots = sm_insert M key slots
      in sm_assign M key (mk_AlpacaOrderId alpaca_order_id) slots)"

definition onOrderCompleted :: "'m slot_map \<Rightarrow> SymbolKey \<Rightarrow> OrderSide \<Rightarrow> string \<Rightarrow> 'm \<Rightarrow> 'm" where
  "onOrderCompleted M symbol side alpaca_order_id slots =
     (let key = \<lparr>osk_symbol = symbol, osk_side = side\<rparr>
      in case sm_find M slots key of
           None \<Rightarrow> slots
         | Some found \<Rightarrow> if id_equals found alpaca_order_id then sm_erase M key slots else slots)"

lemma recordOrder_find:
  assumes "slot_map_laws M"
  shows "sm_find M (recordOrder M symbol side i slots) =
    (sm_find M slots)(\<lparr>osk_symbol = symbol, osk_side = side\<rparr> \<mapsto> mk_AlpacaOrderId i)"
proof -
  let ?k = "\<lparr>osk_symbol = symbol, osk_side = side\<rparr>"
  have ins: "sm_find M (sm_insert M ?k slots) = (case sm_find M slots ?k of
      None \<Rightarrow> (sm_find M slots)(?k \<mapsto> empty_AlpacaOrderId) | Some _ \<Rightarrow> sm_find M slots)"
    using assms unfolding slot_map_laws_def by blast
  then have "sm_find M (sm_insert M ?k slots) ?k \<noteq> None" by (simp split: option.splits)
  then have "sm_find M (recordOrder M symbol side i slots) =
      (sm_find M (sm_insert M ?k slots))(?k \<mapsto> mk_AlpacaOrderId i)"
    using assms unfolding slot_map_laws_def recordOrder_def Let_def by blast
  then show ?thesis using ins by (simp split: option.splits)
qed

lemma onOrderCompleted_find:
  assumes "slot_map_laws M"
  shows "sm_find M (onOrderCompleted M symbol side i slots) =
    (let k = \<lparr>osk_symbol = symbol, osk_side = side\<rparr>
     in if map_option id_view (sm_find M slots k) = Some i then (sm_find M slots)(k := None) else sm_find M slots)"
  using assms by (auto simp: onOrderCompleted_def Let_def id_equals_def slot_map_laws_def split: option.splits)

section \<open>The interface of the tracker\<close>

text \<open>What the gateway and the fill listener rely on: a slot per key, overwritten by \<open>rec\<close> and cleared
  by \<open>compl\<close> only under the id it holds.\<close>

datatype 'k slot_op = Record 'k string | Complete 'k string

primrec slot_id :: "'k slot_op \<Rightarrow> string" where
  "slot_id (Record k i) = i"
| "slot_id (Complete k i) = i"

primrec slot_spec :: "'k slot_op \<Rightarrow> ('k \<rightharpoonup> string) \<Rightarrow> ('k \<rightharpoonup> string)" where
  "slot_spec (Record k i) m = m(k \<mapsto> i)"
| "slot_spec (Complete k i) m = (if m k = Some i then m(k := None) else m)"

fun slot_step :: "('k \<Rightarrow> string \<Rightarrow> 's \<Rightarrow> 's) \<Rightarrow> ('k \<Rightarrow> string \<Rightarrow> 's \<Rightarrow> 's) \<Rightarrow> 'k slot_op \<Rightarrow> 's \<Rightarrow> 's" where
  "slot_step rec compl (Record k i) s = rec k i s"
| "slot_step rec compl (Complete k i) s = compl k i s"

locale order_slots =
  fixes inv :: "'s \<Rightarrow> bool"
    and existing :: "'s \<Rightarrow> 'k \<rightharpoonup> string"
    and rec :: "'k \<Rightarrow> string \<Rightarrow> 's \<Rightarrow> 's"
    and compl :: "'k \<Rightarrow> string \<Rightarrow> 's \<Rightarrow> 's"
  assumes rec_inv: "inv s \<Longrightarrow> inv (rec k i s)"
    and compl_inv: "inv s \<Longrightarrow> inv (compl k i s)"
    and existing_rec: "inv s \<Longrightarrow> good_id i \<Longrightarrow> existing (rec k i s) = (existing s)(k \<mapsto> i)"
    and existing_compl: "inv s \<Longrightarrow>
      existing (compl k i s) = (if existing s k = Some i then (existing s)(k := None) else existing s)"
begin

lemma slot_run_refines:
  assumes "inv s" and "\<forall>op \<in> set ops. good_id (slot_id op)"
  shows "inv (fold (slot_step rec compl) ops s) \<and> existing (fold (slot_step rec compl) ops s) = fold slot_spec ops (existing s)"
  using assms
proof (induction ops arbitrary: s)
  case (Cons op ops)
  have "inv (slot_step rec compl op s) \<and> existing (slot_step rec compl op s) = slot_spec op (existing s)"
    using Cons.prems rec_inv compl_inv existing_rec existing_compl by (cases op) simp_all
  then show ?case using Cons by simp
qed simp

text \<open>A late completion of an order that has been replaced leaves the newer order in its slot.\<close>

lemma stale_completion:
  assumes "inv s" and "good_id new" and "old \<noteq> new"
  shows "existing (compl k old (rec k new s)) k = Some new"
  using assms rec_inv by (simp add: existing_rec existing_compl)

end

text \<open>The tracker as an instance: the map's implementation is part of the state, and the invariant is
  that it behaves as documented.\<close>

type_synonym 'm tracker_state = "'m slot_map \<times> 'm"

definition tracker_existing :: "'m tracker_state \<Rightarrow> SymbolKey \<times> OrderSide \<rightharpoonup> string" where
  "tracker_existing s k = map_option id_view (getExistingOrder (fst s) (fst k) (snd k) (snd s))"

definition tracker_record :: "SymbolKey \<times> OrderSide \<Rightarrow> string \<Rightarrow> 'm tracker_state \<Rightarrow> 'm tracker_state" where
  "tracker_record k i s = (fst s, recordOrder (fst s) (fst k) (snd k) i (snd s))"

definition tracker_complete :: "SymbolKey \<times> OrderSide \<Rightarrow> string \<Rightarrow> 'm tracker_state \<Rightarrow> 'm tracker_state" where
  "tracker_complete k i s = (fst s, onOrderCompleted (fst s) (fst k) (snd k) i (snd s))"

interpretation tracker: order_slots "\<lambda>s. slot_map_laws (fst s)" tracker_existing tracker_record tracker_complete
proof
  fix s :: "'m tracker_state" and k :: "SymbolKey \<times> OrderSide" and i :: string
  assume laws: "slot_map_laws (fst s)"
  show "slot_map_laws (fst (tracker_record k i s))" "slot_map_laws (fst (tracker_complete k i s))"
    using laws by (simp_all add: tracker_record_def tracker_complete_def)
  show "tracker_existing (tracker_record k i s) = (tracker_existing s)(k \<mapsto> i)" if "good_id i"
    using recordOrder_find [OF laws] id_view_mk [OF that]
    by (auto simp: fun_eq_iff tracker_existing_def tracker_record_def getExistingOrder_def)
  show "tracker_existing (tracker_complete k i s) =
      (if tracker_existing s k = Some i then (tracker_existing s)(k := None) else tracker_existing s)"
    using onOrderCompleted_find [OF laws, of "fst k" "snd k" i "snd s"]
    by (auto simp: fun_eq_iff tracker_existing_def tracker_complete_def getExistingOrder_def Let_def)
qed

text \<open>Calls of the tracker as operations.\<close>

fun tracker_op :: "'m slot_map \<Rightarrow> (SymbolKey \<times> OrderSide) slot_op \<Rightarrow> 'm \<Rightarrow> 'm" where
  "tracker_op M (Record (symbol, side) i) slots = recordOrder M symbol side i slots"
| "tracker_op M (Complete (symbol, side) i) slots = onOrderCompleted M symbol side i slots"

lemma tracker_run:
  "fold (slot_step tracker_record tracker_complete) ops (M, slots) = (M, fold (tracker_op M) ops slots)"
proof (induction ops arbitrary: slots)
  case (Cons op ops)
  have "slot_step tracker_record tracker_complete op (M, slots) = (M, tracker_op M op slots)"
    by (cases "(M, op, slots)" rule: tracker_op.cases) (auto simp: tracker_record_def tracker_complete_def)
  then show ?case using Cons.IH by simp
qed simp

section \<open>Properties\<close>

text \<open>C14. The tracker refines a partial map from symbol and side to the open order: over any sequence of
  recorded and completed orders whose ids fit the 48-byte buffer, what \<open>getExistingOrder\<close> returns
  for every key is the last id recorded for it unless exactly that id was completed since. A
  completion with a different id changes nothing.\<close>

theorem tracker_refines_map:
  assumes "slot_map_laws M" and "\<forall>op \<in> set ops. good_id (slot_id op)"
  shows "map_option id_view (getExistingOrder M symbol side (fold (tracker_op M) ops slots)) =
    fold slot_spec ops (tracker_existing (M, slots)) (symbol, side)"
  using tracker.slot_run_refines [of "(M, slots)" ops] assms tracker_run [of ops M slots]
  by (metis fst_conv snd_conv tracker_existing_def)

definition demo_slot_map :: "(OrderSlotKey \<times> AlpacaOrderId) list slot_map" where
  "demo_slot_map = \<lparr>sm_find = map_of,
     sm_insert = (\<lambda>k m. if map_of m k = None then (k, empty_AlpacaOrderId) # m else m),
     sm_assign = (\<lambda>k v m. (k, v) # m), sm_erase = (\<lambda>k m. filter (\<lambda>p. fst p \<noteq> k) m)\<rparr>"

lemma demo_slot_map_laws: "slot_map_laws demo_slot_map"
proof -
  have "map_of (filter (\<lambda>p. fst p \<noteq> k) m) = (map_of m)(k := None)" for k :: OrderSlotKey and m :: "(OrderSlotKey \<times> AlpacaOrderId) list"
    by (induction m) (auto simp: fun_eq_iff)
  then show ?thesis by (simp add: slot_map_laws_def demo_slot_map_def split: option.splits)
qed

definition AAPL_symbol :: SymbolKey where
  "AAPL_symbol = \<lparr>sk_value = copy_buf 8 ''AAPL''\<rparr>"

theorem tracker_refines_map_witness:
  "map_option id_view (getExistingOrder demo_slot_map AAPL_symbol Buy
     (fold (tracker_op demo_slot_map) [Record (AAPL_symbol, Buy) ''id-1'', Record (AAPL_symbol, Buy) ''id-2'',
        Complete (AAPL_symbol, Buy) ''id-1''] [])) = Some ''id-2''"
  using tracker_refines_map [OF demo_slot_map_laws, of "[Record (AAPL_symbol, Buy) ''id-1'',
      Record (AAPL_symbol, Buy) ''id-2'', Complete (AAPL_symbol, Buy) ''id-1'']" AAPL_symbol Buy "[]"]
  by (simp add: good_id_def kCapacity_def)

end
