(* ===== verification/Text_Numbers.thy ===== *)
theory Text_Numbers
  imports Trading_Types
begin

text \<open>
  Numbers as text, as the sources use the C++ library: \<open>std::to_string\<close> of integers,
  \<open>std::from_chars\<close> for \<open>int64_t\<close>, \<open>std::stoll\<close> and \<open>std::stod\<close> (the grammar of \<open>strtod\<close> in the
  C locale). \<^const>\<open>None\<close> is an error code of \<open>from_chars\<close> and an exception of \<open>stoll\<close> and \<open>stod\<close>.
\<close>

section \<open>Digits\<close>

definition is_digit :: "char \<Rightarrow> bool" where
  "is_digit c \<longleftrightarrow> (of_char c :: nat) \<in> {48..57}"

definition digit_val :: "char \<Rightarrow> nat" where
  "digit_val c = of_char c - 48"

definition digit_char :: "nat \<Rightarrow> char" where
  "digit_char d = char_of (48 + d)"

definition digits_val :: "string \<Rightarrow> nat" where
  "digits_val ds = foldl (\<lambda>v c. 10 * v + digit_val c) 0 ds"

fun nat_to_string :: "nat \<Rightarrow> string" where
  "nat_to_string n = (if n < 10 then [digit_char n] else nat_to_string (n div 10) @ [digit_char (n mod 10)])"

declare nat_to_string.simps [simp del]

definition int_to_string :: "int \<Rightarrow> string" where
  "int_to_string i = (if i < 0 then CHR ''-'' # nat_to_string (nat (- i)) else nat_to_string (nat i))"

definition is_space :: "char \<Rightarrow> bool" where
  "is_space c \<longleftrightarrow> (of_char c :: nat) \<in> {9..13} \<or> c = CHR '' ''"

definition split_sign :: "string \<Rightarrow> bool \<times> string" where
  "split_sign s = (case s of [] \<Rightarrow> (False, []) | c # cs \<Rightarrow>
     if c = CHR ''-'' then (True, cs) else if c = CHR ''+'' then (False, cs) else (False, s))"

section \<open>Integers\<close>

text \<open>The value and the number of characters consumed.\<close>

definition from_chars_i64 :: "string \<Rightarrow> (i64 \<times> nat) option" where
  "from_chars_i64 s =
     (let neg = (s \<noteq> [] \<and> hd s = CHR ''-'');
          ds = takeWhile is_digit (if neg then tl s else s);
          v = (if neg then - int (digits_val ds) else int (digits_val ds))
      in if ds = [] \<or> \<not> in_i64 v then None else Some (v, (if neg then 1 else 0) + length ds))"

definition stoll :: "string \<Rightarrow> i64 option" where
  "stoll s =
     (let (neg, rest) = split_sign (dropWhile is_space s);
          ds = takeWhile is_digit rest;
          v = (if neg then - int (digits_val ds) else int (digits_val ds))
      in if ds = [] \<or> \<not> in_i64 v then None else Some v)"

text \<open>The sources' test \<open>ec == std::errc{} && ptr == end\<close>.\<close>

definition parse_i64 :: "string \<Rightarrow> i64 option" where
  "parse_i64 s = (case from_chars_i64 s of None \<Rightarrow> None | Some (v, n) \<Rightarrow> if n = length s then Some v else None)"

section \<open>Floating point\<close>

definition lower :: "char \<Rightarrow> char" where
  "lower c = (if (of_char c :: nat) \<in> {65..90} then char_of ((of_char c :: nat) + 32) else c)"

definition has_prefix :: "string \<Rightarrow> string \<Rightarrow> bool" where
  "has_prefix p s \<longleftrightarrow> map lower (take (length p) s) = p"

definition hex_val :: "char \<Rightarrow> nat option" where
  "hex_val c = (if is_digit c then Some (digit_val c)
     else let l = (of_char (lower c) :: nat) in if l \<in> {97..102} then Some (l - 87) else None)"

definition scale :: "nat \<Rightarrow> int \<Rightarrow> rat" where
  "scale b e = (if 0 \<le> e then of_nat b ^ nat e else 1 / of_nat b ^ nat (- e))"

text \<open>An exponent part, when its letter is followed by an optional sign and a digit.\<close>

definition exponent_part :: "char \<Rightarrow> string \<Rightarrow> int \<times> nat" where
  "exponent_part letter s =
     (case s of [] \<Rightarrow> (0, 0)
      | c # cs \<Rightarrow>
          (let (neg, rest) = split_sign cs; ds = takeWhile is_digit rest
           in if lower c = letter \<and> ds \<noteq> []
              then ((if neg then - int (digits_val ds) else int (digits_val ds)),
                    1 + (length cs - length rest) + length ds)
              else (0, 0)))"

text \<open>The significand in base \<open>b\<close>: digits, optionally a point and more digits.\<close>

definition significand :: "(char \<Rightarrow> nat option) \<Rightarrow> nat \<Rightarrow> string \<Rightarrow> (nat \<times> nat \<times> nat) option" where
  "significand val b s =
     (let dig = (\<lambda>c. val c \<noteq> None);
          whole = takeWhile dig s; rest = drop (length whole) s;
          frac = (if rest \<noteq> [] \<and> hd rest = CHR ''.'' then takeWhile dig (tl rest) else []);
          point = (if rest \<noteq> [] \<and> hd rest = CHR ''.'' then 1 else 0);
          m = foldl (\<lambda>v c. b * v + the (val c)) 0 (whole @ frac)
      in if whole @ frac = [] then None else Some (m, length frac, length whole + point + length frac))"

definition dec_val :: "char \<Rightarrow> nat option" where
  "dec_val c = (if is_digit c then Some (digit_val c) else None)"

definition nan_tail :: "string \<Rightarrow> nat" where
  "nan_tail s = (case s of [] \<Rightarrow> 0 | c # cs \<Rightarrow>
     (let w = takeWhile (\<lambda>c. is_digit c \<or> (of_char (lower c) :: nat) \<in> {97..122} \<or> c = CHR ''_'') cs
      in if c = CHR ''('' \<and> length w < length cs \<and> cs ! length w = CHR '')'' then length w + 2 else 0))"

datatype strtod_value = Exact rat | Special fp

definition strtod_unsigned :: "string \<Rightarrow> (strtod_value \<times> nat) option" where
  "strtod_unsigned s =
     (if has_prefix ''infinity'' s then Some (Special PInf, 8)
      else if has_prefix ''inf'' s then Some (Special PInf, 3)
      else if has_prefix ''nan'' s then Some (Special NaN, 3 + nan_tail (drop 3 s))
      else case (if has_prefix ''0x'' s then significand hex_val 16 (drop 2 s) else None) of
        Some (m, f, n) \<Rightarrow>
          (let (e, k) = exponent_part (CHR ''p'') (drop (2 + n) s)
           in Some (Exact (of_nat m * scale 2 (e - 4 * int f)), 2 + n + k))
      | None \<Rightarrow>
          (case significand dec_val 10 s of
             None \<Rightarrow> None
           | Some (m, f, n) \<Rightarrow>
               (let (e, k) = exponent_part (CHR ''e'') (drop n s)
                in Some (Exact (of_nat m * scale 10 (e - int f)), n + k))))"

text \<open>Rounding to \<open>double\<close>; overflow and inexact underflow are range errors.\<close>

definition round_or_range :: "rat \<Rightarrow> fp option" where
  "round_or_range r =
     (case fp_round binary64 r of
        Fin v \<Rightarrow> if v \<noteq> r \<and> \<bar>r\<bar> < pow2 (- 1022) then None else Some (Fin v)
      | _ \<Rightarrow> None)"

definition neg_fp :: "fp \<Rightarrow> fp" where
  "neg_fp x = (case x of NaN \<Rightarrow> NaN | PInf \<Rightarrow> NInf | NInf \<Rightarrow> PInf | Fin r \<Rightarrow> Fin (- r))"

definition stod :: "string \<Rightarrow> (fp \<times> nat) option" where
  "stod s =
     (let t = dropWhile is_space s; ws = length s - length t;
          (neg, rest) = split_sign t; sg = length t - length rest
      in case strtod_unsigned rest of
           None \<Rightarrow> None
         | Some (Special x, n) \<Rightarrow> Some (if neg then neg_fp x else x, ws + sg + n)
         | Some (Exact r, n) \<Rightarrow>
             map_option (\<lambda>x. (if neg then neg_fp x else x, ws + sg + n)) (round_or_range r))"

section \<open>Round trips\<close>

lemma digit_char_props:
  assumes "d < 10"
  shows "is_digit (digit_char d)" and "digit_val (digit_char d) = d"
  using assms by (simp_all add: is_digit_def digit_val_def digit_char_def of_char_of)

lemma nat_to_string_digits: "\<forall>c \<in> set (nat_to_string n). is_digit c"
proof (induction n rule: nat_to_string.induct)
  case (1 n)
  then show ?case by (subst nat_to_string.simps) (auto simp: digit_char_props)
qed

lemma nat_to_string_nonempty [simp]: "nat_to_string n \<noteq> []"
  by (subst nat_to_string.simps) simp

lemma digits_val_snoc [simp]: "digits_val (ds @ [c]) = 10 * digits_val ds + digit_val c"
  by (simp add: digits_val_def)

lemma digits_val_to_string [simp]: "digits_val (nat_to_string n) = n"
proof (induction n rule: nat_to_string.induct)
  case (1 n)
  show ?case
  proof (cases "n < 10")
    case True
    then show ?thesis by (subst nat_to_string.simps) (simp add: digits_val_def digit_char_props)
  next
    case False
    have "digits_val (nat_to_string n) = 10 * digits_val (nat_to_string (n div 10)) + n mod 10"
      by (subst nat_to_string.simps) (simp add: False digit_char_props)
    then show ?thesis using 1 False by simp
  qed
qed

lemma takeWhile_digits_to_string:
  "rest = [] \<or> \<not> is_digit (hd rest) \<Longrightarrow> takeWhile is_digit (nat_to_string n @ rest) = nat_to_string n"
  using nat_to_string_digits [of n] by (cases rest) (auto simp: takeWhile_append)

lemma hd_nat_to_string: "is_digit (hd (nat_to_string n))"
  using nat_to_string_digits [of n] by simp

lemma parse_i64_to_string:
  assumes "in_i64 i"
  shows "parse_i64 (int_to_string i) = Some i"
proof -
  have minus: "\<not> is_digit (CHR ''-'')" by (simp add: is_digit_def)
  then have hd: "hd (nat_to_string n) \<noteq> CHR ''-''" for n using hd_nat_to_string [of n] by metis
  have tw: "takeWhile is_digit (nat_to_string n) = nat_to_string n" for n
    using takeWhile_digits_to_string [of "[]"] by simp
  show ?thesis
    using assms by (simp add: parse_i64_def from_chars_i64_def int_to_string_def Let_def hd tw)
qed

end
