(* ===== verification/Rate_Limiter.thy ===== *)
theory Rate_Limiter
  imports Prelude
begin

text \<open>
  \<open>RateLimiter\<close> (\<open>include/RateLimiter.hpp\<close>, \<open>src/RateLimiter.cpp\<close>): the broker's request budget. Clock
  readings are arguments; the subtraction of two of them is signed, so \<^const>\<open>None\<close> is overflow. The
  polling loop of \<open>waitOrDrop\<close> takes the sequence of its readings, one per turn; a loop that never
  ends is \<^const>\<open>None\<close> too, and that it ends is a theorem.
\<close>

section \<open>State and operations\<close>

datatype ThrottlePolicy = Wait | Drop

record RateLimiter =
  rl_remaining :: i64
  rl_throttle_start_ns :: i64
  rl_threshold :: i64
  rl_policy :: ThrottlePolicy

definition kMaxRequestsPerWindow :: i64 where
  "kMaxRequestsPerWindow = 200"

definition kDefaultThreshold :: i64 where
  "kDefaultThreshold = 10"

definition kWindowDurationNs :: i64 where
  "kWindowDurationNs = 60000000000"

definition clamp :: "int \<Rightarrow> int \<Rightarrow> int \<Rightarrow> int" where
  "clamp x lo hi = (if x < lo then lo else if hi < x then hi else x)"

definition new_RateLimiter :: "i64 \<Rightarrow> ThrottlePolicy \<Rightarrow> RateLimiter" where
  "new_RateLimiter threshold policy =
     \<lparr>rl_remaining = kMaxRequestsPerWindow, rl_throttle_start_ns = 0,
      rl_threshold = clamp threshold 1 kMaxRequestsPerWindow, rl_policy = policy\<rparr>"

text \<open>\<open>throttle_start_ns_.compare_exchange_strong(expected, nowNanos())\<close> with \<open>expected = 0\<close>.\<close>

definition start_throttle :: "u64 \<Rightarrow> RateLimiter \<Rightarrow> RateLimiter" where
  "start_throttle now rl =
     (if rl_throttle_start_ns rl = 0 then rl\<lparr>rl_throttle_start_ns := u64_to_i64 now\<rparr> else rl)"

definition rl_update :: "i64 \<Rightarrow> u64 \<Rightarrow> RateLimiter \<Rightarrow> RateLimiter" where
  "rl_update remaining now rl =
     (let rl = rl\<lparr>rl_remaining := remaining\<rparr>
      in if remaining < rl_threshold rl then start_throttle now rl
         else rl\<lparr>rl_throttle_start_ns := 0\<rparr>)"

definition onRateLimited :: "u64 \<Rightarrow> RateLimiter \<Rightarrow> RateLimiter" where
  "onRateLimited now rl = start_throttle now (rl\<lparr>rl_remaining := 0\<rparr>)"

definition canSend :: "u64 \<Rightarrow> RateLimiter \<Rightarrow> (bool \<times> RateLimiter) option" where
  "canSend now rl =
     (if rl_remaining rl \<ge> rl_threshold rl then Some (True, rl)
      else let start = rl_throttle_start_ns rl
           in if start = 0 then Some (True, rl)
              else do {
                elapsed \<leftarrow> i64_sub (u64_to_i64 now) start;
                Some (if elapsed \<ge> kWindowDurationNs then (True, rl\<lparr>rl_throttle_start_ns := 0\<rparr>) else (False, rl))
              })"

partial_function (option) wait_loop :: "(nat \<Rightarrow> u64) \<Rightarrow> nat \<Rightarrow> RateLimiter \<Rightarrow> RateLimiter option" where
  "wait_loop clock i rl =
     (case canSend (clock i) rl of
        None \<Rightarrow> None
      | Some (ok, rl) \<Rightarrow> if ok then Some rl else wait_loop clock (Suc i) rl)"

definition waitOrDrop :: "u64 \<Rightarrow> (nat \<Rightarrow> u64) \<Rightarrow> RateLimiter \<Rightarrow> (bool \<times> RateLimiter) option" where
  "waitOrDrop now clock rl = do {
     (ok, rl) \<leftarrow> canSend now rl;
     (if ok then Some (True, rl)
      else if rl_policy rl = Drop then Some (False, rl)
      else do { rl \<leftarrow> wait_loop clock 0 rl; Some (True, rl) })
   }"

section \<open>Laws\<close>

lemma u64_to_i64_uint:
  assumes "uint w < 2 ^ 63"
  shows "u64_to_i64 w = uint w"
proof -
  have "int (unat w) < int (2 ^ 63)" using assms by simp
  then have "unat w < 2 ^ 63" by (simp only: of_nat_less_iff)
  then show ?thesis using u64_to_i64_nonneg [of w] by simp
qed

lemma new_RateLimiter_threshold: "1 \<le> rl_threshold (new_RateLimiter t p)" "rl_threshold (new_RateLimiter t p) \<le> 200"
  by (simp_all add: new_RateLimiter_def clamp_def kMaxRequestsPerWindow_def)

definition throttled :: "RateLimiter \<Rightarrow> bool" where
  "throttled rl \<longleftrightarrow> rl_remaining rl < rl_threshold rl \<and> rl_throttle_start_ns rl \<noteq> 0"

lemma canSend_throttled:
  assumes "throttled rl" and "0 \<le> rl_throttle_start_ns rl" and "uint now < 2 ^ 63"
    and "rl_throttle_start_ns rl \<le> uint now"
  shows "canSend now rl =
    Some (if rl_throttle_start_ns rl + kWindowDurationNs \<le> uint now
          then (True, rl\<lparr>rl_throttle_start_ns := 0\<rparr>) else (False, rl))"
proof -
  have now: "u64_to_i64 now = uint now" using assms(3) by (rule u64_to_i64_uint)
  have "in_i64 (uint now - rl_throttle_start_ns rl)"
    using assms(2-4) by (simp add: in_i64_def)
  then show ?thesis
    using assms(1) by (simp add: canSend_def throttled_def Let_def i64_sub_def chk_i64_def now)
qed

lemma canSend_open: "\<not> throttled rl \<Longrightarrow> canSend now rl = Some (True, rl)"
  by (auto simp: canSend_def throttled_def Let_def)

text \<open>Readings of a clock that the sleep of a turn advances by at least 100 milliseconds.\<close>

definition polls :: "(nat \<Rightarrow> u64) \<Rightarrow> bool" where
  "polls clock \<longleftrightarrow> (\<forall>i \<le> 600. uint (clock i) < 2 ^ 63) \<and>
     (\<forall>i < 600. uint (clock i) + 100000000 \<le> uint (clock (Suc i)))"

lemma polls_advance: "polls clock \<Longrightarrow> i \<le> 600 \<Longrightarrow> uint (clock 0) + int i * 100000000 \<le> uint (clock i)"
proof (induction i)
  case (Suc i)
  then have "uint (clock i) + 100000000 \<le> uint (clock (Suc i))" by (simp add: polls_def)
  then show ?case using Suc by simp
qed simp

lemma wait_loop_returns:
  assumes th: "throttled rl" "0 \<le> rl_throttle_start_ns rl" "rl_throttle_start_ns rl \<le> uint (clock 0)"
    and clock: "polls clock" and i: "i \<le> 600"
  shows "wait_loop clock i rl = Some (rl\<lparr>rl_throttle_start_ns := 0\<rparr>)"
  using i
proof (induction "600 - i" arbitrary: i)
  case 0
  then have [simp]: "i = 600" by simp
  have "rl_throttle_start_ns rl + kWindowDurationNs \<le> uint (clock 600)"
    using polls_advance [OF clock, of 600] th(3) by (simp add: kWindowDurationNs_def)
  moreover have "uint (clock 600) < 2 ^ 63" using clock by (simp add: polls_def)
  ultimately show ?case using th
    by (subst wait_loop.simps) (simp add: canSend_throttled kWindowDurationNs_def)
next
  case (Suc n)
  have le: "rl_throttle_start_ns rl \<le> uint (clock i)"
    using polls_advance [OF clock, of i] th(3) Suc by linarith
  have lt: "uint (clock i) < 2 ^ 63" using clock Suc by (simp add: polls_def)
  have "wait_loop clock (Suc i) rl = Some (rl\<lparr>rl_throttle_start_ns := 0\<rparr>)" using Suc by simp
  then show ?case using canSend_throttled [OF th(1,2) lt le] by (subst wait_loop.simps) simp
qed

section \<open>Properties\<close>

text \<open>The throttle window: once the broker reports fewer requests left than the threshold (at a nonzero
  clock reading \<open>t\<close>, with no throttle running), \<open>canSend\<close> refuses at every later reading before
  \<open>t\<close> plus 60 seconds and permits from then on; a report at or above the threshold permits at once.\<close>

theorem throttle_window:
  assumes "0 < uint t" and "uint t \<le> uint now" and "uint now < 2 ^ 63" and "rl_throttle_start_ns rl = 0"
  shows "map_option fst (canSend now (rl_update remaining t rl)) =
    Some (rl_threshold rl \<le> remaining \<or> uint t + 60000000000 \<le> uint now)"
proof (cases "remaining < rl_threshold rl")
  case True
  let ?rl = "rl_update remaining t rl"
  have t: "u64_to_i64 t = uint t" using assms(2,3) by (intro u64_to_i64_uint) simp
  then have s: "rl_throttle_start_ns ?rl = uint t" "throttled ?rl"
    using True assms(1,4) by (simp_all add: rl_update_def start_throttle_def throttled_def Let_def)
  show ?thesis
    using canSend_throttled [OF s(2) _ assms(3)] assms(2) True s(1)
    by (auto simp: kWindowDurationNs_def)
next
  case False
  then have "\<not> throttled (rl_update remaining t rl)" by (simp add: rl_update_def throttled_def Let_def)
  then show ?thesis using canSend_open False by simp
qed

theorem throttle_window_witness:
  "map_option fst (canSend 59000000000 (rl_update 5 1000 (new_RateLimiter 10 Drop))) = Some False \<and>
   map_option fst (canSend 60000001000 (rl_update 5 1000 (new_RateLimiter 10 Drop))) = Some True"
  using throttle_window [of 1000 59000000000 "new_RateLimiter 10 Drop" 5]
    throttle_window [of 1000 60000001000 "new_RateLimiter 10 Drop" 5]
  by (simp add: new_RateLimiter_def clamp_def kMaxRequestsPerWindow_def)

text \<open>C18. \<open>waitOrDrop\<close> returns: under the dropping policy at once; under the waiting policy, when each sleep
  advances the clock by at least 100 milliseconds, after at most 601 polls, and then with permission
  to send. So it returns false only under the dropping policy.\<close>

theorem waitOrDrop_returns:
  assumes "0 \<le> rl_throttle_start_ns rl" and "rl_throttle_start_ns rl \<le> uint now" and "uint now < 2 ^ 63"
    and "uint now \<le> uint (clock 0)" and "polls clock"
  shows "\<exists>ok rl'. waitOrDrop now clock rl = Some (ok, rl') \<and>
    (ok \<longleftrightarrow> rl_policy rl = Wait \<or> map_option fst (canSend now rl) = Some True) \<and>
    (ok \<longrightarrow> \<not> throttled rl') \<and> rl_remaining rl' = rl_remaining rl"
proof (cases "throttled rl")
  case False
  then show ?thesis by (auto simp: waitOrDrop_def canSend_open)
next
  case True
  note c = canSend_throttled [OF True assms(1,3,2)]
  have le: "rl_throttle_start_ns rl \<le> uint (clock 0)" using assms(2,4) by linarith
  note w = wait_loop_returns [OF True assms(1) le assms(5), of 0]
  show ?thesis
    using w by (cases "rl_policy rl"; auto simp: waitOrDrop_def c throttled_def)
qed

definition demo_clock :: "nat \<Rightarrow> u64" where
  "demo_clock i = word_of_int (2000 + int i * 100000000)"

lemma demo_clock_uint: "i \<le> 601 \<Longrightarrow> uint (demo_clock i) = 2000 + int i * 100000000"
  unfolding demo_clock_def uint_word_of_int by (subst mod_pos_pos_trivial) simp_all

theorem waitOrDrop_returns_witness:
  "\<exists>rl'. waitOrDrop 1500 demo_clock (rl_update 5 1000 (new_RateLimiter 10 Wait)) = Some (True, rl') \<and> \<not> throttled rl'"
proof -
  let ?rl = "rl_update 5 1000 (new_RateLimiter 10 Wait)"
  have "u64_to_i64 1000 = 1000" using u64_to_i64_uint [of 1000] by simp
  then have s: "rl_throttle_start_ns ?rl = 1000" "rl_policy ?rl = Wait"
    by (simp_all add: new_RateLimiter_def clamp_def kMaxRequestsPerWindow_def rl_update_def start_throttle_def Let_def)
  have "polls demo_clock" by (simp add: polls_def demo_clock_uint)
  then show ?thesis using waitOrDrop_returns [of ?rl 1500 demo_clock] s by (auto simp: demo_clock_uint)
qed

end
