(* ===== verification/Rest_Client.thy ===== *)
theory Rest_Client
  imports Text_Numbers Rate_Limiter
begin

text \<open>
  The broker's REST interface: \<open>IRestClient\<close> (\<open>include/IRestClient.hpp\<close>) and its implementation
  \<open>AlpacaRestClient\<close> (\<open>include/AlpacaRestClient.hpp\<close>, \<open>src/AlpacaRestClient.cpp\<close>). The HTTP library,
  the environment and the JSON library are outside code: the records \<open>cpr_session\<close> and \<open>json_api\<close> of
  functions are parameters. A member function may throw; its result is an \<open>outcome\<close>. The socket
  options of the TCP connection are not values of the model.
\<close>

section \<open>The interface\<close>

record OrderAck =
  ack_client_order_id :: string
  ack_status :: string

record OrderError =
  err_status_code :: int
  err_message :: string

record AlpacaOrderStatus =
  os_id :: string
  os_symbol :: string
  os_side :: string
  os_status :: string
  os_created_at :: string
  os_qty :: i64
  os_filled_qty :: i64
  os_filled_avg_price :: fp

datatype 'a outcome = Threw | Returned "OrderError + 'a"

record 's IRestClient =
  rest_placeOrder :: "Order \<Rightarrow> 's \<Rightarrow> OrderAck outcome \<times> 's"
  rest_cancelOrder :: "string \<Rightarrow> 's \<Rightarrow> unit outcome \<times> 's"
  rest_queryOrders :: "string \<Rightarrow> string \<Rightarrow> 's \<Rightarrow> AlpacaOrderStatus list outcome \<times> 's"

section \<open>The outside libraries\<close>

record http_response =
  resp_status_code :: int
  resp_text :: string
  resp_header :: "string \<Rightarrow> string option"

text \<open>The member functions of \<open>cpr::Session\<close> the client calls; \<open>'w\<close> holds the session and the world behind it.\<close>

record 'w cpr_session =
  cpr_SetUrl :: "string \<Rightarrow> 'w \<Rightarrow> 'w"
  cpr_SetBody :: "string \<Rightarrow> 'w \<Rightarrow> 'w"
  cpr_SetParameters :: "(string \<times> string) list \<Rightarrow> 'w \<Rightarrow> 'w"
  cpr_RemoveContent :: "'w \<Rightarrow> 'w"
  cpr_Post :: "'w \<Rightarrow> http_response \<times> 'w"
  cpr_Delete :: "'w \<Rightarrow> http_response \<times> 'w"
  cpr_Get :: "'w \<Rightarrow> http_response \<times> 'w"

text \<open>\<open>nlohmann::json\<close> as the sources call it; \<open>js_value j key dflt\<close> is \<^const>\<open>None\<close> where the member
  function throws (a value that is not an object, or a member that is not a string), and \<open>js_equals j s\<close> is
  the comparison of a value with a string literal.\<close>

record 'j json_api =
  js_parse :: "string \<Rightarrow> 'j"
  js_parse_or_throw :: "string \<Rightarrow> 'j option"
  js_is_discarded :: "'j \<Rightarrow> bool"
  js_is_array :: "'j \<Rightarrow> bool"
  js_items :: "'j \<Rightarrow> 'j list"
  js_value :: "'j \<Rightarrow> string \<Rightarrow> string \<Rightarrow> string option"
  js_contains :: "'j \<Rightarrow> string \<Rightarrow> bool"
  js_at :: "'j \<Rightarrow> string \<Rightarrow> 'j"
  js_is_number :: "'j \<Rightarrow> bool"
  js_get_double :: "'j \<Rightarrow> fp"
  js_is_string :: "'j \<Rightarrow> bool"
  js_get_string :: "'j \<Rightarrow> string"
  js_is_object :: "'j \<Rightarrow> bool"
  js_is_number_integer :: "'j \<Rightarrow> bool"
  js_get_int64 :: "'j \<Rightarrow> i64"
  js_equals :: "'j \<Rightarrow> string \<Rightarrow> bool"

section \<open>The client\<close>

fun count_digits :: "nat \<Rightarrow> nat" where
  "count_digits f = (if 1 < f then Suc (count_digits (f div 10)) else 0)"

definition kPriceDecimals :: nat where
  "kPriceDecimals = count_digits (nat SCALING_FACTOR)"

record AlpacaRestClient =
  rc_order_url :: string
  rc_cancel_url_prefix :: string
  rc_payload_buf :: string
  rc_rate_limiter :: RateLimiter

definition strip_slashes :: "string \<Rightarrow> string" where
  "strip_slashes url = rev (dropWhile (\<lambda>c. c = CHR ''/'') (rev url))"

text \<open>\<^const>\<open>None\<close>: the constructor throws because a credential is not in the environment.\<close>

definition new_AlpacaRestClient ::
  "(string \<Rightarrow> string option) \<Rightarrow> string \<Rightarrow> i64 \<Rightarrow> ThrottlePolicy \<Rightarrow> AlpacaRestClient option" where
  "new_AlpacaRestClient getenv base_url_param rate_limit_threshold throttle_policy =
     (if getenv ''APCA_API_KEY_ID'' = None \<or> getenv ''APCA_API_SECRET_KEY'' = None then None
      else
        (let resolved_url = (if base_url_param = [] then
                (case getenv ''APCA_API_BASE_URL'' of
                   Some env_url \<Rightarrow> if env_url \<noteq> [] then env_url else ''https://paper-api.alpaca.markets''
                 | None \<Rightarrow> ''https://paper-api.alpaca.markets'')
              else base_url_param);
             resolved_url = strip_slashes resolved_url
         in Some \<lparr>rc_order_url = resolved_url @ ''/v2/orders'',
                  rc_cancel_url_prefix = resolved_url @ ''/v2/orders/'',
                  rc_payload_buf = [],
                  rc_rate_limiter = new_RateLimiter rate_limit_threshold throttle_policy\<rparr>))"

definition price_text :: "u64 \<Rightarrow> string" where
  "price_text price =
     (let whole = unat (price div 10000); frac = unat (price mod 10000);
          frac_str = nat_to_string frac
      in nat_to_string whole @ ''.'' @ replicate (kPriceDecimals - length frac_str) CHR ''0'' @ frac_str)"

definition buildOrderPayload :: \<open>Order \<Rightarrow> string\<close> where
  \<open>buildOrderPayload ord =
     ''{"symbol":"'' @ buf_view (ord_symbol ord) @
     ''","qty":"'' @ int_to_string (ord_quantity ord) @
     ''","side":"'' @ (if ord_side ord = Buy then ''buy'' else ''sell'') @
     (if ord_type ord = Market then ''","type":"market","time_in_force":"day"}''
      else ''","type":"limit","time_in_force":"day","limit_price":"'' @ price_text (ord_price ord) @ ''"}'')\<close>

definition updateRateLimit :: "u64 \<Rightarrow> http_response \<Rightarrow> RateLimiter \<Rightarrow> RateLimiter" where
  "updateRateLimit now r rl =
     (if resp_status_code r = 429 then onRateLimited now rl
      else case resp_header r ''X-Ratelimit-Remaining'' of
        None \<Rightarrow> rl
      | Some val \<Rightarrow> (case parse_i64 val of None \<Rightarrow> rl | Some remaining \<Rightarrow> rl_update (max remaining 0) now rl))"

text \<open>
  The clock readings of one call: the first permission check, the polls while waiting, and the
  update after the response. \<open>with_permission\<close> is the common frame of the three calls: ask the rate
  limiter, perform the request, record the response's budget. \<^const>\<open>None\<close> is inherited from the
  rate limiter.
\<close>

record call_clock =
  ck_now :: u64
  ck_polls :: "nat \<Rightarrow> u64"
  ck_update :: u64

definition dropped :: OrderError where
  "dropped = \<lparr>err_status_code = 429, err_message = ''Rate limited (dropped by policy)''\<rparr>"

definition with_permission ::
  "call_clock \<Rightarrow> (AlpacaRestClient \<Rightarrow> AlpacaRestClient) \<Rightarrow> ('w \<Rightarrow> http_response \<times> 'w) \<Rightarrow> (http_response \<Rightarrow> 'a outcome) \<Rightarrow>
   AlpacaRestClient \<times> 'w \<Rightarrow> ('a outcome \<times> AlpacaRestClient \<times> 'w) option" where
  "with_permission ck prepare request k s =
     (case s of (rc, w) \<Rightarrow> do {
        (ok, rl) \<leftarrow> waitOrDrop (ck_now ck) (ck_polls ck) (rc_rate_limiter rc);
        (if \<not> ok then Some (Returned (Inl dropped), rc\<lparr>rc_rate_limiter := rl\<rparr>, w)
         else
           (let (r, w) = request w;
                rl = updateRateLimit (ck_update ck) r rl
            in Some (k r, (prepare rc)\<lparr>rc_rate_limiter := rl\<rparr>, w)))
      })"

definition place_result :: "'j json_api \<Rightarrow> http_response \<Rightarrow> OrderAck outcome" where
  "place_result J r =
     (if resp_status_code r \<ge> 400
      then Returned (Inl \<lparr>err_status_code = resp_status_code r, err_message = ''Error placing order: '' @ resp_text r\<rparr>)
      else let response = js_parse J (resp_text r)
           in if js_is_discarded J response
              then Returned (Inl \<lparr>err_status_code = resp_status_code r, err_message = ''Invalid JSON in response: '' @ resp_text r\<rparr>)
              else case (js_value J response ''id'' [], js_value J response ''status'' ''unknown'') of
                  (Some i, Some st) \<Rightarrow> Returned (Inr \<lparr>ack_client_order_id = i, ack_status = st\<rparr>)
                | _ \<Rightarrow> Threw)"

definition placeOrder :: "'w cpr_session \<Rightarrow> 'j json_api \<Rightarrow> call_clock \<Rightarrow> Order \<Rightarrow>
    AlpacaRestClient \<times> 'w \<Rightarrow> (OrderAck outcome \<times> AlpacaRestClient \<times> 'w) option" where
  "placeOrder H J ck ord s =
     with_permission ck (\<lambda>rc. rc\<lparr>rc_payload_buf := buildOrderPayload ord\<rparr>)
       (\<lambda>w. let w = cpr_SetUrl H (rc_order_url (fst s)) w;
                w = cpr_SetBody H (buildOrderPayload ord) w
            in cpr_Post H w)
       (place_result J) s"

definition cancel_result :: "http_response \<Rightarrow> unit outcome" where
  "cancel_result r =
     (if resp_status_code r = 204 then Returned (Inr ())
      else Returned (Inl \<lparr>err_status_code = resp_status_code r, err_message = ''Error canceling order: '' @ resp_text r\<rparr>))"

definition cancelOrder :: "'w cpr_session \<Rightarrow> call_clock \<Rightarrow> string \<Rightarrow>
    AlpacaRestClient \<times> 'w \<Rightarrow> (unit outcome \<times> AlpacaRestClient \<times> 'w) option" where
  "cancelOrder H ck alpaca_order_id s =
     with_permission ck id
       (\<lambda>w. let w = cpr_SetUrl H (rc_cancel_url_prefix (fst s) @ alpaca_order_id) w;
                w = cpr_RemoveContent H w
            in cpr_Delete H w)
       cancel_result s"

text \<open>The average price of an item: a number, a string that \<open>stod\<close> reads to its end, or 0.\<close>

definition avg_price :: "'j json_api \<Rightarrow> 'j \<Rightarrow> fp" where
  "avg_price J item =
     (if js_contains J item ''filled_avg_price'' then
        (let price_val = js_at J item ''filled_avg_price''
         in if js_is_number J price_val then js_get_double J price_val
            else if js_is_string J price_val then
              (let s = js_get_string J price_val
               in if s \<noteq> [] \<and> s \<noteq> ''null'' then
                    (case stod s of None \<Rightarrow> Fin 0 | Some (v, pos) \<Rightarrow> if pos \<noteq> length s then Fin 0 else v)
                  else Fin 0)
            else Fin 0)
      else Fin 0)"

text \<open>One item of the reply: the call throws (\<^const>\<open>None\<close>), or the item is skipped (\<open>continue\<close>) or taken.\<close>

definition query_item :: "'j json_api \<Rightarrow> 'j \<Rightarrow> AlpacaOrderStatus option option" where
  "query_item J item = do {
     i \<leftarrow> js_value J item ''id'' [];
     symbol \<leftarrow> js_value J item ''symbol'' [];
     side \<leftarrow> js_value J item ''side'' [];
     status \<leftarrow> js_value J item ''status'' [];
     qty_str \<leftarrow> js_value J item ''qty'' ''0'';
     filled_str \<leftarrow> js_value J item ''filled_qty'' ''0'';
     (case (parse_i64 qty_str, parse_i64 filled_str) of
        (Some qty, Some filled) \<Rightarrow> do {
          created \<leftarrow> js_value J item ''created_at'' [];
          Some (Some \<lparr>os_id = i, os_symbol = symbol, os_side = side, os_status = status, os_created_at = created,
                      os_qty = qty, os_filled_qty = filled, os_filled_avg_price = avg_price J item\<rparr>)
        }
      | _ \<Rightarrow> Some None)
   }"

fun query_items :: "'j json_api \<Rightarrow> 'j list \<Rightarrow> AlpacaOrderStatus list option" where
  "query_items J [] = Some []"
| "query_items J (item # items) = do {
     x \<leftarrow> query_item J item;
     xs \<leftarrow> query_items J items;
     Some (case x of None \<Rightarrow> xs | Some st \<Rightarrow> st # xs)
   }"

definition query_result :: "'j json_api \<Rightarrow> http_response \<Rightarrow> AlpacaOrderStatus list outcome" where
  "query_result J r =
     (if resp_status_code r \<ge> 400
      then Returned (Inl \<lparr>err_status_code = resp_status_code r, err_message = ''Error querying orders: '' @ resp_text r\<rparr>)
      else let response = js_parse J (resp_text r)
           in if \<not> js_is_array J response
              then Returned (Inl \<lparr>err_status_code = resp_status_code r, err_message = ''Invalid JSON array in response''\<rparr>)
              else case query_items J (js_items J response) of None \<Rightarrow> Threw | Some xs \<Rightarrow> Returned (Inr xs))"

definition queryOrders :: "'w cpr_session \<Rightarrow> 'j json_api \<Rightarrow> call_clock \<Rightarrow> string \<Rightarrow> string \<Rightarrow>
    AlpacaRestClient \<times> 'w \<Rightarrow> (AlpacaOrderStatus list outcome \<times> AlpacaRestClient \<times> 'w) option" where
  "queryOrders H J ck status_filter after s =
     with_permission ck id
       (\<lambda>w. let params = [(''status'', status_filter), (''limit'', ''500''),
                          (''direction'', if after = [] then ''desc'' else ''asc'')];
                params = (if after = [] then params else params @ [(''after'', after)]);
                w = cpr_SetUrl H (rc_order_url (fst s)) w;
                w = cpr_SetParameters H params w;
                w = cpr_RemoveContent H w
            in cpr_Get H w)
       (query_result J) s"

section \<open>The payload read back\<close>

fun split_on :: "char \<Rightarrow> string \<Rightarrow> string list" where
  "split_on c [] = [[]]"
| "split_on c (x # xs) =
     (if x = c then [] # split_on c xs
      else case split_on c xs of [] \<Rightarrow> [[x]] | y # ys \<Rightarrow> (x # y) # ys)"

abbreviation quote :: char where
  "quote \<equiv> CHR 0x22"

lemma split_on_free: "c \<notin> set a \<Longrightarrow> split_on c a = [a]"
  by (induction a) auto

lemma split_on_piece: "c \<notin> set a \<Longrightarrow> split_on c (a @ c # b) = a # split_on c b"
  by (induction a) auto

lemma digit_not_quote: "\<not> is_digit quote" "\<not> is_digit (CHR ''.'')" "is_digit (CHR ''0'')" "digit_val (CHR ''0'') = 0"
  by (simp_all add: is_digit_def digit_val_def)

lemma to_string_no_quote: "quote \<notin> set (nat_to_string n)" "quote \<notin> set (int_to_string i)"
  using nat_to_string_digits digit_not_quote(1) by (auto simp: int_to_string_def)

lemma price_text_no_quote: "quote \<notin> set (price_text p)"
  using to_string_no_quote by (auto simp: price_text_def Let_def)

lemma kPriceDecimals_4: "kPriceDecimals = 4"
  by (simp add: kPriceDecimals_def SCALING_FACTOR_def)

lemma length_nat_to_string: "0 < k \<Longrightarrow> n < 10 ^ k \<Longrightarrow> length (nat_to_string n) \<le> k"
proof (induction n arbitrary: k rule: nat_to_string.induct)
  case (1 n)
  show ?case
  proof (cases "n < 10")
    case True
    then show ?thesis using 1 by (subst nat_to_string.simps) simp
  next
    case False
    then obtain j where j: "k = Suc j" "0 < j" using 1 by (cases k; cases "k - 1") auto
    have "n div 10 < 10 ^ j" using 1 j by (simp add: less_mult_imp_div_less)
    then have "length (nat_to_string (n div 10)) \<le> j" using 1 False j by simp
    then show ?thesis using False j by (subst nat_to_string.simps) simp
  qed
qed

lemma foldl_dec: "\<forall>c \<in> set ds. is_digit c \<Longrightarrow> foldl (\<lambda>v c. 10 * v + the (dec_val c)) a ds = a * 10 ^ length ds + digits_val ds"
proof (induction ds arbitrary: a rule: rev_induct)
  case (snoc d ds)
  then show ?case by (simp add: dec_val_def algebra_simps)
qed (simp add: digits_val_def)

lemma digits_val_pad: "digits_val (replicate k (CHR ''0'') @ ds) = digits_val ds"
proof -
  have "foldl (\<lambda>v c. 10 * v + digit_val c) 0 (replicate k (CHR ''0'')) = 0"
    by (induction k) (simp_all add: digit_not_quote)
  then show ?thesis by (simp add: digits_val_def)
qed

text \<open>The decimal text of a price is exactly its number of ten-thousandths.\<close>

lemma price_text_value: "significand dec_val 10 (price_text p) = Some (unat p, 4, length (price_text p))"
proof -
  define frac whole f where "frac = nat_to_string (unat (p mod 10000))"
    and "whole = nat_to_string (unat (p div 10000))" and "f = replicate (4 - length frac) (CHR ''0'') @ frac"
  have dig: "(\<lambda>c. dec_val c \<noteq> None) = is_digit" by (auto simp: dec_val_def fun_eq_iff)
  have m: "unat (p mod 10000) = unat p mod 10000" "unat (p div 10000) = unat p div 10000"
    by (simp_all add: unat_mod unat_div)
  have len: "length f = 4" using length_nat_to_string [of 4 "unat (p mod 10000)"] m by (simp add: f_def frac_def)
  have digs: "\<forall>c \<in> set f. is_digit c" "\<forall>c \<in> set whole. is_digit c"
    using nat_to_string_digits digit_not_quote by (auto simp: f_def frac_def whole_def)
  have shape: "price_text p = whole @ CHR ''.'' # f"
    by (simp add: price_text_def Let_def kPriceDecimals_4 f_def frac_def whole_def)
  have tw: "takeWhile is_digit (whole @ CHR ''.'' # f) = whole" "takeWhile is_digit f = f"
    using digit_not_quote digs by (simp_all add: takeWhile_append2 takeWhile_eq_all_conv)
  have "foldl (\<lambda>v c. 10 * v + the (dec_val c)) 0 (whole @ f) = digits_val whole * 10 ^ 4 + digits_val f"
    using foldl_dec [OF digs(2), of 0] foldl_dec [OF digs(1), of "digits_val whole"] len by simp
  also have "digits_val f = unat p mod 10000" by (simp add: f_def digits_val_pad frac_def m)
  also have "digits_val whole = unat p div 10000" by (simp add: whole_def m)
  finally have "foldl (\<lambda>v c. 10 * v + the (dec_val c)) 0 (whole @ f) = unat p" by simp
  moreover have "f \<noteq> []" using len by auto
  ultimately show ?thesis unfolding significand_def dig Let_def shape tw(1) by (simp add: tw(2) len)
qed

section \<open>Properties\<close>

text \<open>C19. The order payload is unambiguous: for a symbol without double quotes, cutting the JSON text at its
  quotes gives back the order: the symbol, the quantity (read by \<open>from_chars\<close>), the side, the type,
  and for a limit order a decimal price whose value is exactly the order's price in ten-thousandths,
  with four decimals.\<close>

theorem payload_roundtrip:
  assumes "quote \<notin> set (buf_view (ord_symbol ord))" and "in_i64 (ord_quantity ord)"
  defines "f \<equiv> split_on quote (buildOrderPayload ord)"
  shows "f ! 3 = buf_view (ord_symbol ord) \<and> parse_i64 (f ! 7) = Some (ord_quantity ord) \<and>
    f ! 11 = (case ord_side ord of Buy \<Rightarrow> ''buy'' | Sell \<Rightarrow> ''sell'') \<and>
    f ! 15 = (case ord_type ord of Market \<Rightarrow> ''market'' | Limit \<Rightarrow> ''limit'') \<and>
    (ord_type ord = Limit \<longrightarrow> significand dec_val 10 (f ! 23) = Some (unat (ord_price ord), 4, length (f ! 23)))"
proof -
  let ?sym = "buf_view (ord_symbol ord)" and ?qty = "int_to_string (ord_quantity ord)"
  let ?side = "if ord_side ord = Buy then ''buy'' else ''sell''"
  have side: "quote \<notin> set ?side" by simp
  note piece = split_on_piece [OF assms(1)] split_on_piece [OF to_string_no_quote(2)]
    split_on_piece [OF side] split_on_piece [OF price_text_no_quote]
  have "f = [''{'', ''symbol'', '':'', ?sym, '','', ''qty'', '':'', ?qty, '','', ''side'', '':'', ?side, '',''] @
      (if ord_type ord = Market then [''type'', '':'', ''market'', '','', ''time_in_force'', '':'', ''day'', ''}'']
       else [''type'', '':'', ''limit'', '','', ''time_in_force'', '':'', ''day'', '','', ''limit_price'', '':'',
         price_text (ord_price ord), ''}''])"
    unfolding f_def buildOrderPayload_def by (simp add: piece)
  then show ?thesis
    using parse_i64_to_string [OF assms(2)] price_text_value
    by (cases "ord_type ord"; cases "ord_side ord") simp_all
qed

theorem payload_roundtrip_witness:
  "(let f = split_on quote (buildOrderPayload (zero_Order\<lparr>ord_symbol := copy_buf 8 ''AAPL'', ord_quantity := 100,
        ord_price := 1502500, ord_type := Limit\<rparr>))
    in f ! 3 = ''AAPL'' \<and> parse_i64 (f ! 7) = Some 100 \<and> significand dec_val 10 (f ! 23) = Some (1502500, 4, length (f ! 23)))"
proof -
  let ?o = "zero_Order\<lparr>ord_symbol := copy_buf 8 ''AAPL'', ord_quantity := 100, ord_price := 1502500, ord_type := Limit\<rparr>"
  have v: "buf_view (ord_symbol ?o) = ''AAPL''" by (simp add: buf_view_def copy_buf_def eval_nat_numeral)
  have "in_i64 (ord_quantity ?o)" by (simp add: in_i64_def)
  then show ?thesis using payload_roundtrip [of ?o] v by (simp add: Let_def)
qed

text \<open>A throttle is running only while the budget is below the threshold.\<close>

definition rl_inv :: "RateLimiter \<Rightarrow> bool" where
  "rl_inv rl \<longleftrightarrow> 1 \<le> rl_threshold rl \<and> (rl_throttle_start_ns rl \<noteq> 0 \<longrightarrow> rl_remaining rl < rl_threshold rl)"

lemma rl_inv_intros [invariant_intros]:
  "rl_inv (new_RateLimiter t p)"
  "rl_inv rl \<Longrightarrow> rl_inv (rl_update remaining now rl)"
  "rl_inv rl \<Longrightarrow> rl_inv (onRateLimited now rl)"
  by (auto simp: rl_inv_def new_RateLimiter_def clamp_def kMaxRequestsPerWindow_def rl_update_def
      onRateLimited_def start_throttle_def Let_def)

lemma updateRateLimit_inv [invariant_intros]: "rl_inv rl \<Longrightarrow> rl_inv (updateRateLimit now r rl)"
  by (auto simp: updateRateLimit_def rl_inv_intros split: option.splits)

lemma canSend_inv: "rl_inv rl \<Longrightarrow> canSend now rl = Some (ok, rl') \<Longrightarrow> rl_inv rl' \<and> (ok \<longrightarrow> rl_throttle_start_ns rl' = 0)"
  by (auto simp: canSend_def rl_inv_def Let_def bind_eq_Some_conv split: if_splits)

lemma with_permission_refused:
  assumes "throttled (rc_rate_limiter rc)" and "rl_policy (rc_rate_limiter rc) = Drop"
    and "0 \<le> rl_throttle_start_ns (rc_rate_limiter rc)"
    and "rl_throttle_start_ns (rc_rate_limiter rc) \<le> uint (ck_now ck)"
    and "uint (ck_now ck) < rl_throttle_start_ns (rc_rate_limiter rc) + kWindowDurationNs"
    and "uint (ck_now ck) < 2 ^ 63"
  shows "with_permission ck prepare request k (rc, w) = Some (Returned (Inl dropped), rc, w)"
  using canSend_throttled [OF assms(1,3,6,4)] assms(2,5) by (simp add: with_permission_def waitOrDrop_def)

text \<open>C20. After the broker answers 429 at clock reading \<open>t\<close>, a client with the dropping policy that was allowed
  to send makes no request for 60 seconds: placing, cancelling and querying all return the dropped
  error, and the session and the world behind it are untouched.\<close>

theorem silent_after_429:
  fixes rc0 :: AlpacaRestClient
  assumes "rl_inv rl" and "rl_throttle_start_ns rl = 0" and "rl_policy rl = Drop"
    and "resp_status_code r = 429" and "0 < uint t"
    and "uint t \<le> uint (ck_now ck)" and "uint (ck_now ck) < uint t + 60000000000" and "uint (ck_now ck) < 2 ^ 63"
  defines "rc \<equiv> rc0\<lparr>rc_rate_limiter := updateRateLimit t r rl\<rparr>"
  shows "placeOrder H J ck ord (rc, w) = Some (Returned (Inl dropped), rc, w) \<and>
    cancelOrder H ck i (rc, w) = Some (Returned (Inl dropped), rc, w) \<and>
    queryOrders H J ck status_filter after (rc, w) = Some (Returned (Inl dropped), rc, w)"
proof -
  have "u64_to_i64 t = uint t" using assms(6,8) by (intro u64_to_i64_uint) simp
  then have "rl_throttle_start_ns (rc_rate_limiter rc) = uint t" "rl_policy (rc_rate_limiter rc) = Drop"
    "throttled (rc_rate_limiter rc)"
    using assms(1-5) by (simp_all add: rc_def updateRateLimit_def onRateLimited_def start_throttle_def throttled_def rl_inv_def)
  then show ?thesis
    using assms(5-8) by (simp add: placeOrder_def cancelOrder_def queryOrders_def with_permission_refused kWindowDurationNs_def)
qed

definition demo_client :: AlpacaRestClient where
  "demo_client = \<lparr>rc_order_url = ''https://x/v2/orders'', rc_cancel_url_prefix = ''https://x/v2/orders/'',
     rc_payload_buf = [], rc_rate_limiter = new_RateLimiter 10 Drop\<rparr>"

definition demo_429 :: http_response where
  "demo_429 = \<lparr>resp_status_code = 429, resp_text = [], resp_header = (\<lambda>_. None)\<rparr>"

theorem silent_after_429_witness:
  "\<forall>(H :: unit cpr_session) w. fst (the (cancelOrder H \<lparr>ck_now = 5000, ck_polls = (\<lambda>_. 0), ck_update = 0\<rparr> ''id-1''
     (demo_client\<lparr>rc_rate_limiter := updateRateLimit 1000 demo_429 (new_RateLimiter 10 Drop)\<rparr>, w))) = Returned (Inl dropped)"
proof (intro allI)
  fix H :: "unit cpr_session" and w :: unit
  let ?ck = "\<lparr>ck_now = 5000, ck_polls = (\<lambda>_. 0), ck_update = 0\<rparr> :: call_clock"
  have rl: "rl_throttle_start_ns (new_RateLimiter 10 Drop) = 0" "rl_policy (new_RateLimiter 10 Drop) = Drop"
    by (simp_all add: new_RateLimiter_def)
  have r: "resp_status_code demo_429 = 429" by (simp add: demo_429_def)
  have t: "0 < uint (1000 :: u64)" "uint (1000 :: u64) \<le> uint (ck_now ?ck)"
    "uint (ck_now ?ck) < uint (1000 :: u64) + 60000000000" "uint (ck_now ?ck) < 2 ^ 63"
    by simp_all
  show "fst (the (cancelOrder H ?ck ''id-1''
      (demo_client\<lparr>rc_rate_limiter := updateRateLimit 1000 demo_429 (new_RateLimiter 10 Drop)\<rparr>, w))) = Returned (Inl dropped)"
    using silent_after_429 [OF rl_inv_intros(1) rl r t, where H = H and w = w and i = "''id-1''" and ?rc0.0 = demo_client,
        THEN conjunct2, THEN conjunct1]
    by simp
qed

end
