(* ===== verification/Order_Gateway.thy ===== *)
theory Order_Gateway
  imports Risk_Manager Pending_Order_Tracker Mpsc_Queue Rest_Client Latency_Tracker
begin

text \<open>
  \<open>OrderGateway\<close> (\<open>include/OrderGateway.hpp\<close>, \<open>src/OrderGateway.cpp\<close>): the consumer of the order queue.
  The broker is any \<open>IRestClient\<close>, the tracker's map any \<open>slot_map\<close>, the histograms any \<open>hdr_api\<close>;
  the objects it shares with other components are fields of its state, a null pointer \<^const>\<open>None\<close>.
  Log lines are not modelled. The result is \<^const>\<open>None\<close> where booking a cancellation overflows.
\<close>

section \<open>State and operations\<close>

record ('r, 'm, 'h) Gateway =
  gw_rest :: 'r
  gw_pm :: PositionManager
  gw_tracker :: "'m option"
  gw_latency :: "'h LatencyTracker option"
  gw_order_id_counter :: u64

text \<open>The outside objects a gateway works with.\<close>

record ('r, 'm, 'h) gateway_env =
  env_rest :: "'r IRestClient"
  env_slots :: "'m slot_map"
  env_hdr :: "'h hdr_api"

text \<open>\<^const>\<open>None\<close>: the constructor throws on a null queue, client or position manager. The queue stays
  with its owner and is passed to \<open>run\<close>.\<close>

definition new_OrderGateway :: "Order Queue option \<Rightarrow> 'r option \<Rightarrow> PositionManager option \<Rightarrow> 'm option \<Rightarrow>
    'h LatencyTracker option \<Rightarrow> ('r, 'm, 'h) Gateway option" where
  "new_OrderGateway order_queue rest_client position_manager pending_tracker latency_tracker =
     (case (order_queue, rest_client, position_manager) of
        (Some q, Some rest, Some pm) \<Rightarrow>
          Some \<lparr>gw_rest = rest, gw_pm = pm, gw_tracker = pending_tracker, gw_latency = latency_tracker,
                gw_order_id_counter = 0\<rparr>
      | _ \<Rightarrow> None)"

definition release :: "Order \<Rightarrow> ('r, 'm, 'h) Gateway \<Rightarrow> ('r, 'm, 'h) Gateway option" where
  "release ord gw = map_option (\<lambda>pm. gw\<lparr>gw_pm := pm\<rparr>) (onOrderCancelled ord (gw_pm gw))"

definition cancel_accepted :: "unit outcome \<Rightarrow> bool" where
  "cancel_accepted r = (case r of
     Threw \<Rightarrow> False
   | Returned (Inr _) \<Rightarrow> True
   | Returned (Inl e) \<Rightarrow> err_status_code e = 422)"

text \<open>The first half of \<open>executeOrder\<close>: an order the tracker still holds for this symbol and side is cancelled
  at the broker. The flag says whether to go on and place the new order.\<close>

definition cancel_previous :: "('r, 'm, 'h) gateway_env \<Rightarrow> Order \<Rightarrow> ('r, 'm, 'h) Gateway \<Rightarrow> bool \<times> ('r, 'm, 'h) Gateway" where
  "cancel_previous E ord gw =
     (case gw_tracker gw of
        None \<Rightarrow> (True, gw)
      | Some slots \<Rightarrow>
          (case getExistingOrder (env_slots E) \<lparr>sk_value = ord_symbol ord\<rparr> (ord_side ord) slots of
             None \<Rightarrow> (True, gw)
           | Some prev_id \<Rightarrow>
               (case rest_cancelOrder (env_rest E) (id_view prev_id) (gw_rest gw) of
                  (r, rest) \<Rightarrow> (cancel_accepted r, gw\<lparr>gw_rest := rest\<rparr>))))"

definition executeOrder ::
  "('r, 'm, 'h) gateway_env \<Rightarrow> u64 \<Rightarrow> Order \<Rightarrow> ('r, 'm, 'h) Gateway \<Rightarrow> ('r, 'm, 'h) Gateway option" where
  "executeOrder E submitted_at ord gw =
     (case cancel_previous E ord gw of
        (False, gw) \<Rightarrow> release ord gw
      | (True, gw) \<Rightarrow>
          (case rest_placeOrder (env_rest E) ord (gw_rest gw) of
             (Returned (Inr ack), rest) \<Rightarrow>
               (let gw = gw\<lparr>gw_rest := rest\<rparr>;
                    gw = gw\<lparr>gw_tracker := map_option (recordOrder (env_slots E) \<lparr>sk_value = ord_symbol ord\<rparr>
                              (ord_side ord) (ack_client_order_id ack)) (gw_tracker gw)\<rparr>;
                    gw = gw\<lparr>gw_latency := map_option (recordOrderSubmit (ack_client_order_id ack) submitted_at) (gw_latency gw)\<rparr>
                in Some gw)
           | (Returned (Inl e), rest) \<Rightarrow> release ord (gw\<lparr>gw_rest := rest\<rparr>)
           | (Threw, rest) \<Rightarrow> release ord (gw\<lparr>gw_rest := rest\<rparr>)))"

text \<open>One popped order, as both loops of \<open>run\<close> treat it.\<close>

definition handle_order ::
  "('r, 'm, 'h) gateway_env \<Rightarrow> u64 \<times> u64 \<Rightarrow> Order \<Rightarrow> ('r, 'm, 'h) Gateway \<Rightarrow> ('r, 'm, 'h) Gateway option" where
  "handle_order E stamps ord gw =
     (let (dequeued_at, submitted_at) = stamps;
          n = gw_order_id_counter gw + 1;
          gw = gw\<lparr>gw_order_id_counter := n\<rparr>;
          ord = ord\<lparr>ord_id := n\<rparr>;
          gw = gw\<lparr>gw_latency := map_option (\<lambda>lt.
                 lt_record (env_hdr E) EndToEnd (dequeued_at - ord_arrivedAt ord)
                   (lt_record (env_hdr E) MpscQueue (dequeued_at - ord_queuedAt ord) lt)) (gw_latency gw)\<rparr>
      in executeOrder E submitted_at ord gw)"

text \<open>The loops of \<open>run\<close>. \<open>running i\<close> is the flag as the \<open>i\<close>-th turn of the first loop reads it; \<open>clock\<close>
  gives the readings for the order with a given id. \<open>fuel\<close> bounds the turns.\<close>

fun wait_phase :: "nat \<Rightarrow> ('r, 'm, 'h) gateway_env \<Rightarrow> (u64 \<Rightarrow> u64 \<times> u64) \<Rightarrow> (nat \<Rightarrow> bool) \<Rightarrow> nat \<Rightarrow>
    Order Queue \<Rightarrow> ('r, 'm, 'h) Gateway \<Rightarrow> (Order Queue \<times> ('r, 'm, 'h) Gateway) option" where
  "wait_phase 0 E clock running i q gw = None"
| "wait_phase (Suc fuel) E clock running i q gw = do {
     (r, q) \<leftarrow> wait_and_pop_turn (Some (running i)) q;
     (case r of
        Stopped \<Rightarrow> Some (q, gw)
      | Again \<Rightarrow> wait_phase fuel E clock running (Suc i) q gw
      | Popped ord \<Rightarrow> do {
          gw \<leftarrow> handle_order E (clock (gw_order_id_counter gw + 1)) ord gw;
          wait_phase fuel E clock running (Suc i) q gw
        })
   }"

fun drain_phase :: "nat \<Rightarrow> ('r, 'm, 'h) gateway_env \<Rightarrow> (u64 \<Rightarrow> u64 \<times> u64) \<Rightarrow>
    Order Queue \<Rightarrow> ('r, 'm, 'h) Gateway \<Rightarrow> (Order Queue \<times> ('r, 'm, 'h) Gateway) option" where
  "drain_phase 0 E clock q gw = None"
| "drain_phase (Suc fuel) E clock q gw = do {
     (r, q) \<leftarrow> try_pop q;
     (case r of
        None \<Rightarrow> Some (q, gw)
      | Some ord \<Rightarrow> do {
          gw \<leftarrow> handle_order E (clock (gw_order_id_counter gw + 1)) ord gw;
          drain_phase fuel E clock q gw
        })
   }"

definition gateway_run :: "nat \<Rightarrow> ('r, 'm, 'h) gateway_env \<Rightarrow> (u64 \<Rightarrow> u64 \<times> u64) \<Rightarrow> (nat \<Rightarrow> bool) \<Rightarrow>
    Order Queue \<Rightarrow> ('r, 'm, 'h) Gateway \<Rightarrow> (Order Queue \<times> ('r, 'm, 'h) Gateway) option" where
  "gateway_run fuel E clock running q gw = do {
     (q, gw) \<leftarrow> wait_phase fuel E clock running 0 q gw;
     drain_phase fuel E clock q gw
   }"

section \<open>Outcomes of an order\<close>

text \<open>
  What \<open>executeOrder\<close> did, read off its definition once: the order was placed and recorded, or it was
  not placed and its pending quantity released. \<open>placed\<close> is the broker's acknowledgement.
\<close>

definition placed :: "('r, 'm, 'h) gateway_env \<Rightarrow> Order \<Rightarrow> ('r, 'm, 'h) Gateway \<Rightarrow> string option" where
  "placed E ord gw =
     (case cancel_previous E ord gw of
        (False, _) \<Rightarrow> None
      | (True, gw) \<Rightarrow> (case fst (rest_placeOrder (env_rest E) ord (gw_rest gw)) of
            Returned (Inr ack) \<Rightarrow> Some (ack_client_order_id ack) | _ \<Rightarrow> None))"

lemma cancel_previous_frame:
  assumes "cancel_previous E ord gw = (ok, gw')"
  shows "gw' = gw\<lparr>gw_rest := gw_rest gw'\<rparr>"
  using assms by (auto simp: cancel_previous_def split: option.splits prod.splits)

lemma executeOrder_placed:
  assumes "placed E ord gw = Some i"
  shows "\<exists>rest. executeOrder E t ord gw = Some (gw\<lparr>gw_rest := rest,
    gw_tracker := map_option (recordOrder (env_slots E) \<lparr>sk_value = ord_symbol ord\<rparr> (ord_side ord) i) (gw_tracker gw),
    gw_latency := map_option (recordOrderSubmit i t) (gw_latency gw)\<rparr>)"
proof (cases "cancel_previous E ord gw")
  case (Pair ok gw1)
  obtain rest where gw1: "gw1 = gw\<lparr>gw_rest := rest\<rparr>" using cancel_previous_frame [OF Pair] by blast
  have ok using assms Pair by (auto simp: placed_def split: bool.splits)
  obtain ack rest' where p: "rest_placeOrder (env_rest E) ord rest = (Returned (Inr ack), rest')" "i = ack_client_order_id ack"
    using assms Pair \<open>ok\<close> gw1 by (cases "rest_placeOrder (env_rest E) ord rest") (auto simp: placed_def split: outcome.splits sum.splits)
  then show ?thesis using Pair \<open>ok\<close> gw1 by (auto simp: executeOrder_def Let_def)
qed

lemma executeOrder_not_placed:
  assumes "placed E ord gw = None"
  shows "\<exists>rest. executeOrder E t ord gw =
    map_option (\<lambda>pm. gw\<lparr>gw_rest := rest, gw_pm := pm\<rparr>) (onOrderCancelled ord (gw_pm gw))"
proof (cases "cancel_previous E ord gw")
  case (Pair ok gw1)
  obtain rest where gw1: "gw1 = gw\<lparr>gw_rest := rest\<rparr>" using cancel_previous_frame [OF Pair] by blast
  show ?thesis
  proof (cases ok)
    case False
    then show ?thesis using Pair gw1 by (auto simp: executeOrder_def release_def)
  next
    case True
    obtain r rest' where p: "rest_placeOrder (env_rest E) ord rest = (r, rest')" by fastforce
    have "r = Threw \<or> (\<exists>e. r = Returned (Inl e))"
      using assms Pair True gw1 p by (auto simp: placed_def split: outcome.splits sum.splits)
    then show ?thesis using Pair True gw1 p by (auto simp: executeOrder_def release_def)
  qed
qed

section \<open>Reservations\<close>

text \<open>Cancelling an order undoes what sending it did, for every symbol of the book.\<close>

lemma onOrderCancelled_id [simp]: "onOrderCancelled (ord\<lparr>ord_id := n\<rparr>) pm = onOrderCancelled ord pm"
  by (simp add: onOrderCancelled_def split: option.splits)

lemma cancel_after_send:
  assumes inv: "pm_inv pm" and k: "valid_key (ord_key ord)" and q: "in_i64 (ord_quantity ord)" "in_i64 (- ord_quantity ord)"
    and sent: "onOrderSent ord pm = Some pm1"
  shows "\<exists>pm2. onOrderCancelled ord pm1 = Some pm2 \<and> pm_inv pm2 \<and> (\<forall>k. valid_key k \<longrightarrow> position pm2 k = position pm k)"
proof -
  obtain pm2 where pm2: "onOrderCancelled ord pm1 = Some pm2" using order_ops_total(2) [OF q(2,1)] by blast
  note w1 = onOrderSent_writes [OF inv k sent]
  have inv1: "pm_inv pm1" using w1 by (simp add: writes_def)
  note w2 = onOrderCancelled_writes [OF inv1 k pm2]
  have "position pm2 k' = position pm k'" if v: "valid_key k'" for k'
  proof (cases "k' = ord_key ord")
    case False
    then show ?thesis using w1 w2 v by (simp add: writes_def)
  next
    case True
    have "in_i64 (e_pending (position pm k'))" using position_ok [OF inv, of k'] by (simp add: entry_ok_def)
    moreover have "tracked pm2 k' \<longleftrightarrow> tracked pm1 k'"
      using w2 v pm2 onOrderCancelled_untracked [of pm1 ord] True by (auto simp: writes_def)
    ultimately show ?thesis using w1 w2 v True k by (auto simp: writes_def)
  qed
  then show ?thesis using pm2 w2 by (auto simp: writes_def)
qed

section \<open>The requests an order causes\<close>

text \<open>A client that also logs the calls made to it.\<close>

datatype rest_call = CancelCall string | PlaceCall Order | QueryCall string string

definition logged :: "'r IRestClient \<Rightarrow> ('r \<times> rest_call list) IRestClient" where
  "logged R =
     \<lparr>rest_placeOrder = (\<lambda>ord s. case rest_placeOrder R ord (fst s) of (r, s') \<Rightarrow> (r, s', snd s @ [PlaceCall ord])),
      rest_cancelOrder = (\<lambda>i s. case rest_cancelOrder R i (fst s) of (r, s') \<Rightarrow> (r, s', snd s @ [CancelCall i])),
      rest_queryOrders = (\<lambda>st a s. case rest_queryOrders R st a (fst s) of (r, s') \<Rightarrow> (r, s', snd s @ [QueryCall st a]))\<rparr>"

definition existing_id :: "'m slot_map \<Rightarrow> Order \<Rightarrow> 'm option \<Rightarrow> string option" where
  "existing_id M ord tracker = (case tracker of None \<Rightarrow> None
     | Some slots \<Rightarrow> map_option id_view (getExistingOrder M \<lparr>sk_value = ord_symbol ord\<rparr> (ord_side ord) slots))"

lemma cancel_previous_eq:
  "cancel_previous E ord gw = (case existing_id (env_slots E) ord (gw_tracker gw) of
     None \<Rightarrow> (True, gw)
   | Some i \<Rightarrow> (case rest_cancelOrder (env_rest E) i (gw_rest gw) of (r, rest) \<Rightarrow> (cancel_accepted r, gw\<lparr>gw_rest := rest\<rparr>)))"
  by (simp add: cancel_previous_def existing_id_def split: option.splits)

section \<open>Runs\<close>

fun handle_all :: "('r, 'm, 'h) gateway_env \<Rightarrow> (u64 \<Rightarrow> u64 \<times> u64) \<Rightarrow> Order list \<Rightarrow> ('r, 'm, 'h) Gateway \<Rightarrow>
    ('r, 'm, 'h) Gateway option" where
  "handle_all E clock [] gw = Some gw"
| "handle_all E clock (ord # ords) gw = do {
     gw \<leftarrow> handle_order E (clock (gw_order_id_counter gw + 1)) ord gw;
     handle_all E clock ords gw
   }"

lemma executeOrder_total:
  assumes "in_i64 (ord_quantity ord)" and "in_i64 (- ord_quantity ord)"
  shows "\<exists>gw'. executeOrder E t ord gw = Some gw'"
proof (cases "placed E ord gw")
  case None
  then show ?thesis using executeOrder_not_placed [OF None] order_ops_total(2) [OF assms(2,1)] by (metis option.simps(9))
next
  case (Some i)
  then show ?thesis using executeOrder_placed [OF Some] by blast
qed

lemma handle_order_total:
  assumes "in_i64 (ord_quantity ord)" and "in_i64 (- ord_quantity ord)"
  shows "\<exists>gw'. handle_order E ts ord gw = Some gw'"
proof -
  have "\<exists>gw'. executeOrder E t (ord\<lparr>ord_id := n\<rparr>) gw1 = Some gw'" for t n gw1
    using assms by (intro executeOrder_total) simp_all
  then show ?thesis by (cases ts) (simp add: handle_order_def Let_def)
qed

definition good_orders :: "Order list \<Rightarrow> bool" where
  "good_orders ords \<longleftrightarrow> (\<forall>ord \<in> set ords. in_i64 (ord_quantity ord) \<and> in_i64 (- ord_quantity ord))"

lemma wait_phase_completes:
  assumes "queue_rep q xs" and "good_orders xs" and "\<forall>j \<ge> n. \<not> running j" and "length xs + (n - i) < fuel"
  shows "\<exists>q' gw'. wait_phase fuel E clock running i q gw = Some (q', gw') \<and> queue_rep q' [] \<and>
    handle_all E clock xs gw = Some gw'"
  using assms
proof (induction fuel arbitrary: xs q gw i)
  case (Suc fuel)
  note turn = wait_and_pop_refines [OF Suc.prems(1), of "Some (running i)"]
  show ?case
  proof (cases xs)
    case Nil
    show ?thesis
    proof (cases "running i")
      case False
      then show ?thesis using turn Nil Suc.prems(1) by simp
    next
      case True
      then have "i < n" using Suc.prems(3) by (meson linorder_not_less)
      then have "length xs + (n - Suc i) < fuel" using Suc.prems(4) Nil by simp
      from Suc.IH [OF Suc.prems(1-3) this] show ?thesis using turn Nil True by simp
    qed
  next
    case (Cons ord ys)
    then obtain q1 where q1: "wait_and_pop_turn (Some (running i)) q = Some (Popped ord, q1)" "queue_rep q1 ys"
      using turn by auto
    obtain gw1 where gw1: "handle_order E (clock (gw_order_id_counter gw + 1)) ord gw = Some gw1"
      using handle_order_total Suc.prems(2) Cons unfolding good_orders_def by (metis list.set_intros(1))
    have "good_orders ys" "length ys + (n - Suc i) < fuel" using Suc.prems(2,4) Cons by (auto simp: good_orders_def)
    from Suc.IH [OF q1(2) this(1) Suc.prems(3) this(2)] show ?thesis using q1(1) gw1 Cons by simp
  qed
qed simp

lemma drain_phase_empty: "queue_rep q [] \<Longrightarrow> drain_phase (Suc fuel) E clock q gw = Some (q, gw)"
  using try_pop_refines [of q "[]"] by simp

section \<open>Properties\<close>

text \<open>C21. A reservation is never leaked: the risk gate books an approved order as pending before it reaches the
  gateway; if the gateway does not get it placed (the previous order could not be cancelled, the
  broker rejected it, or the client threw), executing it still returns, and the positions of every
  symbol, pending quantities included, are those before the order was sent.\<close>

theorem failed_order_released:
  assumes "pm_inv pm" and "valid_key (ord_key ord)" and "in_i64 (ord_quantity ord)" and "in_i64 (- ord_quantity ord)"
    and "onOrderSent ord pm = Some (gw_pm gw)" and "placed E ord gw = None"
  shows "\<exists>gw'. executeOrder E t ord gw = Some gw' \<and> pm_inv (gw_pm gw') \<and> gw_tracker gw' = gw_tracker gw \<and>
    (\<forall>k. valid_key k \<longrightarrow> position (gw_pm gw') k = position pm k)"
proof -
  obtain pm2 where "onOrderCancelled ord (gw_pm gw) = Some pm2" "pm_inv pm2" "\<forall>k. valid_key k \<longrightarrow> position pm2 k = position pm k"
    using cancel_after_send [OF assms(1-5)] by blast
  then show ?thesis using executeOrder_not_placed [OF assms(6), of t] by auto
qed

text \<open>C22. One order per symbol and side: the requests an order causes are exactly a placement, when the tracker
  holds no order for its symbol and side; else the cancellation of the order it holds, followed by
  the placement exactly when the cancellation succeeded or was answered with 422 (the order is already gone). After a
  cancellation that threw, or any other status, nothing is placed.\<close>

theorem order_requests:
  fixes gw :: "('r \<times> rest_call list, 'm, 'h) Gateway"
  assumes "in_i64 (ord_quantity ord)" and "in_i64 (- ord_quantity ord)" and "env_rest E = logged R"
  shows "\<exists>gw'. executeOrder E t ord gw = Some gw' \<and>
    snd (gw_rest gw') = snd (gw_rest gw) @
      (case existing_id (env_slots E) ord (gw_tracker gw) of
         None \<Rightarrow> [PlaceCall ord]
       | Some i \<Rightarrow> CancelCall i #
           (case fst (rest_cancelOrder R i (fst (gw_rest gw))) of
              Returned (Inr ok) \<Rightarrow> [PlaceCall ord]
            | Returned (Inl e) \<Rightarrow> if err_status_code e = 422 then [PlaceCall ord] else []
            | Threw \<Rightarrow> []))"
proof -
  obtain gw' where gw': "executeOrder E t ord gw = Some gw'" using executeOrder_total [OF assms(1,2)] by blast
  have place: "snd (gw_rest gw') = snd (gw_rest gw1) @ [PlaceCall ord]" if "cancel_previous E ord gw = (True, gw1)" for gw1
    using gw' that assms(3)
    by (auto simp: executeOrder_def release_def logged_def Let_def split: prod.splits outcome.splits sum.splits)
  have refuse: "gw_rest gw' = gw_rest gw1" if "cancel_previous E ord gw = (False, gw1)" for gw1
    using gw' that by (auto simp: executeOrder_def release_def)
  show ?thesis
  proof (cases "existing_id (env_slots E) ord (gw_tracker gw)")
    case None
    then show ?thesis using gw' place [of gw] by (simp add: cancel_previous_eq)
  next
    case (Some i)
    obtain r s where c: "rest_cancelOrder R i (fst (gw_rest gw)) = (r, s)" by fastforce
    then have "cancel_previous E ord gw = (cancel_accepted r, gw\<lparr>gw_rest := (s, snd (gw_rest gw) @ [CancelCall i])\<rparr>)"
      using Some assms(3) by (simp add: cancel_previous_eq logged_def)
    then show ?thesis using gw' place refuse Some c by (auto simp: cancel_accepted_def split: outcome.splits sum.splits)
  qed
qed

text \<open>C23. Shutdown: once the running flag is false from some turn on, \<open>run\<close> returns, after handling every order
  that was in the queue, in the order they were pushed, and leaves the queue empty. The number of
  turns is the length of the queue plus the turns the flag was still true.\<close>

theorem gateway_run_completes:
  assumes "queue_rep q xs" and "good_orders xs" and "\<forall>j \<ge> n. \<not> running j" and "length xs + n < fuel"
  shows "\<exists>q' gw'. gateway_run fuel E clock running q gw = Some (q', gw') \<and> queue_rep q' [] \<and>
    handle_all E clock xs gw = Some gw'"
proof -
  obtain f where f: "fuel = Suc f" using assms(4) by (cases fuel) auto
  have "length xs + (n - 0) < fuel" using assms(4) by simp
  from wait_phase_completes [OF assms(1-3) this, of E clock gw] obtain q' gw' where
    w: "wait_phase fuel E clock running 0 q gw = Some (q', gw')" "queue_rep q' []" "handle_all E clock xs gw = Some gw'"
    by blast
  have "drain_phase fuel E clock q' gw' = Some (q', gw')" using drain_phase_empty [OF w(2)] f by simp
  then show ?thesis using w by (simp add: gateway_run_def)
qed

section \<open>Witnesses\<close>

definition demo_rest :: "OrderAck outcome \<Rightarrow> unit outcome \<Rightarrow> unit IRestClient" where
  "demo_rest p c = \<lparr>rest_placeOrder = (\<lambda>_ s. (p, s)), rest_cancelOrder = (\<lambda>_ s. (c, s)),
     rest_queryOrders = (\<lambda>_ _ s. (Threw, s))\<rparr>"

definition demo_env :: "'r IRestClient \<Rightarrow> ('r, (OrderSlotKey \<times> AlpacaOrderId) list, int list) gateway_env" where
  "demo_env R = \<lparr>env_rest = R, env_slots = demo_slot_map, env_hdr = demo_hdr\<rparr>"

definition demo_gateway :: "'r \<Rightarrow> PositionManager \<Rightarrow> ('r, (OrderSlotKey \<times> AlpacaOrderId) list, int list) Gateway" where
  "demo_gateway r pm = \<lparr>gw_rest = r, gw_pm = pm,
     gw_tracker = Some [(\<lparr>osk_symbol = AAPL_symbol, osk_side = Buy\<rparr>, mk_AlpacaOrderId ''id-1'')],
     gw_latency = None, gw_order_id_counter = 0\<rparr>"

lemma demo_quantities: "in_i64 (ord_quantity (demo_order side 100))" "in_i64 (- ord_quantity (demo_order side 100))"
  by (simp_all add: demo_order_def in_i64_def)

lemma demo_existing: "existing_id demo_slot_map (demo_order Buy 100) (gw_tracker (demo_gateway r pm)) = Some ''id-1''"
  using id_view_mk [of "''id-1''"]
  by (simp add: existing_id_def demo_slot_map_def demo_gateway_def getExistingOrder_def demo_order_def zero_Order_def
      AAPL_symbol_def good_id_def kCapacity_def)

theorem failed_order_released_witness:
  "\<exists>pm gw'. onOrderSent (demo_order Buy 100) demo_book = Some pm \<and>
    executeOrder (demo_env (demo_rest Threw (Returned (Inr ())))) 0 (demo_order Buy 100) (demo_gateway () pm) = Some gw' \<and>
    position (gw_pm gw') (ord_key (demo_order Buy 100)) = position demo_book (ord_key (demo_order Buy 100))"
proof -
  let ?o = "demo_order Buy 100" and ?E = "demo_env (demo_rest Threw (Returned (Inr ())))"
  obtain pm where pm: "onOrderSent ?o demo_book = Some pm" using order_ops_total(1) [OF demo_quantities(2,1)] by blast
  then have s: "onOrderSent ?o demo_book = Some (gw_pm (demo_gateway () pm))" by (simp add: demo_gateway_def)
  have "placed ?E ?o (demo_gateway () pm) = None"
    using demo_existing by (simp add: placed_def cancel_previous_eq demo_env_def demo_rest_def cancel_accepted_def split: option.splits)
  from failed_order_released [OF demo_book_flat(1) demo_order_good(2) demo_quantities s this, of 0]
  show ?thesis using pm demo_order_good(2) by blast
qed

theorem order_requests_witness:
  "\<exists>gw'. executeOrder (demo_env (logged (demo_rest Threw (Returned (Inr ()))))) 0 (demo_order Buy 100)
      (demo_gateway ((), []) demo_book) = Some gw' \<and>
    snd (gw_rest gw') = [CancelCall ''id-1'', PlaceCall (demo_order Buy 100)]"
proof -
  let ?R = "demo_rest Threw (Returned (Inr ()))"
  have E: "env_rest (demo_env (logged ?R)) = logged ?R" "env_slots (demo_env (logged ?R)) = demo_slot_map"
    by (simp_all add: demo_env_def)
  have r: "fst (rest_cancelOrder ?R i s) = Returned (Inr ())" for i s by (simp add: demo_rest_def)
  have log: "snd (gw_rest (demo_gateway ((), []) demo_book)) = []" by (simp add: demo_gateway_def)
  from order_requests [OF demo_quantities E(1), of 0 Buy "demo_gateway ((), []) demo_book"]
  show ?thesis by (simp add: E(2) demo_existing r log)
qed

theorem gateway_run_completes_witness:
  "\<exists>q q' gw'. push 1 (demo_order Buy 100) (new_Queue zero_Order) = Some q \<and>
    gateway_run 5 (demo_env (demo_rest Threw Threw)) (\<lambda>_. (0, 0)) (\<lambda>i. i < 2) q (demo_gateway () demo_book) = Some (q', gw') \<and>
    queue_rep q' []"
proof -
  obtain q where q: "push 1 (demo_order Buy 100) (new_Queue zero_Order) = Some q" "queue_rep q ([] @ [demo_order Buy 100])"
    using push_refines [OF queue_rep_new, of zero_Order 1 "demo_order Buy 100"] by (auto simp: new_Queue_def stub_def)
  have g: "good_orders [demo_order Buy 100]" using demo_quantities by (simp add: good_orders_def)
  show ?thesis
    using gateway_run_completes [of q "[demo_order Buy 100]" 2 "\<lambda>i. i < 2" 5 "demo_env (demo_rest Threw Threw)"
        "\<lambda>_. (0, 0)" "demo_gateway () demo_book"] q g
    by auto
qed

end
