(* ===== verification/Fill_Parser.thy ===== *)
theory Fill_Parser
  imports Rest_Client Pending_Order_Tracker
begin

text \<open>
  The messages of the broker's trade stream: \<open>FillEvent\<close>, \<open>CancelEvent\<close>, \<open>TradeUpdate\<close>
  (\<open>include/AlpacaFillListener.hpp\<close>) and \<open>parseTradingUpdate\<close> with its helpers
  (\<open>src/AlpacaFillListener.cpp\<close>). A parsed message is a value of the JSON library, a parameter.
\<close>

section \<open>Events\<close>

record FillEvent =
  fe_symbol :: string
  fe_side :: OrderSide
  fe_is_partial :: bool
  fe_quantity :: i64
  fe_price :: fp
  fe_alpaca_order_id :: string

record CancelEvent =
  ce_symbol :: string
  ce_side :: OrderSide
  ce_quantity :: i64
  ce_alpaca_order_id :: string

datatype TradeUpdate = Monostate | FillUpdate FillEvent | CancelUpdate CancelEvent

definition kSymbolCapacity :: nat where
  "kSymbolCapacity = 8"

definition kOrderIdCapacity :: nat where
  "kOrderIdCapacity = 48"

definition copySymbol :: "string \<Rightarrow> string" where
  "copySymbol src = copy_buf kSymbolCapacity src"

definition copyOrderId :: "string \<Rightarrow> string" where
  "copyOrderId src = copy_buf kOrderIdCapacity src"

definition parseSide :: "string \<Rightarrow> OrderSide option" where
  "parseSide side_str = (if side_str = ''buy'' then Some Buy else if side_str = ''sell'' then Some Sell else None)"

definition parseQty :: "'j json_api \<Rightarrow> 'j \<Rightarrow> i64 option" where
  "parseQty J val =
     (if js_is_string J val then stoll (js_get_string J val)
      else if js_is_number_integer J val then Some (js_get_int64 J val)
      else None)"

definition parsePrice :: "'j json_api \<Rightarrow> 'j \<Rightarrow> fp option" where
  "parsePrice J val =
     (if js_is_string J val then map_option fst (stod (js_get_string J val))
      else if js_is_number J val then Some (js_get_double J val)
      else None)"

section \<open>Parsing a message\<close>

definition has_string :: "'j json_api \<Rightarrow> 'j \<Rightarrow> string \<Rightarrow> bool" where
  "has_string J j key \<longleftrightarrow> js_contains J j key \<and> js_is_string J (js_at J j key)"

definition has_object :: "'j json_api \<Rightarrow> 'j \<Rightarrow> string \<Rightarrow> bool" where
  "has_object J j key \<longleftrightarrow> js_contains J j key \<and> js_is_object J (js_at J j key)"

definition parse_fill :: "'j json_api \<Rightarrow> 'j \<Rightarrow> string \<Rightarrow> string \<Rightarrow> OrderSide \<Rightarrow> string \<Rightarrow> TradeUpdate" where
  "parse_fill J data event symbol side order_id =
     (if \<not> js_contains J data ''qty'' \<or> \<not> js_contains J data ''price'' then Monostate
      else case (parseQty J (js_at J data ''qty''), parsePrice J (js_at J data ''price'')) of
        (Some qty, Some price) \<Rightarrow>
          FillUpdate \<lparr>fe_symbol = copySymbol symbol, fe_side = side, fe_is_partial = (event = ''partial_fill''),
            fe_quantity = qty, fe_price = price, fe_alpaca_order_id = copyOrderId order_id\<rparr>
      | _ \<Rightarrow> Monostate)"

text \<open>A quantity field of the order, 0 when it is absent or unreadable.\<close>

definition qty_or_zero :: "'j json_api \<Rightarrow> 'j \<Rightarrow> string \<Rightarrow> i64" where
  "qty_or_zero J ord key =
     (if js_contains J ord key then (case parseQty J (js_at J ord key) of None \<Rightarrow> 0 | Some q \<Rightarrow> q) else 0)"

definition parse_cancel :: "'j json_api \<Rightarrow> 'j \<Rightarrow> string \<Rightarrow> OrderSide \<Rightarrow> string \<Rightarrow> TradeUpdate option" where
  "parse_cancel J ord symbol side order_id = do {
     open_qty \<leftarrow> i64_sub (qty_or_zero J ord ''qty'') (qty_or_zero J ord ''filled_qty'');
     Some (CancelUpdate \<lparr>ce_symbol = copySymbol symbol, ce_side = side, ce_quantity = max 0 open_qty,
       ce_alpaca_order_id = copyOrderId order_id\<rparr>)
   }"

text \<open>\<^const>\<open>None\<close>: the subtraction of the two quantities of a cancelled order overflows.\<close>

definition parseTradingUpdate :: "'j json_api \<Rightarrow> 'j \<Rightarrow> TradeUpdate option" where
  "parseTradingUpdate J parsed =
     (if \<not> js_contains J parsed ''stream'' \<or> \<not> js_equals J (js_at J parsed ''stream'') ''trade_updates'' then Some Monostate
      else if \<not> has_object J parsed ''data'' then Some Monostate
      else let data = js_at J parsed ''data'' in
        if \<not> has_string J data ''event'' then Some Monostate
        else let event = js_get_string J (js_at J data ''event'') in
          if \<not> has_object J data ''order'' then Some Monostate
          else let ord = js_at J data ''order'' in
            if \<not> has_string J ord ''symbol'' \<or> \<not> has_string J ord ''side'' then Some Monostate
            else let symbol = js_get_string J (js_at J ord ''symbol'') in
              case parseSide (js_get_string J (js_at J ord ''side'')) of
                None \<Rightarrow> Some Monostate
              | Some side \<Rightarrow>
                  (let order_id = (if has_string J ord ''id'' then js_get_string J (js_at J ord ''id'') else [])
                   in if event = ''fill'' \<or> event = ''partial_fill''
                      then Some (parse_fill J data event symbol side order_id)
                      else if event = ''canceled'' \<or> event = ''expired'' \<or> event = ''rejected''
                      then parse_cancel J ord symbol side order_id
                      else Some Monostate))"

section \<open>Well-formed events\<close>

primrec wf_update :: "TradeUpdate \<Rightarrow> bool" where
  "wf_update Monostate \<longleftrightarrow> True"
| "wf_update (FillUpdate f) \<longleftrightarrow> length (fe_symbol f) = 8 \<and> length (fe_alpaca_order_id f) = 48 \<and> in_i64 (fe_quantity f)"
| "wf_update (CancelUpdate c) \<longleftrightarrow> length (ce_symbol c) = 8 \<and> length (ce_alpaca_order_id c) = 48 \<and>
     0 \<le> ce_quantity c \<and> in_i64 (ce_quantity c)"

lemma stoll_in_i64: "stoll s = Some v \<Longrightarrow> in_i64 v"
  by (auto simp: stoll_def Let_def split: prod.splits if_splits)

lemma parseQty_in_i64:
  assumes "\<And>j. in_i64 (js_get_int64 J j)" and "parseQty J val = Some v"
  shows "in_i64 v"
  using assms stoll_in_i64 by (auto simp: parseQty_def split: if_splits)

text \<open>The order of a message, and when its parsing is not defined.\<close>

abbreviation order_in :: "'j json_api \<Rightarrow> 'j \<Rightarrow> 'j" where
  "order_in J parsed \<equiv> js_at J (js_at J parsed ''data'') ''order''"

lemma parse_overflows:
  "parseTradingUpdate J parsed = None \<Longrightarrow>
    \<not> in_i64 (qty_or_zero J (order_in J parsed) ''qty'' - qty_or_zero J (order_in J parsed) ''filled_qty'')"
  by (auto simp: parseTradingUpdate_def parse_cancel_def i64_sub_def chk_i64_def Let_def split: if_splits option.splits)

text \<open>C24. Whatever the message, the parser's result is well formed: it is defined unless the quantities of
  a cancelled order differ by more than \<open>int64_t\<close> holds, its buffers have their fixed sizes, its quantity fits
  \<open>int64_t\<close>, a cancellation never has a negative quantity, and only messages of the \<open>trade_updates\<close> stream with
  an order that names its side produce an event.\<close>

theorem parsed_update_wf:
  assumes "\<And>j. in_i64 (js_get_int64 J j)"
  shows "case parseTradingUpdate J parsed of
      None \<Rightarrow> \<not> in_i64 (qty_or_zero J (order_in J parsed) ''qty'' - qty_or_zero J (order_in J parsed) ''filled_qty'')
    | Some u \<Rightarrow> wf_update u \<and> (u \<noteq> Monostate \<longrightarrow> js_contains J parsed ''stream'' \<and>
        js_equals J (js_at J parsed ''stream'') ''trade_updates'' \<and>
        parseSide (js_get_string J (js_at J (order_in J parsed) ''side'')) \<noteq> None)"
proof (cases "parseTradingUpdate J parsed")
  case None
  then show ?thesis using parse_overflows by simp
next
  case (Some u)
  have fill: "wf_update (parse_fill J data event symbol side i)" for data event symbol side i
    using parseQty_in_i64 [OF assms(1)]
    by (auto simp: parse_fill_def copySymbol_def kSymbolCapacity_def copyOrderId_def kOrderIdCapacity_def split: option.splits)
  have cancel: "wf_update u'" if "parse_cancel J ord symbol side i = Some u'" for ord symbol side i u'
    using that by (auto simp: parse_cancel_def i64_sub_def copySymbol_def kSymbolCapacity_def copyOrderId_def
        kOrderIdCapacity_def in_i64_def bind_eq_Some_conv)
  show ?thesis
    using Some fill cancel unfolding parseTradingUpdate_def Let_def by (auto split: if_splits option.splits)
qed

section \<open>A small JSON implementation for witnesses\<close>

datatype sample_json = JStr string | JInt int | JObj "(string \<times> sample_json) list" | JArr "sample_json list"

definition sample_get :: "sample_json \<Rightarrow> string \<Rightarrow> sample_json option" where
  "sample_get j key = (case j of JObj kvs \<Rightarrow> map_of kvs key | _ \<Rightarrow> None)"

definition sample_api :: "sample_json \<Rightarrow> sample_json json_api" where
  "sample_api doc =
     \<lparr>js_parse = (\<lambda>_. doc), js_parse_or_throw = (\<lambda>_. Some doc), js_is_discarded = (\<lambda>_. False),
      js_is_array = (\<lambda>j. case j of JArr _ \<Rightarrow> True | _ \<Rightarrow> False),
      js_items = (\<lambda>j. case j of JArr xs \<Rightarrow> xs | _ \<Rightarrow> []),
      js_value = (\<lambda>j key d. case sample_get j key of Some (JStr s) \<Rightarrow> Some s | None \<Rightarrow> Some d | _ \<Rightarrow> None),
      js_contains = (\<lambda>j key. sample_get j key \<noteq> None), js_at = (\<lambda>j key. the (sample_get j key)),
      js_is_number = (\<lambda>j. case j of JInt _ \<Rightarrow> True | _ \<Rightarrow> False),
      js_get_double = (\<lambda>j. case j of JInt n \<Rightarrow> fp_of_int binary64 n | _ \<Rightarrow> Fin 0),
      js_is_string = (\<lambda>j. case j of JStr _ \<Rightarrow> True | _ \<Rightarrow> False),
      js_get_string = (\<lambda>j. case j of JStr s \<Rightarrow> s | _ \<Rightarrow> []),
      js_is_object = (\<lambda>j. case j of JObj _ \<Rightarrow> True | _ \<Rightarrow> False),
      js_is_number_integer = (\<lambda>j. case j of JInt _ \<Rightarrow> True | _ \<Rightarrow> False),
      js_get_int64 = (\<lambda>j. case j of JInt n \<Rightarrow> wrap_i64 n | _ \<Rightarrow> 0),
      js_equals = (\<lambda>j s. j = JStr s)\<rparr>"

definition sample_cancel :: sample_json where
  "sample_cancel = JObj [(''stream'', JStr ''trade_updates''), (''data'', JObj [(''event'', JStr ''canceled''),
     (''order'', JObj [(''id'', JStr ''id-1''), (''symbol'', JStr ''AAPL''), (''side'', JStr ''buy''),
        (''qty'', JStr ''100''), (''filled_qty'', JStr ''40'')])])]"

lemma sample_cancel_parsed:
  "parseTradingUpdate (sample_api sample_cancel) sample_cancel =
     Some (CancelUpdate \<lparr>ce_symbol = copySymbol ''AAPL'', ce_side = Buy, ce_quantity = 60,
       ce_alpaca_order_id = copyOrderId ''id-1''\<rparr>)"
  by code_simp

theorem parsed_update_wf_witness:
  "\<exists>u. parseTradingUpdate (sample_api sample_cancel) sample_cancel = Some u \<and> u \<noteq> Monostate \<and> wf_update u"
proof -
  have z: "in_i64 0" by (simp add: in_i64_def)
  have "in_i64 (js_get_int64 (sample_api sample_cancel) j)" for j
    by (cases j) (simp_all add: sample_api_def z)
  from parsed_update_wf [where parsed = sample_cancel, OF this] sample_cancel_parsed show ?thesis by auto
qed

text \<open>A cancellation whose subtraction overflows: \<open>total_qty - filled_qty\<close> is evaluated before the maximum with 0 is taken.\<close>

definition overflowing_cancel :: sample_json where
  "overflowing_cancel = JObj [(''stream'', JStr ''trade_updates''), (''data'', JObj [(''event'', JStr ''canceled''),
     (''order'', JObj [(''id'', JStr ''id-1''), (''symbol'', JStr ''AAPL''), (''side'', JStr ''buy''),
        (''qty'', JInt (- 9223372036854775808)), (''filled_qty'', JInt 1)])])]"

lemma cancel_overflows: "parseTradingUpdate (sample_api overflowing_cancel) overflowing_cancel = None"
  by (simp add: parseTradingUpdate_def has_object_def has_string_def parse_cancel_def qty_or_zero_def parseQty_def parseSide_def sample_api_def
      sample_get_def overflowing_cancel_def i64_sub_def chk_i64_def in_i64_def)

end
