(* ===== verification/Fill_Listener.thy ===== *)
theory Fill_Listener
  imports Fill_Parser Order_Gateway
begin

text \<open>
  \<open>AlpacaFillListener\<close> (\<open>include/AlpacaFillListener.hpp\<close>, \<open>src/AlpacaFillListener.cpp\<close>): it books the
  fills and cancellations of the trade stream and, after a reconnect, reconciles the book with the
  broker's order list. The objects it points to are fields of its state, a null pointer is
  \<^const>\<open>None\<close>; the frames it sends are appended to \<open>fl_outbox\<close>. Clock readings, the running flag and
  the formatted start time are arguments; log lines are left out. \<^const>\<open>None\<close> as a result is signed
  overflow, or the bound on the number of pages reached.
\<close>

section \<open>State\<close>

record FilledEntry =
  fl_order_id :: string
  fl_filled_qty :: i64

record CompletedEntry =
  cl_order_id :: string

datatype ws_frame = AuthFrame string string | ListenFrame

record ('r, 'm, 'h) FillListener =
  fl_pm :: PositionManager
  fl_tracker :: "'m option"
  fl_latency :: "'h LatencyTracker option"
  fl_client :: "'r option"
  fl_api_key :: string
  fl_api_secret :: string
  fl_has_connected :: bool
  fl_session_start_iso :: string
  fl_filled_entries :: "FilledEntry list"
  fl_completed_entries :: "CompletedEntry list"
  fl_outbox :: "ws_frame list"

definition kMaxTrackedOrders :: nat where
  "kMaxTrackedOrders = 4096"

text \<open>\<^const>\<open>None\<close>: the constructor throws without a position manager.\<close>

definition new_FillListener :: "PositionManager option \<Rightarrow> string \<Rightarrow> string \<Rightarrow> 'm option \<Rightarrow> 'h LatencyTracker option \<Rightarrow>
    'r option \<Rightarrow> ('r, 'm, 'h) FillListener option" where
  "new_FillListener position_manager api_key api_secret pending_tracker latency_tracker reconciliation_client =
     map_option (\<lambda>pm. \<lparr>fl_pm = pm, fl_tracker = pending_tracker, fl_latency = latency_tracker,
       fl_client = reconciliation_client, fl_api_key = api_key, fl_api_secret = api_secret,
       fl_has_connected = False, fl_session_start_iso = [], fl_filled_entries = [],
       fl_completed_entries = [], fl_outbox = []\<rparr>) position_manager"

section \<open>The tables of order ids\<close>

fun find_filled :: "string \<Rightarrow> FilledEntry list \<Rightarrow> i64" where
  "find_filled order_id [] = 0"
| "find_filled order_id (e # es) =
     (if buf_view (fl_order_id e) = order_id then fl_filled_qty e else find_filled order_id es)"

definition findFilledQty :: "string \<Rightarrow> ('r, 'm, 'h) FillListener \<Rightarrow> i64" where
  "findFilledQty order_id L = find_filled order_id (fl_filled_entries L)"

text \<open>The first loop of \<open>upsertFilledQty\<close>: \<^const>\<open>None\<close> when no entry has the id.\<close>

fun set_filled :: "string \<Rightarrow> i64 \<Rightarrow> FilledEntry list \<Rightarrow> FilledEntry list option" where
  "set_filled order_id qty [] = None"
| "set_filled order_id qty (e # es) =
     (if buf_view (fl_order_id e) = order_id then Some (e\<lparr>fl_filled_qty := qty\<rparr> # es)
      else map_option (\<lambda>es. e # es) (set_filled order_id qty es))"

definition upsertFilledQty :: "string \<Rightarrow> i64 \<Rightarrow> ('r, 'm, 'h) FillListener \<Rightarrow> ('r, 'm, 'h) FillListener" where
  "upsertFilledQty order_id qty L =
     (case set_filled order_id qty (fl_filled_entries L) of
        Some es \<Rightarrow> L\<lparr>fl_filled_entries := es\<rparr>
      | None \<Rightarrow>
          (let es = (if length (fl_filled_entries L) \<ge> kMaxTrackedOrders then tl (fl_filled_entries L)
                     else fl_filled_entries L)
           in L\<lparr>fl_filled_entries := es @ [\<lparr>fl_order_id = copyOrderId order_id, fl_filled_qty = qty\<rparr>]\<rparr>))"

definition isCompleted :: "string \<Rightarrow> ('r, 'm, 'h) FillListener \<Rightarrow> bool" where
  "isCompleted order_id L \<longleftrightarrow> (\<exists>e \<in> set (fl_completed_entries L). buf_view (cl_order_id e) = order_id)"

definition markCompleted :: "string \<Rightarrow> ('r, 'm, 'h) FillListener \<Rightarrow> ('r, 'm, 'h) FillListener" where
  "markCompleted order_id L =
     (if isCompleted order_id L then L
      else let es = (if length (fl_completed_entries L) \<ge> kMaxTrackedOrders then tl (fl_completed_entries L)
                     else fl_completed_entries L)
           in L\<lparr>fl_completed_entries := es @ [\<lparr>cl_order_id = copyOrderId order_id\<rparr>]\<rparr>)"

section \<open>Stream events\<close>

definition complete_in_tracker :: "'m slot_map \<Rightarrow> string \<Rightarrow> OrderSide \<Rightarrow> string \<Rightarrow> ('r, 'm, 'h) FillListener \<Rightarrow>
    ('r, 'm, 'h) FillListener" where
  "complete_in_tracker M symbol side order_id L =
     L\<lparr>fl_tracker := map_option (onOrderCompleted M \<lparr>sk_value = symbol\<rparr> side order_id) (fl_tracker L)\<rparr>"

definition book_fill :: "string \<Rightarrow> OrderSide \<Rightarrow> i64 \<Rightarrow> fp \<Rightarrow> ('r, 'm, 'h) FillListener \<Rightarrow> ('r, 'm, 'h) FillListener option" where
  "book_fill symbol side qty price L =
     map_option (\<lambda>pm. L\<lparr>fl_pm := pm\<rparr>)
       (onFill \<lparr>fill_symbol = symbol, fill_executionId = 0, fill_orderId = 0, fill_side = side,
                fill_quantity = qty, fill_price = price\<rparr> (fl_pm L))"

definition book_cancel :: "string \<Rightarrow> OrderSide \<Rightarrow> i64 \<Rightarrow> ('r, 'm, 'h) FillListener \<Rightarrow> ('r, 'm, 'h) FillListener option" where
  "book_cancel symbol side qty L =
     map_option (\<lambda>pm. L\<lparr>fl_pm := pm\<rparr>)
       (onOrderCancelled (zero_Order\<lparr>ord_symbol := symbol, ord_quantity := qty, ord_side := side\<rparr>) (fl_pm L))"

definition processFillEvent :: "'m slot_map \<Rightarrow> 'h hdr_api \<Rightarrow> u64 \<Rightarrow> FillEvent \<Rightarrow> ('r, 'm, 'h) FillListener \<Rightarrow>
    ('r, 'm, 'h) FillListener option" where
  "processFillEvent M H now fe L = do {
     L \<leftarrow> book_fill (fe_symbol fe) (fe_side fe) (fe_quantity fe) (fe_price fe) L;
     let order_id = buf_view (fe_alpaca_order_id fe);
     L \<leftarrow> (if order_id \<noteq> [] then do {
              total \<leftarrow> i64_add (findFilledQty order_id L) (fe_quantity fe);
              let L = upsertFilledQty order_id total L;
              Some (if \<not> fe_is_partial fe then markCompleted order_id L else L)
            } else Some L);
     let L = (if order_id \<noteq> [] then L\<lparr>fl_latency := map_option (recordFillReceived H order_id now) (fl_latency L)\<rparr> else L);
     Some (if \<not> fe_is_partial fe then complete_in_tracker M (fe_symbol fe) (fe_side fe) order_id L else L)
   }"

definition processCancelEvent :: "'m slot_map \<Rightarrow> CancelEvent \<Rightarrow> ('r, 'm, 'h) FillListener \<Rightarrow>
    ('r, 'm, 'h) FillListener option" where
  "processCancelEvent M ce L = do {
     L \<leftarrow> book_cancel (ce_symbol ce) (ce_side ce) (ce_quantity ce) L;
     let order_id = buf_view (ce_alpaca_order_id ce);
     let L = (if order_id \<noteq> [] then markCompleted order_id L else L);
     Some (complete_in_tracker M (ce_symbol ce) (ce_side ce) order_id L)
   }"

section \<open>Reconciliation\<close>

definition reconcileFill :: "'m slot_map \<Rightarrow> AlpacaOrderStatus \<Rightarrow> OrderSide \<Rightarrow> ('r, 'm, 'h) FillListener \<Rightarrow>
    (int \<times> ('r, 'm, 'h) FillListener) option" where
  "reconcileFill M ao side L = do {
     remaining \<leftarrow> i64_sub (os_filled_qty ao) (findFilledQty (os_id ao) L);
     (if remaining \<le> 0 then Some (0, L)
      else do {
        L \<leftarrow> book_fill (copySymbol (os_symbol ao)) side remaining (os_filled_avg_price ao) L;
        let L = upsertFilledQty (os_id ao) (os_filled_qty ao) L;
        let L = (if os_status ao = ''filled''
                 then complete_in_tracker M (copySymbol (os_symbol ao)) side (os_id ao) (markCompleted (os_id ao) L)
                 else L);
        Some (1, L)
      })
   }"

definition reconcileCancel :: "'m slot_map \<Rightarrow> AlpacaOrderStatus \<Rightarrow> OrderSide \<Rightarrow> ('r, 'm, 'h) FillListener \<Rightarrow>
    (int \<times> ('r, 'm, 'h) FillListener) option" where
  "reconcileCancel M ao side L = do {
     missed_fills \<leftarrow> i64_sub (os_filled_qty ao) (findFilledQty (os_id ao) L);
     L \<leftarrow> (if missed_fills > 0 then do {
              L \<leftarrow> book_fill (copySymbol (os_symbol ao)) side missed_fills (os_filled_avg_price ao) L;
              Some (upsertFilledQty (os_id ao) (os_filled_qty ao) L)
            } else Some L);
     open_qty \<leftarrow> i64_sub (os_qty ao) (os_filled_qty ao);
     let unfilled = max 0 open_qty;
     L \<leftarrow> (if unfilled > 0 then book_cancel (copySymbol (os_symbol ao)) side unfilled L else Some L);
     Some (1, complete_in_tracker M (copySymbol (os_symbol ao)) side (os_id ao) (markCompleted (os_id ao) L))
   }"

definition is_fill_status :: "string \<Rightarrow> bool" where
  "is_fill_status st \<longleftrightarrow> st = ''filled'' \<or> st = ''partially_filled''"

definition is_cancel_status :: "string \<Rightarrow> bool" where
  "is_cancel_status st \<longleftrightarrow> st = ''canceled'' \<or> st = ''expired'' \<or> st = ''rejected''"

definition reconcile_order :: "'m slot_map \<Rightarrow> AlpacaOrderStatus \<Rightarrow> ('r, 'm, 'h) FillListener \<Rightarrow>
    ('r, 'm, 'h) FillListener option" where
  "reconcile_order M ao L =
     (if os_id ao = [] \<or> isCompleted (os_id ao) L then Some L
      else case parseSide (os_side ao) of
        None \<Rightarrow> Some L
      | Some side \<Rightarrow>
          if is_fill_status (os_status ao) then map_option snd (reconcileFill M ao side L)
          else if is_cancel_status (os_status ao) then map_option snd (reconcileCancel M ao side L)
          else Some L)"

definition reconcile_page :: "'m slot_map \<Rightarrow> AlpacaOrderStatus list \<Rightarrow> ('r, 'm, 'h) FillListener \<Rightarrow>
    ('r, 'm, 'h) FillListener option" where
  "reconcile_page M page L = run_list (reconcile_order M) page L"

definition kPageSize :: nat where
  "kPageSize = 500"

text \<open>The loop over pages; \<open>pages\<close> bounds their number. The flag of the result says that the client threw.\<close>

fun reconcile_pages :: "nat \<Rightarrow> 'r IRestClient \<Rightarrow> 'm slot_map \<Rightarrow> string \<Rightarrow> 'r \<Rightarrow> ('r, 'm, 'h) FillListener \<Rightarrow>
    (bool \<times> 'r \<times> ('r, 'm, 'h) FillListener) option" where
  "reconcile_pages 0 R M cursor client L = None"
| "reconcile_pages (Suc pages) R M cursor client L =
     (case rest_queryOrders R ''all'' cursor client of
        (Threw, client) \<Rightarrow> Some (True, client, L)
      | (Returned (Inl e), client) \<Rightarrow> Some (False, client, L)
      | (Returned (Inr page), client) \<Rightarrow> do {
          L \<leftarrow> reconcile_page M page L;
          (if length page < kPageSize \<or> page = [] then Some (False, client, L)
           else let cursor = os_created_at (last page)
                in if cursor = [] then Some (False, client, L)
                   else reconcile_pages pages R M cursor client L)
        })"

definition reconcileAfterReconnect :: "nat \<Rightarrow> 'r IRestClient \<Rightarrow> 'm slot_map \<Rightarrow> ('r, 'm, 'h) FillListener \<Rightarrow>
    (bool \<times> ('r, 'm, 'h) FillListener) option" where
  "reconcileAfterReconnect pages R M L =
     (case fl_client L of
        None \<Rightarrow> Some (False, L)
      | Some client \<Rightarrow> do {
          (threw, client, L) \<leftarrow> reconcile_pages pages R M (fl_session_start_iso L) client L;
          Some (threw, L\<lparr>fl_client := Some client\<rparr>)
        })"

section \<open>Messages\<close>

text \<open>What a listener is called with: the libraries it uses, the bound on pages, the clock reading and the
  time of day as text.\<close>

record ('r, 'm, 'h, 'j) listener_env =
  le_json :: "'j json_api"
  le_rest :: "'r IRestClient"
  le_slots :: "'m slot_map"
  le_hdr :: "'h hdr_api"
  le_pages :: nat
  le_now :: u64
  le_now_iso :: string

definition sendAuth :: "('r, 'm, 'h) FillListener \<Rightarrow> ('r, 'm, 'h) FillListener" where
  "sendAuth L = L\<lparr>fl_outbox := fl_outbox L @ [AuthFrame (fl_api_key L) (fl_api_secret L)]\<rparr>"

definition sendSubscribe :: "('r, 'm, 'h) FillListener \<Rightarrow> ('r, 'm, 'h) FillListener" where
  "sendSubscribe L = L\<lparr>fl_outbox := fl_outbox L @ [ListenFrame]\<rparr>"

definition handleAuthorization :: "('r, 'm, 'h, 'j) listener_env \<Rightarrow> 'j \<Rightarrow> ('r, 'm, 'h) FillListener \<Rightarrow>
    (bool \<times> ('r, 'm, 'h) FillListener) option" where
  "handleAuthorization E parsed L =
     (let J = le_json E
      in if js_contains J parsed ''data'' \<and> js_contains J (js_at J parsed ''data'') ''status'' \<and>
            js_equals J (js_at J (js_at J parsed ''data'') ''status'') ''authorized''
         then let L = sendSubscribe L
              in if fl_has_connected L then do {
                   (threw, L) \<leftarrow> reconcileAfterReconnect (le_pages E) (le_rest E) (le_slots E) L;
                   Some (threw, if threw then L else L\<lparr>fl_has_connected := True\<rparr>)
                 }
                 else Some (False, L\<lparr>fl_session_start_iso := le_now_iso E, fl_has_connected := True\<rparr>)
         else Some (False, L))"

text \<open>The line \<open>handleListening\<close> logs; it has no other effect.\<close>

datatype listening_line = MalformedListening | SubscribedToUpdates | UpdatesNotListed

definition handleListening :: "'j json_api \<Rightarrow> 'j \<Rightarrow> listening_line" where
  "handleListening J parsed =
     (if \<not> js_contains J parsed ''data'' \<or> \<not> js_contains J (js_at J parsed ''data'') ''streams'' \<or>
         \<not> js_is_array J (js_at J (js_at J parsed ''data'') ''streams'')
      then MalformedListening
      else let streams = js_items J (js_at J (js_at J parsed ''data'') ''streams'');
               found = (\<exists>s \<in> set streams. js_is_string J s \<and> js_get_string J s = ''trade_updates'')
           in if found then SubscribedToUpdates else UpdatesNotListed)"

definition handleTradeUpdate :: "('r, 'm, 'h, 'j) listener_env \<Rightarrow> string \<Rightarrow> ('r, 'm, 'h) FillListener \<Rightarrow>
    (bool \<times> ('r, 'm, 'h) FillListener) option" where
  "handleTradeUpdate E json L =
     (let J = le_json E
      in case js_parse_or_throw J json of
           None \<Rightarrow> Some (False, L)
         | Some parsed \<Rightarrow>
             if js_contains J parsed ''stream'' \<and> js_equals J (js_at J parsed ''stream'') ''authorization''
             then handleAuthorization E parsed L
             else if js_contains J parsed ''stream'' \<and> js_equals J (js_at J parsed ''stream'') ''listening''
             then (let line = handleListening J parsed in Some (False, L))
             else do {
               update \<leftarrow> parseTradingUpdate J parsed;
               (case update of
                  FillUpdate fe \<Rightarrow> map_option (\<lambda>L. (False, L)) (processFillEvent (le_slots E) (le_hdr E) (le_now E) fe L)
                | CancelUpdate ce \<Rightarrow> map_option (\<lambda>L. (False, L)) (processCancelEvent (le_slots E) ce L)
                | Monostate \<Rightarrow> Some (False, L))
             })"

definition onMessage :: "('r, 'm, 'h, 'j) listener_env \<Rightarrow> bool \<Rightarrow> ws_message \<Rightarrow> ('r, 'm, 'h) FillListener \<Rightarrow>
    (bool \<times> ('r, 'm, 'h) FillListener) option" where
  "onMessage E is_running msg L =
     (if \<not> is_running then Some (False, L)
      else case msg of
        Open \<Rightarrow> Some (False, sendAuth L)
      | Message str \<Rightarrow> handleTradeUpdate E str L
      | Error \<Rightarrow> Some (False, L)
      | Close \<Rightarrow> Some (False, L)
      | OtherMessage \<Rightarrow> Some (False, L))"

end
