(* ===== verification/Fill_Reconciliation.thy ===== *)
theory Fill_Reconciliation
  imports Fill_Listener
begin

text \<open>
  Correctness of the fill listener: the tables of order ids as maps, their bound, what one event and
  one reconciled order do to the book, and the two properties reconciliation exists for: missed fills
  are booked exactly once, and repeating it changes nothing.
\<close>

section \<open>The tables as maps\<close>

lemma buf_view_copyOrderId: "good_id i \<Longrightarrow> buf_view (copyOrderId i) = i"
  by (simp add: copyOrderId_def kOrderIdCapacity_def good_id_def kCapacity_def buf_view_copy_buf)

lemma set_filled_None: "set_filled i q es = None \<longleftrightarrow> (\<forall>e \<in> set es. buf_view (fl_order_id e) \<noteq> i)"
  by (induction es) auto

lemma set_filled_Some:
  "set_filled i q es = Some es' \<Longrightarrow>
     length es' = length es \<and> find_filled j es' = (if j = i then q else find_filled j es) \<and>
     map fl_order_id es' = map fl_order_id es"
  by (induction es arbitrary: es') (auto split: if_splits)

lemma find_filled_snoc:
  "\<forall>e \<in> set es. buf_view (fl_order_id e) \<noteq> buf_view (fl_order_id x) \<Longrightarrow>
     find_filled j (es @ [x]) = (if j = buf_view (fl_order_id x) then fl_filled_qty x else find_filled j es)"
  by (induction es) auto

text \<open>Fields an operation on one table leaves alone.\<close>

lemma upsertFilledQty_frame [simp]:
  "fl_pm (upsertFilledQty i q L) = fl_pm L" "fl_completed_entries (upsertFilledQty i q L) = fl_completed_entries L"
  "isCompleted j (upsertFilledQty i q L) = isCompleted j L"
  by (simp_all add: upsertFilledQty_def isCompleted_def Let_def split: option.splits)

lemma markCompleted_frame [simp]:
  "fl_pm (markCompleted i L) = fl_pm L" "fl_filled_entries (markCompleted i L) = fl_filled_entries L"
  "findFilledQty j (markCompleted i L) = findFilledQty j L"
  by (simp_all add: markCompleted_def findFilledQty_def Let_def)

lemma complete_in_tracker_frame [simp]:
  "fl_pm (complete_in_tracker M s sd i L) = fl_pm L"
  "fl_filled_entries (complete_in_tracker M s sd i L) = fl_filled_entries L"
  "fl_completed_entries (complete_in_tracker M s sd i L) = fl_completed_entries L"
  "findFilledQty j (complete_in_tracker M s sd i L) = findFilledQty j L"
  "isCompleted j (complete_in_tracker M s sd i L) = isCompleted j L"
  by (simp_all add: complete_in_tracker_def findFilledQty_def isCompleted_def)

lemma findFilledQty_upsert:
  assumes "good_id i" and "length (fl_filled_entries L) < kMaxTrackedOrders"
  shows "findFilledQty j (upsertFilledQty i q L) = (if j = i then q else findFilledQty j L)"
proof (cases "set_filled i q (fl_filled_entries L)")
  case None
  then have "\<forall>e \<in> set (fl_filled_entries L). buf_view (fl_order_id e) \<noteq> i" by (simp add: set_filled_None)
  then show ?thesis
    using None assms(2) find_filled_snoc [of "fl_filled_entries L" "\<lparr>fl_order_id = copyOrderId i, fl_filled_qty = q\<rparr>" j]
    by (simp add: upsertFilledQty_def findFilledQty_def buf_view_copyOrderId [OF assms(1)])
next
  case (Some es)
  then show ?thesis using set_filled_Some [OF Some] by (simp add: upsertFilledQty_def findFilledQty_def)
qed

lemma isCompleted_mark:
  assumes "good_id i" and "length (fl_completed_entries L) < kMaxTrackedOrders"
  shows "isCompleted j (markCompleted i L) \<longleftrightarrow> j = i \<or> isCompleted j L"
proof (cases "isCompleted i L")
  case False
  then show ?thesis using assms(2) buf_view_copyOrderId [OF assms(1)] by (auto simp: markCompleted_def isCompleted_def)
qed (auto simp: markCompleted_def)

section \<open>Bounds of the tables\<close>

definition tables_ok :: "('r, 'm, 'h) FillListener \<Rightarrow> bool" where
  "tables_ok L \<longleftrightarrow> length (fl_filled_entries L) \<le> kMaxTrackedOrders \<and>
     length (fl_completed_entries L) \<le> kMaxTrackedOrders \<and>
     (\<forall>e \<in> set (fl_filled_entries L). length (fl_order_id e) = 48) \<and>
     (\<forall>e \<in> set (fl_completed_entries L). length (cl_order_id e) = 48)"

lemma tables_ok_cong:
  "fl_filled_entries L' = fl_filled_entries L \<Longrightarrow> fl_completed_entries L' = fl_completed_entries L \<Longrightarrow>
     tables_ok L' = tables_ok L"
  by (simp add: tables_ok_def)

lemma set_filled_ids:
  assumes "set_filled i q es = Some es'" and "\<forall>e \<in> set es. length (fl_order_id e) = 48"
  shows "\<forall>e \<in> set es'. length (fl_order_id e) = 48"
proof -
  have "set (map fl_order_id es') = set (map fl_order_id es)" using set_filled_Some [OF assms(1)] by simp
  then show ?thesis using assms(2) by (metis (no_types, lifting) image_iff list.set_map)
qed

lemma tables_ok_intros [invariant_intros]:
  assumes "tables_ok L"
  shows "tables_ok (upsertFilledQty i q L)" and "tables_ok (markCompleted i L)"
    and "tables_ok (complete_in_tracker M s sd i L)"
proof -
  have tl: "set (tl xs) \<subseteq> set xs" for xs :: "'z list" by (cases xs) auto
  have len: "length (copyOrderId i) = 48" by (simp add: copyOrderId_def kOrderIdCapacity_def)
  show "tables_ok (upsertFilledQty i q L)"
  proof (cases "set_filled i q (fl_filled_entries L)")
    case None
    then show ?thesis using assms len tl [of "fl_filled_entries L"]
      by (auto simp: upsertFilledQty_def tables_ok_def Let_def kMaxTrackedOrders_def)
  next
    case (Some es)
    then show ?thesis using assms set_filled_Some [OF Some] set_filled_ids [OF Some]
      by (auto simp: upsertFilledQty_def tables_ok_def)
  qed
  show "tables_ok (markCompleted i L)"
    using assms len tl [of "fl_completed_entries L"]
    by (auto simp: markCompleted_def tables_ok_def Let_def kMaxTrackedOrders_def)
  show "tables_ok (complete_in_tracker M s sd i L)" using assms by (simp add: tables_ok_def)
qed

lemma book_frame:
  "book_fill s sd q p L = Some L' \<Longrightarrow> \<exists>pm. L' = L\<lparr>fl_pm := pm\<rparr> \<and>
     onFill \<lparr>fill_symbol = s, fill_executionId = 0, fill_orderId = 0, fill_side = sd, fill_quantity = q, fill_price = p\<rparr> (fl_pm L) = Some pm"
  "book_cancel s sd q L = Some L' \<Longrightarrow> \<exists>pm. L' = L\<lparr>fl_pm := pm\<rparr> \<and>
     onOrderCancelled (zero_Order\<lparr>ord_symbol := s, ord_quantity := q, ord_side := sd\<rparr>) (fl_pm L) = Some pm"
  by (auto simp: book_fill_def book_cancel_def)

lemma tables_ok_book [invariant_intros]:
  "tables_ok L \<Longrightarrow> book_fill s sd q p L = Some L' \<Longrightarrow> tables_ok L'"
  "tables_ok L \<Longrightarrow> book_cancel s sd q L = Some L' \<Longrightarrow> tables_ok L'"
  by (auto simp: book_fill_def book_cancel_def tables_ok_def)

lemma tables_ok_field [simp]:
  "tables_ok (L\<lparr>fl_latency := x\<rparr>) = tables_ok L" "tables_ok (L\<lparr>fl_client := c\<rparr>) = tables_ok L"
  "tables_ok (L\<lparr>fl_outbox := f\<rparr>) = tables_ok L" "tables_ok (L\<lparr>fl_has_connected := b\<rparr>) = tables_ok L"
  "tables_ok (L\<lparr>fl_session_start_iso := t\<rparr>) = tables_ok L" "tables_ok (L\<lparr>fl_pm := pm\<rparr>) = tables_ok L"
  by (simp_all add: tables_ok_def)

lemma markCompleted_upsert [simp]:
  "fl_completed_entries (markCompleted i (upsertFilledQty j q L)) = fl_completed_entries (markCompleted i L)"
  by (simp add: markCompleted_def Let_def)

text \<open>One event and one reconciled order, decomposed once.\<close>

lemma processFillEvent_SomeD:
  assumes "processFillEvent M H now fe L = Some L'"
  defines "i \<equiv> buf_view (fe_alpaca_order_id fe)"
  obtains pm L1 where
    "onFill \<lparr>fill_symbol = fe_symbol fe, fill_executionId = 0, fill_orderId = 0, fill_side = fe_side fe,
       fill_quantity = fe_quantity fe, fill_price = fe_price fe\<rparr> (fl_pm L) = Some pm"
    and "L1 = (if i = [] then L else upsertFilledQty i (findFilledQty i L + fe_quantity fe) L)"
    and "fl_pm L' = pm" and "fl_filled_entries L' = fl_filled_entries L1"
    and "fl_completed_entries L' = fl_completed_entries (if i = [] \<or> fe_is_partial fe then L1 else markCompleted i L1)"
proof -
  obtain L0 where L0: "book_fill (fe_symbol fe) (fe_side fe) (fe_quantity fe) (fe_price fe) L = Some L0"
    using assms(1) by (auto simp: processFillEvent_def bind_eq_Some_conv)
  obtain pm where pm: "L0 = L\<lparr>fl_pm := pm\<rparr>"
    "onFill \<lparr>fill_symbol = fe_symbol fe, fill_executionId = 0, fill_orderId = 0, fill_side = fe_side fe,
       fill_quantity = fe_quantity fe, fill_price = fe_price fe\<rparr> (fl_pm L) = Some pm"
    using book_frame(1) [OF L0] by blast
  have fq: "findFilledQty i L0 = findFilledQty i L" by (simp add: pm findFilledQty_def)
  have up: "fl_filled_entries (upsertFilledQty i q L0) = fl_filled_entries (upsertFilledQty i q L)"
    "fl_completed_entries (markCompleted i L0) = fl_completed_entries (markCompleted i L)" for q
    by (simp_all add: pm upsertFilledQty_def markCompleted_def isCompleted_def Let_def split: option.splits)
  define L1 where "L1 = (if i = [] then L else upsertFilledQty i (findFilledQty i L + fe_quantity fe) L)"
  have "fl_pm L' = pm \<and> fl_filled_entries L' = fl_filled_entries L1 \<and>
      fl_completed_entries L' = fl_completed_entries (if i = [] \<or> fe_is_partial fe then L1 else markCompleted i L1)"
  proof (cases "i = []")
    case True
    then have "L' = (if fe_is_partial fe then L0 else complete_in_tracker M (fe_symbol fe) (fe_side fe) i L0)"
      using assms(1) L0 by (auto simp: processFillEvent_def Let_def i_def)
    then show ?thesis using True by (simp add: pm L1_def)
  next
    case False
    let ?u = "upsertFilledQty i (findFilledQty i L + fe_quantity fe) L0"
    let ?l = "\<lambda>x. x\<lparr>fl_latency := map_option (recordFillReceived H i now) (fl_latency x)\<rparr>"
    have "L' = (if fe_is_partial fe then ?l ?u
        else complete_in_tracker M (fe_symbol fe) (fe_side fe) i (?l (markCompleted i ?u)))"
      using assms(1) L0 False fq by (auto simp: processFillEvent_def Let_def i_def i64_add_def bind_eq_Some_conv)
    then show ?thesis using False up by (simp add: L1_def) (simp add: pm)
  qed
  then show ?thesis using that [OF pm(2) L1_def] by blast
qed

lemma processFillEvent_tables:
  assumes "tables_ok L" and "processFillEvent M H now fe L = Some L'"
  shows "tables_ok L'"
proof -
  let ?i = "buf_view (fe_alpaca_order_id fe)"
  obtain L1 where L1: "L1 = (if ?i = [] then L else upsertFilledQty ?i (findFilledQty ?i L + fe_quantity fe) L)"
    "fl_filled_entries L' = fl_filled_entries L1"
    "fl_completed_entries L' = fl_completed_entries (if ?i = [] \<or> fe_is_partial fe then L1 else markCompleted ?i L1)"
    using processFillEvent_SomeD [OF assms(2)] by metis
  have "tables_ok L1" unfolding L1(1) using assms(1) tables_ok_intros(1) by auto
  then have "tables_ok L1" "tables_ok (markCompleted ?i L1)" using tables_ok_intros(2) by blast+
  then show ?thesis using L1(2,3) by (auto simp: tables_ok_def split: if_splits)
qed

lemma processCancelEvent_tables:
  assumes "tables_ok L" and "processCancelEvent M ce L = Some L'"
  shows "tables_ok L'"
proof -
  obtain L0 where L0: "book_cancel (ce_symbol ce) (ce_side ce) (ce_quantity ce) L = Some L0"
    using assms(2) by (auto simp: processCancelEvent_def bind_eq_Some_conv)
  then have "tables_ok L0" using tables_ok_book(2) [OF assms(1)] by blast
  then show ?thesis using assms(2) L0 by (auto simp: processCancelEvent_def Let_def tables_ok_intros)
qed

lemma reconcileFill_SomeD:
  assumes "reconcileFill M ao side L = Some (n, L')"
  shows "(os_filled_qty ao \<le> findFilledQty (os_id ao) L \<and> L' = L) \<or>
    (\<exists>L0. findFilledQty (os_id ao) L < os_filled_qty ao \<and>
      book_fill (copySymbol (os_symbol ao)) side (os_filled_qty ao - findFilledQty (os_id ao) L) (os_filled_avg_price ao) L = Some L0 \<and>
      L' = (if os_status ao = ''filled''
        then complete_in_tracker M (copySymbol (os_symbol ao)) side (os_id ao)
          (markCompleted (os_id ao) (upsertFilledQty (os_id ao) (os_filled_qty ao) L0))
        else upsertFilledQty (os_id ao) (os_filled_qty ao) L0))"
  using assms by (auto simp: reconcileFill_def i64_sub_def Let_def bind_eq_Some_conv split: if_splits)

lemma reconcileCancel_SomeD:
  fixes L L' :: "('r, 'm, 'h) FillListener"
  assumes "reconcileCancel M ao side L = Some (n, L')"
  shows "\<exists>L1 L2.
    (if findFilledQty (os_id ao) L < os_filled_qty ao
     then \<exists>L0. book_fill (copySymbol (os_symbol ao)) side (os_filled_qty ao - findFilledQty (os_id ao) L) (os_filled_avg_price ao) L = Some L0 \<and>
       L1 = upsertFilledQty (os_id ao) (os_filled_qty ao) L0
     else L1 = L) \<and>
    (if os_filled_qty ao < os_qty ao
     then book_cancel (copySymbol (os_symbol ao)) side (os_qty ao - os_filled_qty ao) L1 = Some L2
     else L2 = L1) \<and>
    L' = complete_in_tracker M (copySymbol (os_symbol ao)) side (os_id ao) (markCompleted (os_id ao) L2)"
proof -
  let ?d = "findFilledQty (os_id ao) L < os_filled_qty ao" and ?s = "copySymbol (os_symbol ao)"
  define F where "F = (if ?d then book_fill ?s side (os_filled_qty ao - findFilledQty (os_id ao) L) (os_filled_avg_price ao) L
      \<bind> (\<lambda>L. Some (upsertFilledQty (os_id ao) (os_filled_qty ao) L)) else Some L)"
  define G where "G L1 = (if os_filled_qty ao < os_qty ao then book_cancel ?s side (os_qty ao - os_filled_qty ao) L1 else Some L1)"
    for L1 :: "('r, 'm, 'h) FillListener"
  have "(if 0 < max 0 (os_qty ao - os_filled_qty ao) then book_cancel ?s side (max 0 (os_qty ao - os_filled_qty ao)) L1 else Some L1)
      = G L1" for L1 by (simp add: G_def max_def)
  then have "F \<bind> (\<lambda>L1. G L1 \<bind> (\<lambda>L2. Some (1::int, complete_in_tracker M ?s side (os_id ao) (markCompleted (os_id ao) L2)))) = Some (n, L')"
    using assms by (auto simp: reconcileCancel_def i64_sub_def Let_def F_def bind_eq_Some_conv)
  then obtain L1 L2 where "F = Some L1" "G L1 = Some L2"
    "L' = complete_in_tracker M ?s side (os_id ao) (markCompleted (os_id ao) L2)"
    by (auto simp: bind_eq_Some_conv)
  then show ?thesis by (intro exI [of _ L1] exI [of _ L2]) (auto simp: F_def G_def bind_eq_Some_conv split: if_splits)
qed

lemma reconcile_order_tables:
  assumes ok: "tables_ok L" and run: "reconcile_order M ao L = Some L'"
  shows "tables_ok L'"
proof -
  have fill: "tables_ok L'" if "reconcileFill M ao side L = Some (n, L')" for side n
    using reconcileFill_SomeD [OF that] ok tables_ok_book(1) [OF ok] by (auto simp: tables_ok_intros)
  have cancel: "tables_ok L'" if r: "reconcileCancel M ao side L = Some (n, L')" for side n
  proof -
    obtain L1 L2 where *: "if findFilledQty (os_id ao) L < os_filled_qty ao
       then \<exists>L0. book_fill (copySymbol (os_symbol ao)) side (os_filled_qty ao - findFilledQty (os_id ao) L) (os_filled_avg_price ao) L = Some L0 \<and>
         L1 = upsertFilledQty (os_id ao) (os_filled_qty ao) L0
       else L1 = L"
      "if os_filled_qty ao < os_qty ao
       then book_cancel (copySymbol (os_symbol ao)) side (os_qty ao - os_filled_qty ao) L1 = Some L2
       else L2 = L1"
      "L' = complete_in_tracker M (copySymbol (os_symbol ao)) side (os_id ao) (markCompleted (os_id ao) L2)"
      using reconcileCancel_SomeD [OF r] by blast
    have "tables_ok L1" using *(1) ok tables_ok_book(1) [OF ok] by (auto simp: tables_ok_intros split: if_splits)
    then have "tables_ok L2" using *(2) tables_ok_book(2) by (auto split: if_splits)
    then show ?thesis using *(3) by (simp add: tables_ok_intros)
  qed
  show ?thesis
    using run ok fill cancel by (auto simp: reconcile_order_def split: if_splits option.splits)
qed

lemma reconcile_page_tables:
  assumes "tables_ok L" and "reconcile_page M page L = Some L'"
  shows "tables_ok L'"
  using assms(2) unfolding reconcile_page_def
  by (rule run_list_inv) (use assms(1) reconcile_order_tables in blast)+

lemma reconcile_pages_tables:
  "tables_ok L \<Longrightarrow> reconcile_pages n R M cursor client L = Some (threw, client', L') \<Longrightarrow> tables_ok L'"
proof (induction n arbitrary: cursor client L)
  case (Suc n)
  show ?case
  proof (cases "rest_queryOrders R ''all'' cursor client")
    case (Pair r c)
    show ?thesis
    proof (cases r)
      case (Returned x)
      show ?thesis
      proof (cases x)
        case (Inr page)
        then obtain L1 where L1: "reconcile_page M page L = Some L1"
          using Suc.prems(2) Pair Returned by (auto simp: bind_eq_Some_conv)
        have "tables_ok L1" by (rule reconcile_page_tables [OF Suc.prems(1) L1])
        then show ?thesis using Suc Pair Returned Inr L1 by (auto simp: Let_def split: if_splits)
      qed (use Suc.prems Pair Returned in auto)
    qed (use Suc.prems Pair in auto)
  qed
qed simp

lemma onMessage_tables:
  assumes "tables_ok L" and "onMessage E r msg L = Some (threw, L')"
  shows "tables_ok L'"
proof -
  have rec: "tables_ok K'" if k: "tables_ok K" and r: "reconcileAfterReconnect n R M K = Some (t, K')" for n R M K t K'
  proof (cases "fl_client K")
    case (Some client)
    then obtain c K1 where "reconcile_pages n R M (fl_session_start_iso K) client K = Some (t, c, K1)" "K' = K1\<lparr>fl_client := Some c\<rparr>"
      using r by (auto simp: reconcileAfterReconnect_def bind_eq_Some_conv)
    then show ?thesis using reconcile_pages_tables [OF k] by simp
  qed (use k r in \<open>simp add: reconcileAfterReconnect_def\<close>)
  have sub: "tables_ok (sendSubscribe L)" "tables_ok (sendAuth L)" using assms(1) by (simp_all add: sendSubscribe_def sendAuth_def)
  have auth: "tables_ok L'" if "handleAuthorization E parsed L = Some (t, L')" for parsed t
    using that rec [OF sub(1)] sub assms(1)
    by (auto simp: handleAuthorization_def Let_def bind_eq_Some_conv split: if_splits)
  have update: "tables_ok L'" if "(case u of
      FillUpdate fe \<Rightarrow> map_option (\<lambda>L. (False, L)) (processFillEvent (le_slots E) (le_hdr E) (le_now E) fe L)
    | CancelUpdate ce \<Rightarrow> map_option (\<lambda>L. (False, L)) (processCancelEvent (le_slots E) ce L)
    | Monostate \<Rightarrow> Some (False, L)) = Some (t, L')" for u t
    using that assms(1) processFillEvent_tables [OF assms(1)] processCancelEvent_tables [OF assms(1)] by (cases u) auto
  have "tables_ok L'" if "handleTradeUpdate E json L = Some (t, L')" for json t
    using that assms(1) auth update
    by (auto simp: handleTradeUpdate_def Let_def bind_eq_Some_conv split: option.split_asm if_split_asm)
  then show ?thesis
    using assms(2) sub assms(1) by (auto simp: onMessage_def split: if_splits ws_message.splits)
qed

text \<open>A run of the socket's callback over a sequence of messages; an exception that leaves it changes nothing
  but the client and the fields already written.\<close>

definition listen_run :: "(('r, 'm, 'h, 'j) listener_env \<times> bool \<times> ws_message) list \<Rightarrow> ('r, 'm, 'h) FillListener \<Rightarrow>
    ('r, 'm, 'h) FillListener option" where
  "listen_run = run_list (\<lambda>(E, is_running, msg) L. map_option snd (onMessage E is_running msg L))"

lemma listen_run_tables:
  assumes "listen_run msgs L = Some L'" and "tables_ok L"
  shows "tables_ok L'"
  using assms unfolding listen_run_def by (rule run_list_inv) (auto intro: onMessage_tables)

text \<open>The memory of the listener is bounded: whatever messages arrive and whatever the broker answers, in any
  order and number, neither table of order ids ever holds more than 4096 entries, each of 48 bytes.\<close>

theorem tables_bounded:
  assumes "new_FillListener pm key secret tracker latency client = Some L" and "listen_run msgs L = Some L'"
  shows "length (fl_filled_entries L') \<le> 4096 \<and> length (fl_completed_entries L') \<le> 4096 \<and>
    (\<forall>e \<in> set (fl_filled_entries L'). length (fl_order_id e) = 48) \<and>
    (\<forall>e \<in> set (fl_completed_entries L'). length (cl_order_id e) = 48)"
proof -
  have "tables_ok L" using assms(1) by (auto simp: new_FillListener_def tables_ok_def)
  from listen_run_tables [OF assms(2) this] show ?thesis by (simp add: tables_ok_def kMaxTrackedOrders_def)
qed

section \<open>What the listener books\<close>

text \<open>The position of a key moved: its filled quantity by \<open>d\<close>, its pending quantity by \<open>- p\<close>, modulo \<open>2\<^sup>6\<^sup>4\<close>.\<close>

definition moved :: "u64 \<Rightarrow> int \<Rightarrow> int \<Rightarrow> PositionManager \<Rightarrow> PositionManager \<Rightarrow> bool" where
  "moved k d p pm pm' \<longleftrightarrow> pm_inv pm' \<and> tracked pm' k \<and>
     e_filled (position pm' k) = wrap_i64 (e_filled (position pm k) + d) \<and>
     e_pending (position pm' k) = wrap_i64 (e_pending (position pm k) - p)"

lemma moved_refl: "pm_inv pm \<Longrightarrow> tracked pm k \<Longrightarrow> moved k 0 0 pm pm"
  using position_ok [of pm k] by (simp add: moved_def entry_ok_def)

lemma moved_trans:
  assumes "moved k d p pm pm1" and "moved k d' p' pm1 pm2"
  shows "moved k (d + d') (p + p') pm pm2"
  using assms by (simp add: moved_def add.assoc diff_diff_eq)

lemma onFill_moved:
  assumes "pm_inv pm" and "valid_key k" and "tracked pm k" and "fill_key fill = k" and "onFill fill pm = Some pm'"
  shows "moved k (signed_qty (fill_side fill) (fill_quantity fill)) (signed_qty (fill_side fill) (fill_quantity fill)) pm pm'"
proof -
  have v: "valid_key (op_key (Filled fill))" and s: "apply_op (Filled fill) pm = Some pm'" using assms by simp_all
  show ?thesis
    using pm_book.step_inv [OF assms(1) v s] pm_book.step_tracks [OF assms(1) v assms(2,3) s]
      pm_book.step_filled [OF assms(1) v assms(2,3) s] pm_book.step_pending [OF assms(1) v assms(2,3) s] assms(4)
    by (simp add: moved_def)
qed

lemma onOrderCancelled_moved:
  assumes "pm_inv pm" and "valid_key k" and "tracked pm k" and "ord_key ord = k" and "onOrderCancelled ord pm = Some pm'"
  shows "moved k 0 (signed_qty (ord_side ord) (ord_quantity ord)) pm pm'"
proof -
  have v: "valid_key (op_key (Cancelled ord))" and s: "apply_op (Cancelled ord) pm = Some pm'" using assms by simp_all
  show ?thesis
    using pm_book.step_inv [OF assms(1) v s] pm_book.step_tracks [OF assms(1) v assms(2,3) s]
      pm_book.step_filled [OF assms(1) v assms(2,3) s] pm_book.step_pending [OF assms(1) v assms(2,3) s] assms(4)
    by (simp add: moved_def)
qed

definition room_for :: "string \<Rightarrow> ('r, 'm, 'h) FillListener \<Rightarrow> bool" where
  "room_for i L \<longleftrightarrow> length (fl_filled_entries L) < kMaxTrackedOrders \<or>
     (\<exists>e \<in> set (fl_filled_entries L). buf_view (fl_order_id e) = i)"

lemma findFilledQty_upsert_room:
  assumes "good_id i" and "room_for i L"
  shows "findFilledQty j (upsertFilledQty i q L) = (if j = i then q else findFilledQty j L)"
    and "room_for i (upsertFilledQty i q L)"
proof -
  have "findFilledQty j (upsertFilledQty i q L) = (if j = i then q else findFilledQty j L) \<and>
    room_for i (upsertFilledQty i q L)"
  proof (cases "set_filled i q (fl_filled_entries L)")
    case None
    then have len: "length (fl_filled_entries L) < kMaxTrackedOrders"
      using assms(2) by (auto simp: set_filled_None room_for_def)
    then have "room_for i (upsertFilledQty i q L)"
      using None buf_view_copyOrderId [OF assms(1)] by (simp add: upsertFilledQty_def room_for_def)
    then show ?thesis using findFilledQty_upsert [OF assms(1) len] by simp
  next
    case (Some es)
    have ids: "map (\<lambda>e. buf_view (fl_order_id e)) es = map (\<lambda>e. buf_view (fl_order_id e)) (fl_filled_entries L)"
      using arg_cong [OF conjunct2 [OF conjunct2 [OF set_filled_Some [OF Some]]], of "map buf_view"] by (simp add: comp_def)
    have "i \<in> set (map (\<lambda>e. buf_view (fl_order_id e)) es)"
      unfolding ids using Some set_filled_None [of i q "fl_filled_entries L"] by auto
    then have "\<exists>e \<in> set es. buf_view (fl_order_id e) = i" by auto
    then show ?thesis using Some set_filled_Some [OF Some]
      by (simp add: upsertFilledQty_def room_for_def findFilledQty_def)
  qed
  then show "findFilledQty j (upsertFilledQty i q L) = (if j = i then q else findFilledQty j L)"
    "room_for i (upsertFilledQty i q L)" by blast+
qed

lemma processFillEvent_moved:
  assumes inv: "pm_inv (fl_pm L)" "valid_key k" "tracked (fl_pm L) k" and s: "symbolBufferToKey (fe_symbol fe) = k"
    and run: "processFillEvent M H now fe L = Some L'"
  defines "i \<equiv> buf_view (fe_alpaca_order_id fe)"
  shows "moved k (signed_qty (fe_side fe) (fe_quantity fe)) (signed_qty (fe_side fe) (fe_quantity fe)) (fl_pm L) (fl_pm L')"
    and "good_id i \<Longrightarrow> i \<noteq> [] \<Longrightarrow> room_for i L \<Longrightarrow>
      findFilledQty i L' = findFilledQty i L + fe_quantity fe \<and> room_for i L'"
    and "fe_is_partial fe \<Longrightarrow> fl_completed_entries L' = fl_completed_entries L"
proof -
  obtain pm L1 where pm: "onFill \<lparr>fill_symbol = fe_symbol fe, fill_executionId = 0, fill_orderId = 0, fill_side = fe_side fe,
       fill_quantity = fe_quantity fe, fill_price = fe_price fe\<rparr> (fl_pm L) = Some pm"
    and L1: "L1 = (if i = [] then L else upsertFilledQty i (findFilledQty i L + fe_quantity fe) L)"
    and L': "fl_pm L' = pm" "fl_filled_entries L' = fl_filled_entries L1"
      "fl_completed_entries L' = fl_completed_entries (if i = [] \<or> fe_is_partial fe then L1 else markCompleted i L1)"
    using processFillEvent_SomeD [OF run] unfolding i_def by metis
  show "moved k (signed_qty (fe_side fe) (fe_quantity fe)) (signed_qty (fe_side fe) (fe_quantity fe)) (fl_pm L) (fl_pm L')"
    using onFill_moved [OF inv _ pm] s L'(1) by simp
  have fq: "findFilledQty j L' = findFilledQty j L1" "room_for j L' = room_for j L1" for j
    by (simp_all add: findFilledQty_def room_for_def L')
  show "findFilledQty i L' = findFilledQty i L + fe_quantity fe \<and> room_for i L'"
    if "good_id i" "i \<noteq> []" "room_for i L"
    using findFilledQty_upsert_room [OF that(1,3)] that(2) by (simp add: fq L1)
  show "fl_completed_entries L' = fl_completed_entries L" if "fe_is_partial fe"
    using L'(3) that by (simp add: L1)
qed

text \<open>A run of partial fills of one order.\<close>

definition fills_of :: "string \<Rightarrow> string \<Rightarrow> OrderSide \<Rightarrow> FillEvent list \<Rightarrow> bool" where
  "fills_of i s side fes \<longleftrightarrow> (\<forall>fe \<in> set fes. buf_view (fe_alpaca_order_id fe) = i \<and> fe_symbol fe = s \<and>
     fe_side fe = side \<and> fe_is_partial fe)"

lemma signed_qty_add: "signed_qty side (a + b) = signed_qty side a + signed_qty side b"
  by (cases side) simp_all

lemma fill_run_moved:
  assumes "run_list (processFillEvent M H now) fes L = Some L'" and "fills_of i s side fes"
    and "pm_inv (fl_pm L)" "valid_key (symbolBufferToKey s)" "tracked (fl_pm L) (symbolBufferToKey s)"
    and "good_id i" "i \<noteq> []" "room_for i L"
  defines "q \<equiv> sum_list (map fe_quantity fes)"
  shows "moved (symbolBufferToKey s) (signed_qty side q) (signed_qty side q) (fl_pm L) (fl_pm L') \<and>
    findFilledQty i L' = findFilledQty i L + q \<and> room_for i L' \<and> fl_completed_entries L' = fl_completed_entries L"
  unfolding q_def using assms(1-8)
proof (induction fes arbitrary: L)
  case Nil
  then show ?case by (cases side) (simp_all add: moved_refl)
next
  case (Cons fe fes)
  then obtain L1 where L1: "processFillEvent M H now fe L = Some L1" "run_list (processFillEvent M H now) fes L1 = Some L'"
    by (auto split: option.splits)
  have fe: "buf_view (fe_alpaca_order_id fe) = i" "symbolBufferToKey (fe_symbol fe) = symbolBufferToKey s"
    "fe_side fe = side" "fe_is_partial fe" "fills_of i s side fes"
    using Cons.prems(2) by (simp_all add: fills_of_def)
  note one = processFillEvent_moved [OF Cons.prems(3-5) fe(2) L1(1), unfolded fe(1,3)]
  have "pm_inv (fl_pm L1)" "tracked (fl_pm L1) (symbolBufferToKey s)" "room_for i L1"
    using one Cons.prems by (simp_all add: moved_def)
  note rest = Cons.IH [OF L1(2) fe(5) this(1) Cons.prems(4) this(2) Cons.prems(6,7) this(3)]
  show ?case
    using moved_trans [OF one(1) rest [THEN conjunct1]] rest one(2) [OF Cons.prems(6-8)] one(3) fe(4)
    by (simp add: signed_qty_add)
qed

lemma book_fill_moved:
  assumes "pm_inv (fl_pm L)" "valid_key (symbolBufferToKey s)" "tracked (fl_pm L) (symbolBufferToKey s)"
    and "book_fill s side q p L = Some L'"
  shows "moved (symbolBufferToKey s) (signed_qty side q) (signed_qty side q) (fl_pm L) (fl_pm L')"
proof -
  obtain pm where L': "L' = L\<lparr>fl_pm := pm\<rparr>" and f:
    "onFill \<lparr>fill_symbol = s, fill_executionId = 0, fill_orderId = 0, fill_side = side, fill_quantity = q, fill_price = p\<rparr> (fl_pm L) = Some pm"
    using book_frame(1) [OF assms(4)] by blast
  show ?thesis using onFill_moved [OF assms(1-3) _ f] by (simp add: L')
qed

lemma book_cancel_moved:
  assumes "pm_inv (fl_pm L)" "valid_key (symbolBufferToKey s)" "tracked (fl_pm L) (symbolBufferToKey s)"
    and "book_cancel s side q L = Some L'"
  shows "moved (symbolBufferToKey s) 0 (signed_qty side q) (fl_pm L) (fl_pm L')"
proof -
  obtain pm where L': "L' = L\<lparr>fl_pm := pm\<rparr>" and f:
    "onOrderCancelled (zero_Order\<lparr>ord_symbol := s, ord_quantity := q, ord_side := side\<rparr>) (fl_pm L) = Some pm"
    using book_frame(2) [OF assms(4)] by blast
  show ?thesis using onOrderCancelled_moved [OF assms(1-3) _ f] by (simp add: L')
qed

lemma book_tables:
  assumes "book_fill s side q p L = Some L' \<or> book_cancel s side q L = Some L'"
  shows "findFilledQty j L' = findFilledQty j L" and "room_for j L' = room_for j L" and "isCompleted j L' = isCompleted j L"
    and "fl_filled_entries L' = fl_filled_entries L" and "fl_completed_entries L' = fl_completed_entries L"
  using assms by (auto simp: book_fill_def book_cancel_def findFilledQty_def room_for_def isCompleted_def)

text \<open>The shares and the reserved quantity a broker record accounts for.\<close>

definition settled_qty :: "AlpacaOrderStatus \<Rightarrow> int" where
  "settled_qty ao = (if is_cancel_status (os_status ao) then max (os_filled_qty ao) (os_qty ao) else os_filled_qty ao)"

lemma status_disjoint: "is_fill_status st \<Longrightarrow> \<not> is_cancel_status st"
  by (auto simp: is_fill_status_def is_cancel_status_def)

lemma reconcileFill_moved:
  assumes inv: "pm_inv (fl_pm L)" "valid_key (symbolBufferToKey (copySymbol (os_symbol ao)))"
      "tracked (fl_pm L) (symbolBufferToKey (copySymbol (os_symbol ao)))"
    and id: "good_id (os_id ao)" "room_for (os_id ao) L" and le: "findFilledQty (os_id ao) L \<le> os_filled_qty ao"
    and run: "reconcileFill M ao side L = Some (n, L')"
  shows "moved (symbolBufferToKey (copySymbol (os_symbol ao)))
      (signed_qty side (os_filled_qty ao - findFilledQty (os_id ao) L))
      (signed_qty side (os_filled_qty ao - findFilledQty (os_id ao) L)) (fl_pm L) (fl_pm L') \<and>
    findFilledQty (os_id ao) L' = os_filled_qty ao"
proof (cases "findFilledQty (os_id ao) L = os_filled_qty ao")
  case True
  then have "L' = L" using reconcileFill_SomeD [OF run] by auto
  then show ?thesis using True moved_refl [OF inv(1,3)] by (cases side) simp_all
next
  case False
  then obtain L0 where L0: "book_fill (copySymbol (os_symbol ao)) side (os_filled_qty ao - findFilledQty (os_id ao) L) (os_filled_avg_price ao) L = Some L0"
    and L': "L' = (if os_status ao = ''filled''
        then complete_in_tracker M (copySymbol (os_symbol ao)) side (os_id ao)
          (markCompleted (os_id ao) (upsertFilledQty (os_id ao) (os_filled_qty ao) L0))
        else upsertFilledQty (os_id ao) (os_filled_qty ao) L0)"
    using reconcileFill_SomeD [OF run] le by auto
  have r: "room_for (os_id ao) L0" using id(2) book_tables(2) L0 by blast
  have "findFilledQty (os_id ao) (upsertFilledQty (os_id ao) (os_filled_qty ao) L0) = os_filled_qty ao"
    using findFilledQty_upsert_room(1) [OF id(1) r] by simp
  then show ?thesis using book_fill_moved [OF inv L0] by (simp add: L')
qed

lemma reconcileCancel_moved:
  assumes inv: "pm_inv (fl_pm L)" "valid_key (symbolBufferToKey (copySymbol (os_symbol ao)))"
      "tracked (fl_pm L) (symbolBufferToKey (copySymbol (os_symbol ao)))"
    and id: "good_id (os_id ao)" "room_for (os_id ao) L" and le: "findFilledQty (os_id ao) L \<le> os_filled_qty ao"
    and run: "reconcileCancel M ao side L = Some (n, L')"
  shows "moved (symbolBufferToKey (copySymbol (os_symbol ao)))
      (signed_qty side (os_filled_qty ao - findFilledQty (os_id ao) L))
      (signed_qty side (max (os_filled_qty ao) (os_qty ao) - findFilledQty (os_id ao) L)) (fl_pm L) (fl_pm L') \<and>
    findFilledQty (os_id ao) L' = os_filled_qty ao"
proof -
  let ?s = "copySymbol (os_symbol ao)" and ?i = "os_id ao" and ?m = "os_filled_qty ao - findFilledQty (os_id ao) L"
  obtain L1 L2 where L1: "if findFilledQty ?i L < os_filled_qty ao
      then \<exists>L0. book_fill ?s side ?m (os_filled_avg_price ao) L = Some L0 \<and> L1 = upsertFilledQty ?i (os_filled_qty ao) L0
      else L1 = L"
    and L2: "if os_filled_qty ao < os_qty ao then book_cancel ?s side (os_qty ao - os_filled_qty ao) L1 = Some L2 else L2 = L1"
    and L': "L' = complete_in_tracker M ?s side ?i (markCompleted ?i L2)"
    using reconcileCancel_SomeD [OF run] by blast
  have one: "moved (symbolBufferToKey ?s) (signed_qty side ?m) (signed_qty side ?m) (fl_pm L) (fl_pm L1) \<and>
      findFilledQty ?i L1 = os_filled_qty ao"
  proof (cases "findFilledQty ?i L < os_filled_qty ao")
    case True
    then obtain L0 where L0: "book_fill ?s side ?m (os_filled_avg_price ao) L = Some L0" "L1 = upsertFilledQty ?i (os_filled_qty ao) L0"
      using L1 by auto
    have r: "room_for ?i L0" using id(2) book_tables(2) L0(1) by blast
    show ?thesis using findFilledQty_upsert_room(1) [OF id(1) r] book_fill_moved [OF inv L0(1)] L0(2) by simp
  next
    case False
    then show ?thesis using L1 le moved_refl [OF inv(1,3)] by (cases side) simp_all
  qed
  then have inv1: "pm_inv (fl_pm L1)" "tracked (fl_pm L1) (symbolBufferToKey ?s)" by (simp_all add: moved_def)
  let ?c = "if os_filled_qty ao < os_qty ao then os_qty ao - os_filled_qty ao else 0"
  have two: "moved (symbolBufferToKey ?s) 0 (signed_qty side ?c) (fl_pm L1) (fl_pm L2) \<and>
      findFilledQty ?i L2 = findFilledQty ?i L1"
  proof (cases "os_filled_qty ao < os_qty ao")
    case True
    then show ?thesis using L2 book_cancel_moved [OF inv1(1) inv(2) inv1(2)] book_tables(1) by fastforce
  next
    case False
    then show ?thesis using L2 moved_refl [OF inv1] by (cases side) simp_all
  qed
  have sum: "signed_qty side ?m + signed_qty side ?c = signed_qty side (max (os_filled_qty ao) (os_qty ao) - findFilledQty ?i L)"
    by (cases side) simp_all
  show ?thesis
    using moved_trans [OF conjunct1 [OF one] conjunct1 [OF two], unfolded sum] one two by (simp add: L')
qed

lemma reconcile_order_moved:
  assumes inv: "pm_inv (fl_pm L)" "valid_key (symbolBufferToKey (copySymbol (os_symbol ao)))"
      "tracked (fl_pm L) (symbolBufferToKey (copySymbol (os_symbol ao)))"
    and id: "good_id (os_id ao)" "os_id ao \<noteq> []" "room_for (os_id ao) L" "\<not> isCompleted (os_id ao) L"
    and ao: "findFilledQty (os_id ao) L \<le> os_filled_qty ao" "parseSide (os_side ao) = Some side"
      "is_fill_status (os_status ao) \<or> is_cancel_status (os_status ao)"
    and run: "reconcile_order M ao L = Some L'"
  shows "moved (symbolBufferToKey (copySymbol (os_symbol ao)))
      (signed_qty side (os_filled_qty ao - findFilledQty (os_id ao) L))
      (signed_qty side (settled_qty ao - findFilledQty (os_id ao) L)) (fl_pm L) (fl_pm L') \<and>
    findFilledQty (os_id ao) L' = os_filled_qty ao"
proof (cases "is_fill_status (os_status ao)")
  case True
  then obtain n where "reconcileFill M ao side L = Some (n, L')"
    using run id ao(2) by (auto simp: reconcile_order_def)
  from reconcileFill_moved [OF inv id(1,3) ao(1) this] show ?thesis using status_disjoint [OF True] by (simp add: settled_qty_def)
next
  case False
  then obtain n where "reconcileCancel M ao side L = Some (n, L')"
    using run id ao(2,3) by (auto simp: reconcile_order_def)
  from reconcileCancel_moved [OF inv id(1,3) ao(1) this] show ?thesis using False ao(3) by (simp add: settled_qty_def)
qed

text \<open>C25. Fills lost with the connection are booked exactly once. An order unknown to the tables had some of its
  fills delivered by the stream; after the reconnect the broker reports it with at least that filled
  quantity. Then the two together move the filled position by exactly the broker's filled quantity, not
  more, and the pending quantity is released by the filled quantity, or, for an order that is
  cancelled, expired or rejected, by the whole order quantity.\<close>

theorem fills_exactly_once:
  assumes "pm_inv (fl_pm L)" "valid_key (symbolToKey symbol)" "tracked (fl_pm L) (symbolToKey symbol)"
    and "good_id i" "i \<noteq> []" "room_for i L" "\<not> isCompleted i L" "findFilledQty i L = 0"
    and "fills_of i (copySymbol symbol) side fes" "run_list (processFillEvent M H now) fes L = Some L1"
    and "os_id ao = i" "os_symbol ao = symbol" "parseSide (os_side ao) = Some side"
      "is_fill_status (os_status ao) \<or> is_cancel_status (os_status ao)"
      "sum_list (map fe_quantity fes) \<le> os_filled_qty ao"
    and "reconcile_order M ao L1 = Some L2"
  shows "getFilledPosition symbol (fl_pm L2) = wrap_i64 (getFilledPosition symbol (fl_pm L) + signed_qty side (os_filled_qty ao)) \<and>
    getPendingPosition symbol (fl_pm L2) = wrap_i64 (getPendingPosition symbol (fl_pm L) - signed_qty side (settled_qty ao)) \<and>
    findFilledQty i L2 = os_filled_qty ao"
proof -
  let ?q = "sum_list (map fe_quantity fes)"
  have k: "symbolBufferToKey (copySymbol symbol) = symbolToKey symbol"
    by (simp add: copySymbol_def kSymbolCapacity_def symbolToKey_copy_buf)
  note one = fill_run_moved [OF assms(10,9), unfolded k, OF assms(1-6)]
  have c: "\<not> isCompleted i L1" using one assms(7) by (simp add: isCompleted_def)
  have inv1: "pm_inv (fl_pm L1)" "tracked (fl_pm L1) (symbolToKey symbol)" using one by (simp_all add: moved_def)
  have q: "findFilledQty i L1 = ?q" using one assms(8) by simp
  have two: "moved (symbolToKey symbol) (signed_qty side (os_filled_qty ao - ?q)) (signed_qty side (settled_qty ao - ?q)) (fl_pm L1) (fl_pm L2) \<and>
      findFilledQty i L2 = os_filled_qty ao"
    using reconcile_order_moved [of L1 ao side M L2] inv1 assms(2,4,5,11-16) one c k q by simp
  have "signed_qty side ?q + signed_qty side (x - ?q) = signed_qty side x" for x by (cases side) simp_all
  then show ?thesis
    using moved_trans [OF conjunct1 [OF one] conjunct1 [OF two]] two by (simp add: moved_def getters_position)
qed

text \<open>C28. The trade stream is subscribed before the broker's list is queried, and a stream fill is booked
  without asking whether its order is already complete: a fill that was counted by the reconciliation
  and is then delivered by the stream moves the position a second time.\<close>

theorem late_fill_counted_again:
  assumes "pm_inv (fl_pm L)" "valid_key (symbolToKey symbol)" "tracked (fl_pm L) (symbolToKey symbol)"
    and "good_id (os_id ao)" "os_id ao \<noteq> []" "room_for (os_id ao) L" "\<not> isCompleted (os_id ao) L" "findFilledQty (os_id ao) L = 0"
    and "0 \<le> os_filled_qty ao" "os_symbol ao = symbol" "parseSide (os_side ao) = Some side" "is_fill_status (os_status ao)"
    and "reconcile_order M ao L = Some L1"
    and "fe_symbol fe = copySymbol symbol" "fe_side fe = side" "processFillEvent M H now fe L1 = Some L2"
  shows "getFilledPosition symbol (fl_pm L2) =
    wrap_i64 (getFilledPosition symbol (fl_pm L) + signed_qty side (os_filled_qty ao + fe_quantity fe))"
proof -
  have k: "symbolBufferToKey (copySymbol symbol) = symbolToKey symbol"
    by (simp add: copySymbol_def kSymbolCapacity_def symbolToKey_copy_buf)
  have one: "moved (symbolToKey symbol) (signed_qty side (os_filled_qty ao)) (signed_qty side (settled_qty ao)) (fl_pm L) (fl_pm L1)"
    using reconcile_order_moved [of L ao side M L1] assms(1-13) k by simp
  then have inv1: "pm_inv (fl_pm L1)" "tracked (fl_pm L1) (symbolToKey symbol)" by (simp_all add: moved_def)
  show ?thesis
    using moved_trans [OF one processFillEvent_moved(1) [OF inv1(1) assms(2) inv1(2) _ assms(16)]] assms(14,15) k
    by (simp add: moved_def getters_position signed_qty_add)
qed

section \<open>Reconciling twice\<close>

definition qtys_ok :: "('r, 'm, 'h) FillListener \<Rightarrow> bool" where
  "qtys_ok L \<longleftrightarrow> (\<forall>j. 0 \<le> findFilledQty j L \<and> findFilledQty j L < 2 ^ 63)"

definition good_record :: "AlpacaOrderStatus \<Rightarrow> bool" where
  "good_record ao \<longleftrightarrow> good_id (os_id ao) \<and> 0 \<le> os_filled_qty ao \<and> os_filled_qty ao < 2 ^ 63"

definition settled :: "AlpacaOrderStatus \<Rightarrow> ('r, 'm, 'h) FillListener \<Rightarrow> bool" where
  "settled ao L \<longleftrightarrow> os_id ao = [] \<or> isCompleted (os_id ao) L \<or> parseSide (os_side ao) = None \<or>
     (if is_fill_status (os_status ao) then os_filled_qty ao \<le> findFilledQty (os_id ao) L
      else \<not> is_cancel_status (os_status ao))"

text \<open>Nothing is forgotten between two states of the tables, of which each grew by at most \<open>n\<close> entries.\<close>

definition grows :: "nat \<Rightarrow> ('r, 'm, 'h) FillListener \<Rightarrow> ('r, 'm, 'h) FillListener \<Rightarrow> bool" where
  "grows n L L' \<longleftrightarrow> qtys_ok L' \<and> (\<forall>j. isCompleted j L \<longrightarrow> isCompleted j L') \<and>
     (\<forall>j. findFilledQty j L \<le> findFilledQty j L') \<and>
     length (fl_filled_entries L') \<le> length (fl_filled_entries L) + n \<and>
     length (fl_completed_entries L') \<le> length (fl_completed_entries L) + n"

lemma grows_refl: "qtys_ok L \<Longrightarrow> grows n L L"
  by (simp add: grows_def)

lemma grows_trans: "grows m L L1 \<Longrightarrow> grows n L1 L2 \<Longrightarrow> grows (m + n) L L2"
  unfolding grows_def by (fastforce intro: order_trans)

lemma settled_grows: "settled ao L \<Longrightarrow> grows n L L' \<Longrightarrow> settled ao L'"
  unfolding settled_def grows_def by (auto intro: order_trans)

lemma settled_idle:
  assumes "settled ao L" and "qtys_ok L" and "good_record ao"
  shows "reconcile_order M ao L = Some L"
proof -
  have b: "0 \<le> findFilledQty (os_id ao) L" "findFilledQty (os_id ao) L < 2 ^ 63" using assms(2) by (simp_all add: qtys_ok_def)
  have "in_i64 (os_filled_qty ao - findFilledQty (os_id ao) L)"
    using b assms(3) by (auto simp: in_i64_def good_record_def)
  then show ?thesis using assms(1)
    by (auto simp: settled_def reconcile_order_def reconcileFill_def i64_sub_def chk_i64_def split: option.splits if_splits)
qed

lemma table_lengths:
  "length (fl_filled_entries (upsertFilledQty i q L)) \<le> Suc (length (fl_filled_entries L))"
  "length (fl_completed_entries (markCompleted i L)) \<le> Suc (length (fl_completed_entries L))"
proof -
  show "length (fl_filled_entries (upsertFilledQty i q L)) \<le> Suc (length (fl_filled_entries L))"
  proof (cases "set_filled i q (fl_filled_entries L)")
    case (Some es)
    then show ?thesis using set_filled_Some [OF Some] by (simp add: upsertFilledQty_def)
  qed (simp add: upsertFilledQty_def Let_def)
qed (simp add: markCompleted_def Let_def)

lemma upsert_grows:
  assumes "good_record ao" and "length (fl_filled_entries L) < kMaxTrackedOrders" and "qtys_ok L"
    and "findFilledQty (os_id ao) L < os_filled_qty ao"
  shows "qtys_ok (upsertFilledQty (os_id ao) (os_filled_qty ao) L)"
    and "findFilledQty j L \<le> findFilledQty j (upsertFilledQty (os_id ao) (os_filled_qty ao) L)"
    and "findFilledQty (os_id ao) (upsertFilledQty (os_id ao) (os_filled_qty ao) L) = os_filled_qty ao"
  using assms findFilledQty_upsert [of "os_id ao" L] by (auto simp: qtys_ok_def good_record_def)

lemma same_tables:
  assumes "fl_filled_entries L' = fl_filled_entries L" and "fl_completed_entries L' = fl_completed_entries L"
  shows "findFilledQty j L' = findFilledQty j L" "isCompleted j L' = isCompleted j L" "qtys_ok L' = qtys_ok L"
  using assms by (simp_all add: findFilledQty_def isCompleted_def qtys_ok_def)

lemma book_upsert_grows:
  assumes "good_record ao" and "length (fl_filled_entries L) < kMaxTrackedOrders" and "qtys_ok L"
    and "findFilledQty (os_id ao) L < os_filled_qty ao" and "book_fill s side q p L = Some L0"
  defines "K \<equiv> upsertFilledQty (os_id ao) (os_filled_qty ao) L0"
  shows "qtys_ok K" "findFilledQty j L \<le> findFilledQty j K" "findFilledQty (os_id ao) K = os_filled_qty ao"
    "fl_completed_entries K = fl_completed_entries L" "length (fl_filled_entries K) \<le> Suc (length (fl_filled_entries L))"
proof -
  have L0: "fl_filled_entries L0 = fl_filled_entries L" "fl_completed_entries L0 = fl_completed_entries L"
    using book_tables(4,5) assms(5) by blast+
  note same = same_tables [OF L0]
  have "qtys_ok L0" "length (fl_filled_entries L0) < kMaxTrackedOrders" "findFilledQty (os_id ao) L0 < os_filled_qty ao"
    using same assms(2-4) L0 by simp_all
  from upsert_grows [OF assms(1) this(2,1,3)] same table_lengths(1) [of "os_id ao" "os_filled_qty ao" L0] L0
  show "qtys_ok K" "findFilledQty j L \<le> findFilledQty j K" "findFilledQty (os_id ao) K = os_filled_qty ao"
    "fl_completed_entries K = fl_completed_entries L" "length (fl_filled_entries K) \<le> Suc (length (fl_filled_entries L))"
    by (simp_all add: K_def)
qed

lemma mark_grows:
  assumes "good_id i" and "length (fl_completed_entries L) < kMaxTrackedOrders"
  shows "isCompleted i (complete_in_tracker M s side i (markCompleted i L))"
    and "isCompleted j L \<Longrightarrow> isCompleted j (complete_in_tracker M s side i (markCompleted i L))"
    and "qtys_ok (complete_in_tracker M s side i (markCompleted i L)) = qtys_ok L"
    and "length (fl_completed_entries (complete_in_tracker M s side i (markCompleted i L))) \<le> Suc (length (fl_completed_entries L))"
  using isCompleted_mark [OF assms] table_lengths(2) [of i L] by (simp_all add: qtys_ok_def)

lemma reconcileFill_settles:
  assumes good: "good_record ao" and room: "length (fl_filled_entries L) < kMaxTrackedOrders"
      "length (fl_completed_entries L) < kMaxTrackedOrders" and q: "qtys_ok L"
    and st: "is_fill_status (os_status ao)" and run: "reconcileFill M ao side L = Some (n, L')"
  shows "grows 1 L L' \<and> settled ao L'"
proof (cases "os_filled_qty ao \<le> findFilledQty (os_id ao) L")
  case True
  then have "L' = L" using reconcileFill_SomeD [OF run] by auto
  then show ?thesis using True q st by (simp add: grows_refl settled_def)
next
  case False
  then obtain L0 where L0: "book_fill (copySymbol (os_symbol ao)) side (os_filled_qty ao - findFilledQty (os_id ao) L) (os_filled_avg_price ao) L = Some L0"
    and L': "L' = (if os_status ao = ''filled''
        then complete_in_tracker M (copySymbol (os_symbol ao)) side (os_id ao)
          (markCompleted (os_id ao) (upsertFilledQty (os_id ao) (os_filled_qty ao) L0))
        else upsertFilledQty (os_id ao) (os_filled_qty ao) L0)"
    using reconcileFill_SomeD [OF run] by auto
  define K where "K = upsertFilledQty (os_id ao) (os_filled_qty ao) L0"
  have lt: "findFilledQty (os_id ao) L < os_filled_qty ao" using False by simp
  note K = book_upsert_grows [OF good room(1) q lt L0, folded K_def]
  have len: "length (fl_completed_entries K) < kMaxTrackedOrders" using K(4) room(2) by simp
  have "isCompleted j K = isCompleted j L" for j by (simp add: isCompleted_def K(4))
  then show ?thesis
    using K mark_grows [OF _ len, of "os_id ao"] good st
    by (auto simp: L' grows_def settled_def good_record_def simp flip: K_def)
qed

lemma reconcileCancel_settles:
  assumes good: "good_record ao" and room: "length (fl_filled_entries L) < kMaxTrackedOrders"
      "length (fl_completed_entries L) < kMaxTrackedOrders" and q: "qtys_ok L"
    and run: "reconcileCancel M ao side L = Some (n, L')"
  shows "grows 1 L L' \<and> settled ao L'"
proof -
  let ?s = "copySymbol (os_symbol ao)" and ?i = "os_id ao" and ?m = "os_filled_qty ao - findFilledQty (os_id ao) L"
  obtain L1 L2 where L1: "if findFilledQty ?i L < os_filled_qty ao
      then \<exists>L0. book_fill ?s side ?m (os_filled_avg_price ao) L = Some L0 \<and> L1 = upsertFilledQty ?i (os_filled_qty ao) L0
      else L1 = L"
    and L2: "if os_filled_qty ao < os_qty ao then book_cancel ?s side (os_qty ao - os_filled_qty ao) L1 = Some L2 else L2 = L1"
    and L': "L' = complete_in_tracker M ?s side ?i (markCompleted ?i L2)"
    using reconcileCancel_SomeD [OF run] by blast
  have one: "qtys_ok L1 \<and> (\<forall>j. findFilledQty j L \<le> findFilledQty j L1) \<and> fl_completed_entries L1 = fl_completed_entries L \<and>
      length (fl_filled_entries L1) \<le> Suc (length (fl_filled_entries L))"
  proof (cases "findFilledQty ?i L < os_filled_qty ao")
    case True
    then obtain L0 where L0: "book_fill ?s side ?m (os_filled_avg_price ao) L = Some L0" "L1 = upsertFilledQty ?i (os_filled_qty ao) L0"
      using L1 by auto
    show ?thesis using book_upsert_grows [OF good room(1) q True L0(1)] by (simp add: L0(2))
  qed (use L1 q in simp)
  have L12: "fl_filled_entries L2 = fl_filled_entries L1" "fl_completed_entries L2 = fl_completed_entries L1"
    using L2 book_tables(4,5) [of ?s side "os_qty ao - os_filled_qty ao" _ L1 L2] by (auto split: if_splits)
  have len: "length (fl_completed_entries L2) < kMaxTrackedOrders" using L12 one room(2) by simp
  have "isCompleted j L2 = isCompleted j L" for j by (simp add: isCompleted_def L12 one)
  then show ?thesis
    using one L12 same_tables [OF L12] mark_grows [OF _ len, of ?i] good
    by (auto simp: L' grows_def settled_def good_record_def)
qed

lemma reconcile_order_settles:
  assumes "good_record ao" and "length (fl_filled_entries L) < kMaxTrackedOrders"
    and "length (fl_completed_entries L) < kMaxTrackedOrders" and "qtys_ok L" and "reconcile_order M ao L = Some L'"
  shows "grows 1 L L' \<and> settled ao L'"
proof (cases "settled ao L")
  case True
  then show ?thesis using settled_idle [OF True assms(4,1), of M] assms(4,5) by (simp add: grows_refl)
next
  case False
  then have "(\<exists>side n. is_fill_status (os_status ao) \<and> reconcileFill M ao side L = Some (n, L')) \<or>
      (\<exists>side n. reconcileCancel M ao side L = Some (n, L'))"
    using assms(5) by (auto simp: settled_def reconcile_order_def split: if_splits)
  then show ?thesis
    using reconcileFill_settles [OF assms(1-4)] reconcileCancel_settles [OF assms(1-4)] by blast
qed

lemma reconcile_page_settles:
  assumes "reconcile_page M page L = Some L'" and "\<forall>ao \<in> set page. good_record ao" and "qtys_ok L"
    and "length (fl_filled_entries L) + length page \<le> kMaxTrackedOrders"
    and "length (fl_completed_entries L) + length page \<le> kMaxTrackedOrders"
  shows "grows (length page) L L' \<and> (\<forall>ao \<in> set page. settled ao L')"
  using assms unfolding reconcile_page_def
proof (induction page arbitrary: L)
  case (Cons ao page)
  then obtain L1 where L1: "reconcile_order M ao L = Some L1" "run_list (reconcile_order M) page L1 = Some L'"
    by (auto split: option.splits)
  have one: "grows 1 L L1 \<and> settled ao L1"
    using Cons.prems(2-5) by (intro reconcile_order_settles [OF _ _ _ _ L1(1)]) simp_all
  then have "grows (length page) L1 L' \<and> (\<forall>ao \<in> set page. settled ao L')"
    using Cons.prems(2-5) by (intro Cons.IH [OF L1(2)]) (auto simp: grows_def)
  then show ?case using one settled_grows grows_trans [of 1 L L1 "length page" L'] by auto
qed (simp add: grows_refl)

text \<open>C26. Reconciliation is idempotent: once a page of the broker's list has been reconciled, reconciling the same
  page again (the next reconnect asks for the orders since the start of the session) changes neither the
  positions nor the tables nor the trackers, as long as the tables have room for the page and the ids
  fit their 48 bytes.\<close>

theorem reconcile_idempotent:
  assumes "reconcile_page M page L = Some L'" and "\<forall>ao \<in> set page. good_record ao" and "qtys_ok L"
    and "length (fl_filled_entries L) + length page \<le> kMaxTrackedOrders"
    and "length (fl_completed_entries L) + length page \<le> kMaxTrackedOrders"
  shows "reconcile_page M page L' = Some L'"
proof -
  note * = reconcile_page_settles [OF assms]
  then have q: "qtys_ok L'" by (simp add: grows_def)
  have "run_list (reconcile_order M) page' L' = Some L'" if "set page' \<subseteq> set page" for page'
    using that * assms(2) settled_idle [OF _ q] by (induction page') auto
  then show ?thesis by (simp add: reconcile_page_def)
qed

section \<open>A concrete session\<close>

definition demo_listener :: "(unit, (OrderSlotKey \<times> AlpacaOrderId) list, int list) FillListener" where
  "demo_listener = \<lparr>fl_pm = demo_book, fl_tracker = Some [], fl_latency = None, fl_client = None, fl_api_key = ''k'',
     fl_api_secret = ''s'', fl_has_connected = True, fl_session_start_iso = [], fl_filled_entries = [],
     fl_completed_entries = [], fl_outbox = []\<rparr>"

definition demo_event :: "i64 \<Rightarrow> FillEvent" where
  "demo_event q = \<lparr>fe_symbol = copySymbol ''AAPL'', fe_side = Buy, fe_is_partial = True, fe_quantity = q,
     fe_price = tick_price 1500000, fe_alpaca_order_id = copyOrderId ''id-1''\<rparr>"

definition demo_record :: "i64 \<Rightarrow> AlpacaOrderStatus" where
  "demo_record q = \<lparr>os_id = ''id-1'', os_symbol = ''AAPL'', os_side = ''buy'', os_status = ''filled'', os_created_at = [],
     os_qty = 100, os_filled_qty = q, os_filled_avg_price = tick_price 1500000\<rparr>"

lemma demo_symbol: "symbolBufferToKey (copySymbol ''AAPL'') = symbolToKey ''AAPL''" "valid_key (symbolToKey ''AAPL'')"
  "good_id ''id-1''" "buf_view (copyOrderId ''id-1'') = ''id-1''"
  by (simp_all add: copySymbol_def kSymbolCapacity_def AAPL_key kEmptySlot_def good_id_def kCapacity_def
      copyOrderId_def kOrderIdCapacity_def buf_view_copy_buf)

lemma demo_listener_fresh:
  "pm_inv (fl_pm demo_listener)" "tracked (fl_pm demo_listener) (symbolToKey ''AAPL'')" "room_for i demo_listener"
  "\<not> isCompleted i demo_listener" "findFilledQty i demo_listener = 0"
  using fresh_book(1,2) [OF AAPL_syms]
  by (simp_all add: demo_listener_def demo_book_def room_for_def isCompleted_def findFilledQty_def kMaxTrackedOrders_def)

definition demo_fill :: "i64 \<Rightarrow> Fill" where
  "demo_fill q = \<lparr>fill_symbol = copySymbol ''AAPL'', fill_executionId = 0, fill_orderId = 0, fill_side = Buy,
     fill_quantity = q, fill_price = tick_price 1500000\<rparr>"

lemma demo_fills_run:
  assumes "0 \<le> a" "0 \<le> b" "a + b \<le> 1000"
  obtains pm1 pm2 where "onFill (demo_fill a) demo_book = Some pm1" and "onFill (demo_fill b) pm1 = Some pm2"
proof -
  let ?fs = "[demo_fill a, demo_fill b]"
  have "ticks (demo_fill q) = 1500000" for q by (simp add: ticks_def demo_fill_def scaled_price_tick)
  then have "\<forall>fill \<in> set ?fs. good_fill 2000000 demo_book fill"
    using assms demo_listener_fresh(2) demo_symbol(1,2)
    by (simp add: good_fill_def demo_fill_def scaled_price_tick demo_listener_def)
  moreover have "book_exact 0 2000000 demo_book (\<lambda>_. \<lparr>a_pos = 0, a_cost = 0, a_pnl = 0\<rparr>)"
    using fresh_book_flat [OF AAPL_syms] fresh_book(1) [OF AAPL_syms]
    by (simp add: book_exact_def demo_book_def acct_bounded_def acct_sound_def)
  ultimately have "\<exists>pm'. run_list onFill ?fs demo_book = Some pm'"
    using onFills_exact [of 0 2000000 demo_book "\<lambda>_. \<lparr>a_pos = 0, a_cost = 0, a_pnl = 0\<rparr>" ?fs 1000] assms
    by (auto simp: no_overflow_def demo_fill_def)
  then show thesis using that by (auto split: option.splits)
qed

lemma demo_event_defined:
  assumes "onFill (demo_fill q) (fl_pm L) = Some pm" and "in_i64 (findFilledQty ''id-1'' L + q)"
  obtains L' where "processFillEvent M H now (demo_event q) L = Some L'" and "fl_pm L' = pm"
proof -
  have "findFilledQty i (L\<lparr>fl_pm := pm\<rparr>) = findFilledQty i L" for i by (simp add: findFilledQty_def)
  then have "\<exists>L'. processFillEvent M H now (demo_event q) L = Some L'"
    using assms by (simp add: processFillEvent_def demo_event_def book_fill_def demo_fill_def demo_symbol i64_add_def Let_def chk_i64_def)
  then obtain L' where L': "processFillEvent M H now (demo_event q) L = Some L'" by blast
  obtain pm' where "onFill (demo_fill q) (fl_pm L) = Some pm'" "fl_pm L' = pm'"
    by (rule processFillEvent_SomeD [OF L']) (simp add: demo_event_def demo_fill_def)
  then show thesis using that [OF L'] assms(1) by simp
qed

lemma demo_record_defined:
  assumes "\<not> isCompleted ''id-1'' L" and "findFilledQty ''id-1'' L < q" and "in_i64 (q - findFilledQty ''id-1'' L)"
    and "onFill (demo_fill (q - findFilledQty ''id-1'' L)) (fl_pm L) = Some pm"
  obtains L' where "reconcile_order M (demo_record q) L = Some L'" and "fl_pm L' = pm"
proof -
  have "\<exists>L'. reconcile_order M (demo_record q) L = Some L' \<and> fl_pm L' = pm"
    using assms by (simp add: reconcile_order_def demo_record_def parseSide_def is_fill_status_def reconcileFill_def
        i64_sub_def book_fill_def demo_fill_def Let_def chk_i64_def)
  then show thesis using that by blast
qed

lemma in_i64_small: "0 \<le> n \<Longrightarrow> n \<le> 1000 \<Longrightarrow> in_i64 n"
  by (simp add: in_i64_def)

theorem fills_exactly_once_witness:
  "\<exists>L1 L2. processFillEvent demo_slot_map demo_hdr 0 (demo_event 40) demo_listener = Some L1 \<and>
    reconcile_order demo_slot_map (demo_record 100) L1 = Some L2 \<and>
    getFilledPosition ''AAPL'' (fl_pm L2) = wrap_i64 (getFilledPosition ''AAPL'' demo_book + 100)"
proof -
  obtain pm1 pm2 where pm: "onFill (demo_fill 40) demo_book = Some pm1" "onFill (demo_fill 60) pm1 = Some pm2"
    by (rule demo_fills_run [of 40 60]) simp_all
  have z: "fl_pm demo_listener = demo_book" by (simp add: demo_listener_def)
  obtain L1 where L1: "processFillEvent demo_slot_map demo_hdr 0 (demo_event 40) demo_listener = Some L1" "fl_pm L1 = pm1"
    by (rule demo_event_defined [where L = demo_listener and q = 40])
      (use pm(1) z in_i64_small [of 40] demo_listener_fresh(5) in \<open>simp_all\<close>)
  have fes: "fills_of ''id-1'' (copySymbol ''AAPL'') Buy [demo_event 40]" "run_list (processFillEvent demo_slot_map demo_hdr 0) [demo_event 40] demo_listener = Some L1"
    using L1(1) by (simp_all add: fills_of_def demo_event_def demo_symbol)
  have r: "findFilledQty ''id-1'' L1 = 40" "\<not> isCompleted ''id-1'' L1"
    using fill_run_moved [OF fes(2,1)] demo_listener_fresh demo_symbol by (simp_all add: demo_event_def isCompleted_def)
  obtain L2 where L2: "reconcile_order demo_slot_map (demo_record 100) L1 = Some L2"
    by (rule demo_record_defined [where L = L1 and q = 100 and pm = pm2 and M = demo_slot_map])
      (use r pm(2) L1(2) in_i64_small [of 60] in \<open>simp_all\<close>)
  from fills_exactly_once [OF demo_listener_fresh(1) demo_symbol(2) demo_listener_fresh(2) demo_symbol(3) _
      demo_listener_fresh(3-5) fes, of "demo_record 100" L2]
  show ?thesis using L1(1) L2
    by (auto simp: demo_record_def parseSide_def is_fill_status_def demo_event_def z)
qed

theorem late_fill_counted_again_witness:
  "\<exists>L1 L2. reconcile_order demo_slot_map (demo_record 100) demo_listener = Some L1 \<and>
    processFillEvent demo_slot_map demo_hdr 0 (demo_event 100) L1 = Some L2 \<and>
    getFilledPosition ''AAPL'' (fl_pm L2) = wrap_i64 (getFilledPosition ''AAPL'' demo_book + 200)"
proof -
  obtain pm1 pm2 where pm: "onFill (demo_fill 100) demo_book = Some pm1" "onFill (demo_fill 100) pm1 = Some pm2"
    by (rule demo_fills_run [of 100 100]) simp_all
  have z: "fl_pm demo_listener = demo_book" by (simp add: demo_listener_def)
  obtain L1 where L1: "reconcile_order demo_slot_map (demo_record 100) demo_listener = Some L1" "fl_pm L1 = pm1"
    by (rule demo_record_defined [where L = demo_listener and q = 100 and pm = pm1 and M = demo_slot_map])
      (use demo_listener_fresh pm(1) z in_i64_small [of 100] in \<open>simp_all\<close>)
  have q: "findFilledQty ''id-1'' L1 = 100"
    using reconcile_order_moved [OF _ _ _ _ _ _ _ _ _ _ L1(1), of Buy] demo_listener_fresh demo_symbol
    by (simp add: demo_record_def parseSide_def is_fill_status_def)
  obtain L2 where L2: "processFillEvent demo_slot_map demo_hdr 0 (demo_event 100) L1 = Some L2"
    by (rule demo_event_defined [where L = L1 and q = 100 and pm = pm2 and M = demo_slot_map and H = demo_hdr and now = 0])
      (use q pm(2) L1(2) in_i64_small [of 200] in \<open>simp_all\<close>)
  from late_fill_counted_again [OF demo_listener_fresh(1) demo_symbol(2) demo_listener_fresh(2) _ _
      demo_listener_fresh(3-5) _ _ _ _ L1(1) _ _ L2, of Buy]
  show ?thesis using L1(1) L2
    by (auto simp: demo_record_def parseSide_def is_fill_status_def demo_event_def z demo_symbol)
qed

theorem reconcile_idempotent_witness:
  "\<exists>L'. reconcile_page demo_slot_map [demo_record 100] demo_listener = Some L' \<and>
    reconcile_page demo_slot_map [demo_record 100] L' = Some L'"
proof -
  obtain pm1 pm2 where pm: "onFill (demo_fill 100) demo_book = Some pm1" "onFill (demo_fill 100) pm1 = Some pm2"
    by (rule demo_fills_run [of 100 100]) simp_all
  have z: "fl_pm demo_listener = demo_book" by (simp add: demo_listener_def)
  obtain L1 where L1: "reconcile_order demo_slot_map (demo_record 100) demo_listener = Some L1"
    by (rule demo_record_defined [where L = demo_listener and q = 100 and pm = pm1 and M = demo_slot_map])
      (use demo_listener_fresh pm(1) z in_i64_small [of 100] in \<open>simp_all\<close>)
  then have p: "reconcile_page demo_slot_map [demo_record 100] demo_listener = Some L1" by (simp add: reconcile_page_def)
  from reconcile_idempotent [OF this] show ?thesis
    using p demo_symbol(3) by (simp add: good_record_def demo_record_def qtys_ok_def demo_listener_fresh)
      (simp add: demo_listener_def kMaxTrackedOrders_def)
qed

definition demo_listener_env :: "(unit, (OrderSlotKey \<times> AlpacaOrderId) list, int list, sample_json) listener_env" where
  "demo_listener_env = \<lparr>le_json = sample_api sample_cancel, le_rest = demo_rest Threw Threw, le_slots = demo_slot_map,
     le_hdr = demo_hdr, le_pages = 1, le_now = 0, le_now_iso = []\<rparr>"

theorem tables_bounded_witness:
  "\<exists>L L'. new_FillListener (Some demo_book) ''k'' ''s'' (Some []) None None = Some L \<and>
    listen_run [(demo_listener_env, True, Open), (demo_listener_env, True, Message [])] L = Some L' \<and>
    isCompleted ''id-1'' L' \<and> length (fl_completed_entries L') \<le> 4096"
proof -
  let ?L = "demo_listener\<lparr>fl_has_connected := False\<rparr>"
  have new: "new_FillListener (Some demo_book) ''k'' ''s'' (Some []) None None = Some ?L"
    by (simp add: new_FillListener_def demo_listener_def)
  let ?ce = "\<lparr>ce_symbol = copySymbol ''AAPL'', ce_side = Buy, ce_quantity = 60, ce_alpaca_order_id = copyOrderId ''id-1''\<rparr>"
  have b: "in_i64 (60 :: int)" "in_i64 (- 60 :: int)" by (simp_all add: in_i64_def)
  have "\<exists>pm. onOrderCancelled (zero_Order\<lparr>ord_symbol := copySymbol ''AAPL'', ord_quantity := 60, ord_side := Buy\<rparr>) demo_book = Some pm"
    using b order_ops_total(2) [of "zero_Order\<lparr>ord_symbol := copySymbol ''AAPL'', ord_quantity := 60, ord_side := Buy\<rparr>"] by simp
  then obtain pm where pm: "onOrderCancelled (zero_Order\<lparr>ord_symbol := copySymbol ''AAPL'', ord_quantity := 60, ord_side := Buy\<rparr>) demo_book = Some pm"
    by blast
  have "\<not> isCompleted ''id-1'' ((sendAuth ?L)\<lparr>fl_pm := pm\<rparr>)" by (simp add: isCompleted_def sendAuth_def demo_listener_def)
  then obtain L' where L': "processCancelEvent demo_slot_map ?ce (sendAuth ?L) = Some L'" "isCompleted ''id-1'' L'"
    using pm isCompleted_mark [OF demo_symbol(3), of "(sendAuth ?L)\<lparr>fl_pm := pm\<rparr>" "''id-1''"]
    by (auto simp: processCancelEvent_def book_cancel_def demo_symbol(4) sendAuth_def demo_listener_def kMaxTrackedOrders_def Let_def)
  have j: "js_parse_or_throw (sample_api sample_cancel) [] = Some sample_cancel"
    "\<not> js_equals (sample_api sample_cancel) (js_at (sample_api sample_cancel) sample_cancel ''stream'') ''authorization''"
    "\<not> js_equals (sample_api sample_cancel) (js_at (sample_api sample_cancel) sample_cancel ''stream'') ''listening''"
    by code_simp+
  have run: "listen_run [(demo_listener_env, True, Open), (demo_listener_env, True, Message [])] ?L = Some L'"
    using L'(1) j sample_cancel_parsed
    by (simp add: listen_run_def onMessage_def handleTradeUpdate_def demo_listener_env_def Let_def)
  from tables_bounded [OF new run] show ?thesis using new run L'(2) by blast
qed

end
