(* ===== verification/Fill_Booking.thy ===== *)
theory Fill_Booking
  imports Fill_Reconciliation
begin

text \<open>
  The listener touches the positions only through the operations of the book: every message amounts to a
  sequence of fills and cancellations for the symbols the messages and the broker's records name. This is
  what the engine needs to know of it.
\<close>

text \<open>A symbol without the byte \<open>0xFF\<close>, which no UTF-8 text contains, never has the key of an empty slot.\<close>

definition text_symbol :: "string \<Rightarrow> bool" where
  "text_symbol s \<longleftrightarrow> CHR 0xFF \<notin> set s"

lemma text_symbol_key:
  assumes "text_symbol s"
  shows "valid_key (symbolBufferToKey (copySymbol s))"
proof
  assume *: "symbolBufferToKey (copySymbol s) = kEmptySlot"
  have "le_u64 (replicate 8 (CHR 0xFF)) = kEmptySlot" by code_simp
  then have "le_u64 (take 8 (copySymbol s)) = le_u64 (replicate 8 (CHR 0xFF))" using * by (simp add: symbolBufferToKey_def copySymbol_def kSymbolCapacity_def)
  then have "copySymbol s = replicate 8 (CHR 0xFF)"
    by (intro le_u64_inj) (simp_all add: copySymbol_def kSymbolCapacity_def)
  then have "CHR 0xFF \<in> set (copySymbol s)" by (simp add: eval_nat_numeral)
  then show False using assms by (auto simp: copySymbol_def copy_buf_def text_symbol_def dest: in_set_takeD)
qed

definition booked :: "('r, 'm, 'h) FillListener \<Rightarrow> ('r, 'm, 'h) FillListener \<Rightarrow> bool" where
  "booked L L' \<longleftrightarrow> (\<exists>ops. run_list apply_op ops (fl_pm L) = Some (fl_pm L') \<and> (\<forall>op \<in> set ops. valid_key (op_key op)))"

lemma booked_refl: "fl_pm L' = fl_pm L \<Longrightarrow> booked L L'"
  by (auto simp: booked_def intro: exI [of _ "[]"])

lemma booked_trans: "booked L L1 \<Longrightarrow> booked L1 L2 \<Longrightarrow> booked L L2"
proof -
  assume "booked L L1" "booked L1 L2"
  then obtain xs ys where "run_list apply_op xs (fl_pm L) = Some (fl_pm L1)" "run_list apply_op ys (fl_pm L1) = Some (fl_pm L2)"
    "\<forall>op \<in> set (xs @ ys). valid_key (op_key op)" by (auto simp: booked_def)
  then show ?thesis unfolding booked_def by (intro exI [of _ "xs @ ys"]) (simp add: run_list_append)
qed

lemma booked_pm: "booked L L1 \<Longrightarrow> fl_pm L2 = fl_pm L1 \<Longrightarrow> booked L L2"
  by (simp add: booked_def)

lemma book_booked:
  assumes "valid_key (symbolBufferToKey s)"
  shows "book_fill s side q p L = Some L' \<Longrightarrow> booked L L'" and "book_cancel s side q L = Some L' \<Longrightarrow> booked L L'"
proof -
  show "booked L L'" if b: "book_fill s side q p L = Some L'"
  proof -
    let ?f = "\<lparr>fill_symbol = s, fill_executionId = 0, fill_orderId = 0, fill_side = side, fill_quantity = q, fill_price = p\<rparr>"
    obtain pm where "L' = L\<lparr>fl_pm := pm\<rparr>" "onFill ?f (fl_pm L) = Some pm" using book_frame(1) [OF b] by blast
    then show ?thesis unfolding booked_def using assms by (intro exI [of _ "[Filled ?f]"]) simp
  qed
  show "booked L L'" if b: "book_cancel s side q L = Some L'"
  proof -
    let ?o = "zero_Order\<lparr>ord_symbol := s, ord_quantity := q, ord_side := side\<rparr>"
    obtain pm where "L' = L\<lparr>fl_pm := pm\<rparr>" "onOrderCancelled ?o (fl_pm L) = Some pm" using book_frame(2) [OF b] by blast
    then show ?thesis unfolding booked_def using assms by (intro exI [of _ "[Cancelled ?o]"]) simp
  qed
qed

lemma event_booked:
  shows "processFillEvent M H now fe L = Some L' \<Longrightarrow> valid_key (symbolBufferToKey (fe_symbol fe)) \<Longrightarrow> booked L L'"
    and "processCancelEvent M ce L = Some L' \<Longrightarrow> valid_key (symbolBufferToKey (ce_symbol ce)) \<Longrightarrow> booked L L'"
proof -
  show "booked L L'" if run: "processFillEvent M H now fe L = Some L'" and k: "valid_key (symbolBufferToKey (fe_symbol fe))"
  proof -
    let ?f = "\<lparr>fill_symbol = fe_symbol fe, fill_executionId = 0, fill_orderId = 0, fill_side = fe_side fe,
      fill_quantity = fe_quantity fe, fill_price = fe_price fe\<rparr>"
    obtain pm where "onFill ?f (fl_pm L) = Some pm" "fl_pm L' = pm" using processFillEvent_SomeD [OF run] by metis
    then show ?thesis unfolding booked_def using k by (intro exI [of _ "[Filled ?f]"]) simp
  qed
  show "booked L L'" if run: "processCancelEvent M ce L = Some L'" and k: "valid_key (symbolBufferToKey (ce_symbol ce))"
  proof -
    obtain L0 where L0: "book_cancel (ce_symbol ce) (ce_side ce) (ce_quantity ce) L = Some L0"
      using run by (auto simp: processCancelEvent_def bind_eq_Some_conv)
    moreover have "fl_pm L' = fl_pm L0" using run L0 by (auto simp: processCancelEvent_def Let_def)
    ultimately show ?thesis using book_booked(2) [OF k] booked_pm by blast
  qed
qed

lemma reconcile_order_booked:
  assumes run: "reconcile_order M ao L = Some L'" and ts: "text_symbol (os_symbol ao)"
  shows "booked L L'"
proof -
  note k = text_symbol_key [OF ts]
  have fill: "booked L L'" if r: "reconcileFill M ao side L = Some (n, L')" for side n
    using reconcileFill_SomeD [OF r] book_booked(1) [OF k] booked_pm booked_refl by (fastforce split: if_splits)
  have cancel: "booked L L'" if r: "reconcileCancel M ao side L = Some (n, L')" for side n
  proof -
    obtain L1 L2 where *: "if findFilledQty (os_id ao) L < os_filled_qty ao
       then \<exists>L0. book_fill (copySymbol (os_symbol ao)) side (os_filled_qty ao - findFilledQty (os_id ao) L) (os_filled_avg_price ao) L = Some L0 \<and>
         L1 = upsertFilledQty (os_id ao) (os_filled_qty ao) L0
       else L1 = L"
      "if os_filled_qty ao < os_qty ao
       then book_cancel (copySymbol (os_symbol ao)) side (os_qty ao - os_filled_qty ao) L1 = Some L2
       else L2 = L1"
      "L' = complete_in_tracker M (copySymbol (os_symbol ao)) side (os_id ao) (markCompleted (os_id ao) L2)"
      using reconcileCancel_SomeD [OF r] by blast
    have "booked L L1" using *(1) book_booked(1) [OF k] booked_pm booked_refl by (fastforce split: if_splits)
    moreover have "booked L1 L2" using *(2) book_booked(2) [OF k] booked_refl [of L1 L1] by (auto split: if_splits)
    ultimately show ?thesis using *(3) booked_trans booked_pm by fastforce
  qed
  show ?thesis
    using run fill cancel booked_refl [of L L] by (auto simp: reconcile_order_def split: if_splits option.splits)
qed

text \<open>A client whose order lists name text symbols only.\<close>

definition text_client :: "'r IRestClient \<Rightarrow> bool" where
  "text_client R \<longleftrightarrow> (\<forall>st cursor c c' page. rest_queryOrders R st cursor c = (Returned (Inr page), c') \<longrightarrow>
     (\<forall>ao \<in> set page. text_symbol (os_symbol ao)))"

lemma reconcile_pages_booked:
  assumes "text_client R"
  shows "reconcile_pages n R M cursor client L = Some (threw, client', L') \<Longrightarrow> booked L L'"
proof (induction n arbitrary: cursor client L)
  case (Suc n)
  obtain r c where rc: "rest_queryOrders R ''all'' cursor client = (r, c)" by fastforce
  consider "r = Threw" | e where "r = Returned (Inl e)" | page where "r = Returned (Inr page)"
    by (metis outcome.exhaust sum.exhaust)
  then show ?case
  proof cases
    case 3
    then obtain L1 where L1: "reconcile_page M page L = Some L1" using Suc.prems rc by (auto simp: bind_eq_Some_conv)
    have "\<forall>ao \<in> set page. text_symbol (os_symbol ao)" using assms rc 3 by (auto simp: text_client_def)
    then have "booked L L1"
      using L1 unfolding reconcile_page_def
      by (intro run_list_inv [where I = "booked L", OF L1 [unfolded reconcile_page_def]]) (auto intro: booked_refl booked_trans reconcile_order_booked)
    then show ?thesis using Suc.IH Suc.prems rc 3 L1 booked_trans by (fastforce simp: Let_def split: if_splits)
  qed (use Suc.prems rc booked_refl in auto)
qed simp


lemma onMessage_booked:
  assumes run: "onMessage E r msg L = Some (threw, L')" and R: "text_client (le_rest E)"
    and J: "\<forall>j. text_symbol (js_get_string (le_json E) j)"
  shows "booked L L'"
proof -
  have rec: "booked K K'" if r: "reconcileAfterReconnect n (le_rest E) M K = Some (t, K')" for n M K t K'
  proof (cases "fl_client K")
    case None
    then show ?thesis using r booked_refl [of K K] by (simp add: reconcileAfterReconnect_def)
  next
    case (Some client)
    then obtain c K1 where "reconcile_pages n (le_rest E) M (fl_session_start_iso K) client K = Some (t, c, K1)" "K' = K1\<lparr>fl_client := Some c\<rparr>"
      using r by (auto simp: reconcileAfterReconnect_def bind_eq_Some_conv)
    then show ?thesis using reconcile_pages_booked [OF R] booked_pm by fastforce
  qed
  have auth: "booked L L'" if a: "handleAuthorization E parsed L = Some (t, L')" for parsed t
  proof -
    have "fl_pm (sendSubscribe L) = fl_pm L" by (simp add: sendSubscribe_def)
    note s = booked_refl [OF this]
    consider "L' = L" | "fl_pm L' = fl_pm (sendSubscribe L)" | K t' where "reconcileAfterReconnect (le_pages E) (le_rest E) (le_slots E) (sendSubscribe L) = Some (t', K)" "fl_pm L' = fl_pm K"
      using a by (auto simp: handleAuthorization_def Let_def bind_eq_Some_conv split: if_splits)
    then show ?thesis
    proof cases
      case 3
      then show ?thesis using booked_pm [OF booked_trans [OF s rec [OF 3(1)]]] by simp
    qed (use s booked_pm booked_refl [of L L] in auto)
  qed
  have upd: "valid_key (symbolBufferToKey (case u of FillUpdate fe \<Rightarrow> fe_symbol fe | CancelUpdate ce \<Rightarrow> ce_symbol ce | Monostate \<Rightarrow> copySymbol []))"
    if "parseTradingUpdate (le_json E) parsed = Some u" for parsed u
  proof -
    have k: "valid_key (symbolBufferToKey (copySymbol (js_get_string (le_json E) j)))" for j using J text_symbol_key by blast
    have k0: "valid_key (symbolBufferToKey (copySymbol []))" by (rule text_symbol_key) (simp add: text_symbol_def)
    show ?thesis using that k k0 unfolding parseTradingUpdate_def parse_fill_def parse_cancel_def Let_def
      by (auto simp: bind_eq_Some_conv split: if_splits option.splits)
  qed
  have update: "booked L L'" if p: "parseTradingUpdate (le_json E) parsed = Some u" and r: "(case u of
      FillUpdate fe \<Rightarrow> map_option (\<lambda>L. (False, L)) (processFillEvent (le_slots E) (le_hdr E) (le_now E) fe L)
    | CancelUpdate ce \<Rightarrow> map_option (\<lambda>L. (False, L)) (processCancelEvent (le_slots E) ce L)
    | Monostate \<Rightarrow> Some (False, L)) = Some (t, L')" for parsed u t
    using r upd [OF p] event_booked booked_refl [of L L] by (cases u) auto
  have "booked L L'" if "handleTradeUpdate E json L = Some (t, L')" for json t
    using that auth update booked_refl [of L L]
    by (auto simp: handleTradeUpdate_def Let_def bind_eq_Some_conv split: option.split_asm if_split_asm)
  then show ?thesis
    using run booked_refl [of "sendAuth L" L] booked_refl [of L L]
    by (auto simp: onMessage_def sendAuth_def split: if_splits ws_message.splits)
qed

end
