(* ===== verification/Market_Pipeline.thy ===== *)
theory Market_Pipeline
  imports Event_Consumer
begin

text \<open>
  The market data pipeline (\<open>include/MarketDataPipeline.hpp\<close>) with the parts the engine puts into it
  (\<open>include/AlpacaPipeline.hpp\<close>): the websocket source (\<open>src/AlpacaWebSocketSource.cpp\<close>), the decoder and the
  ZeroMQ sink. The source's frames are recorded as the MessagePack values it packs; the socket and its thread,
  the packer and the parser are outside code. Clock readings are arguments, log lines are left out.
\<close>

section \<open>The source\<close>

record AlpacaWebSocketSource =
  ws_api_key :: string
  ws_api_secret :: string
  ws_symbols :: "string list"
  ws_on_data :: bool
  ws_outbox :: "mp list"

definition new_AlpacaWebSocketSource :: "string \<Rightarrow> string \<Rightarrow> string list \<Rightarrow> AlpacaWebSocketSource" where
  "new_AlpacaWebSocketSource api_key api_secret symbols =
     \<lparr>ws_api_key = api_key, ws_api_secret = api_secret, ws_symbols = symbols, ws_on_data = False, ws_outbox = []\<rparr>"

definition setOnData :: "AlpacaWebSocketSource \<Rightarrow> AlpacaWebSocketSource" where
  "setOnData S = S\<lparr>ws_on_data := True\<rparr>"

definition auth_frame :: "AlpacaWebSocketSource \<Rightarrow> mp" where
  "auth_frame S = MMap [(MStr ''action'', MStr ''auth''), (MStr ''key'', MStr (ws_api_key S)), (MStr ''secret'', MStr (ws_api_secret S))]"

definition subscribe_frame :: "AlpacaWebSocketSource \<Rightarrow> mp" where
  "subscribe_frame S = MMap [(MStr ''action'', MStr ''subscribe''), (MStr ''quotes'', MArr (map MStr (ws_symbols S))),
     (MStr ''trades'', MArr (map MStr (ws_symbols S)))]"

definition sendAuth :: "AlpacaWebSocketSource \<Rightarrow> AlpacaWebSocketSource" where
  "sendAuth S = S\<lparr>ws_outbox := ws_outbox S @ [auth_frame S]\<rparr>"

definition sendSubscribe :: "AlpacaWebSocketSource \<Rightarrow> AlpacaWebSocketSource" where
  "sendSubscribe S = S\<lparr>ws_outbox := ws_outbox S @ [subscribe_frame S]\<rparr>"

section \<open>The pipeline\<close>

record 'z MarketDataPipeline =
  pl_decoder :: AlpacaMsgpackDecoder
  pl_sink :: 'z
  pl_source :: AlpacaWebSocketSource

text \<open>The constructor connects the decoder's authentication callback to the source, and the source to the decoder.\<close>

definition new_MarketDataPipeline :: "AlpacaWebSocketSource \<Rightarrow> AlpacaMsgpackDecoder \<Rightarrow> 'z \<Rightarrow> 'z MarketDataPipeline" where
  "new_MarketDataPipeline source decoder sink =
     \<lparr>pl_decoder = decoder\<lparr>md_on_auth_success := True\<rparr>, pl_sink = sink, pl_source = setOnData source\<rparr>"

primrec handle_out :: "'z zmq_pub \<Rightarrow> decoder_out \<Rightarrow> 'z MarketDataPipeline \<Rightarrow> 'z MarketDataPipeline" where
  "handle_out Z (Emit event symb) P = P\<lparr>pl_sink := publish Z event symb (pl_sink P)\<rparr>"
| "handle_out Z AuthSuccess P = P\<lparr>pl_source := sendSubscribe (pl_source P)\<rparr>"

definition onSourceData :: "(string \<Rightarrow> sax list) \<Rightarrow> 'z zmq_pub \<Rightarrow> u64 \<Rightarrow> string \<Rightarrow> 'z MarketDataPipeline \<Rightarrow>
    'z MarketDataPipeline option" where
  "onSourceData parse Z arrived_at data P = do {
     (outs, decoder) \<leftarrow> decodeRaw parse data arrived_at (pl_decoder P);
     Some (fold (handle_out Z) outs (P\<lparr>pl_decoder := decoder\<rparr>))
   }"

text \<open>\<open>AlpacaWebSocketSource::onMessage\<close>, whose data callback is the pipeline's.\<close>

definition onMessage :: "(string \<Rightarrow> sax list) \<Rightarrow> 'z zmq_pub \<Rightarrow> bool \<Rightarrow> u64 \<Rightarrow> ws_message \<Rightarrow> 'z MarketDataPipeline \<Rightarrow>
    'z MarketDataPipeline option" where
  "onMessage parse Z is_running now msg P =
     (if \<not> is_running then Some P
      else case msg of
        Open \<Rightarrow> Some (P\<lparr>pl_source := sendAuth (pl_source P)\<rparr>)
      | Message str \<Rightarrow> if ws_on_data (pl_source P) then onSourceData parse Z now str P else Some P
      | Error \<Rightarrow> Some P
      | Close \<Rightarrow> Some P
      | OtherMessage \<Rightarrow> Some P)"

section \<open>What is published\<close>

text \<open>A socket that accepts every part, in order: the behaviour of a publisher below its high-water mark.\<close>

definition accepting :: "string list zmq_pub \<Rightarrow> bool" where
  "accepting Z \<longleftrightarrow> (\<forall>part more z. zp_send Z part more z = (True, z @ [part]))"

primrec out_parts :: "decoder_out \<Rightarrow> string list" where
  "out_parts (Emit event symb) = [take 8 symb, event_bytes event]"
| "out_parts AuthSuccess = []"

primrec out_event :: "decoder_out \<Rightarrow> MarketEvent list" where
  "out_event (Emit event symb) = [event]"
| "out_event AuthSuccess = []"

lemma fold_handle_out:
  assumes "accepting Z"
  shows "pl_sink (fold (handle_out Z) outs P) = pl_sink P @ concat (map out_parts outs)"
    and "ws_outbox (pl_source (fold (handle_out Z) outs P)) =
      ws_outbox (pl_source P) @ replicate (count_list outs AuthSuccess) (subscribe_frame (pl_source P))"
    and "pl_decoder (fold (handle_out Z) outs P) = pl_decoder P"
proof -
  have min: "take (min (length symb) 8) symb = take 8 symb" for symb :: string by (simp add: min_def)
  have "pl_sink (fold (handle_out Z) outs P) = pl_sink P @ concat (map out_parts outs) \<and>
    ws_outbox (pl_source (fold (handle_out Z) outs P)) =
      ws_outbox (pl_source P) @ replicate (count_list outs AuthSuccess) (subscribe_frame (pl_source P)) \<and>
    pl_decoder (fold (handle_out Z) outs P) = pl_decoder P"
  proof (induction outs arbitrary: P)
    case (Cons out outs)
    show ?case
    proof (cases out)
      case (Emit e s)
      then show ?thesis using Cons.IH assms by (simp add: publish_def accepting_def kSymbolCapacity_def min)
    next
      case AuthSuccess
      have "replicate n x @ [x] = x # replicate n x" for n and x :: mp by (simp add: replicate_append_same)
      then show ?thesis using AuthSuccess Cons.IH by (simp add: sendSubscribe_def subscribe_frame_def)
    qed
  qed simp
  then show "pl_sink (fold (handle_out Z) outs P) = pl_sink P @ concat (map out_parts outs)"
    "ws_outbox (pl_source (fold (handle_out Z) outs P)) =
      ws_outbox (pl_source P) @ replicate (count_list outs AuthSuccess) (subscribe_frame (pl_source P))"
    "pl_decoder (fold (handle_out Z) outs P) = pl_decoder P" by blast+
qed

text \<open>A subscriber that receives the parts two by two.\<close>

fun turns_of :: "turn_clock \<Rightarrow> string list \<Rightarrow> turn list" where
  "turns_of t (topic # payload # parts) = \<lparr>tu_clock = t, tu_topic = Some topic, tu_payload = Some payload\<rparr> # turns_of t parts"
| "turns_of t parts = []"

lemma turns_of_outs:
  assumes "\<forall>out \<in> set outs. good_out arrived_at out"
  shows "map event_in (turns_of t (concat (map out_parts outs))) = map Some (concat (map out_event outs))"
  using assms
proof (induction outs)
  case (Cons out outs)
  show ?case
  proof (cases out)
    case (Emit e s)
    then have "length (ev_symbol e) = 8" using Cons.prems by (simp add: good_out_def)
    then show ?thesis using Emit Cons by (simp add: event_in_def length_event_bytes event_of_bytes_bytes)
  qed (use Cons in simp)
qed simp

text \<open>C33. Market data is delivered unchanged: whatever frame arrives, the pipeline publishes for every event the
  decoder emits its symbol as the topic and 64 bytes of payload, in order, and a consumer that receives
  these parts copies exactly the emitted events back out of them.\<close>

theorem market_data_delivered:
  assumes "accepting Z" and "pl_sink P = []" and "ws_on_data (pl_source P)"
    and "onMessage parse Z True now (Message data) P = Some P'"
  shows "\<exists>outs. decodeRaw parse data now (pl_decoder P) = Some (outs, pl_decoder P') \<and>
    pl_sink P' = concat (map out_parts outs) \<and>
    map event_in (turns_of t (pl_sink P')) = map Some (concat (map out_event outs))"
proof -
  obtain outs md where d: "decodeRaw parse data now (pl_decoder P) = Some (outs, md)" "\<forall>out \<in> set outs. good_out now out"
    using decoded_outs by blast
  then have "P' = fold (handle_out Z) outs (P\<lparr>pl_decoder := md\<rparr>)"
    using assms(3,4) by (simp add: onMessage_def onSourceData_def)
  then show ?thesis
    using fold_handle_out [OF assms(1)] turns_of_outs [OF d(2)] d(1) assms(2) by simp
qed

text \<open>The subscription follows the login and nothing else: a frame of flat maps makes the source send exactly one
  subscription, for the quotes and trades of all its symbols, when its first map is a success message,
  and none otherwise.\<close>

theorem subscribe_after_success:
  assumes "accepting Z" and "ws_on_data (pl_source P)" and "md_on_auth_success (pl_decoder P)"
    and "parse data = sax_of (MArr (map MMap items))" and "\<forall>kvs \<in> set items. flat kvs" and "length items < 2 ^ 32"
    and "onMessage parse Z True now (Message data) P = Some P'"
  shows "ws_outbox (pl_source P') = ws_outbox (pl_source P) @
    (if items \<noteq> [] \<and> \<not> it_invalid (item_of (hd items)) \<and> it_type (item_of (hd items)) = ''success''
     then [subscribe_frame (pl_source P)] else [])"
proof -
  let ?outs = "frame_out True now True items"
  obtain md where d: "decodeRaw parse data now (pl_decoder P) = Some (?outs, md)"
    using frame_decoded [where parse = parse and data = data, OF assms(4-6), of now "pl_decoder P"] assms(3) by auto
  then have P': "P' = fold (handle_out Z) ?outs (P\<lparr>pl_decoder := md\<rparr>)"
    using assms(2,7) by (simp add: onMessage_def onSourceData_def)
  have item: "count_list (item_out True f now it) AuthSuccess = (if f \<and> \<not> it_invalid it \<and> it_type it = ''success'' then 1 else 0)" for f it
    by (simp add: item_out_def split: option.splits)
  have later: "count_list (frame_out True now False items) AuthSuccess = 0" for items
    by (induction items) (simp_all add: item)
  have "count_list ?outs AuthSuccess =
      (if items \<noteq> [] \<and> \<not> it_invalid (item_of (hd items)) \<and> it_type (item_of (hd items)) = ''success'' then 1 else 0)"
    by (cases items) (simp_all add: item later)
  then show ?thesis using fold_handle_out(2) [OF assms(1), of ?outs "P\<lparr>pl_decoder := md\<rparr>"] by (simp add: P')
qed

section \<open>A concrete session\<close>

definition demo_pub :: "string list zmq_pub" where
  "demo_pub = \<lparr>zp_send = (\<lambda>part more z. (True, z @ [part]))\<rparr>"

definition demo_pipeline :: "string list MarketDataPipeline" where
  "demo_pipeline = new_MarketDataPipeline (new_AlpacaWebSocketSource ''k'' ''s'' [''AAPL''])
     \<lparr>md_event_buffer = \<lparr>ev_eventType = 0, ev_symbol = replicate 8 NUL, ev_timestamp = 0, ev_p1 = 0, ev_s1 = 0,
        ev_p2 = 0, ev_s2 = 0, ev_arrivedAt = 0\<rparr>, md_on_auth_success = False\<rparr> []"

lemma demo_pipeline_ok:
  "accepting demo_pub" "pl_sink demo_pipeline = []" "ws_on_data (pl_source demo_pipeline)" "md_on_auth_success (pl_decoder demo_pipeline)"
  "ws_outbox (pl_source demo_pipeline) = []"
  by (simp_all add: accepting_def demo_pub_def demo_pipeline_def new_MarketDataPipeline_def setOnData_def new_AlpacaWebSocketSource_def)

lemma demo_pipeline_run: "\<exists>P'. onMessage parse demo_pub True 5 (Message data) demo_pipeline = Some P'"
  using decoded_outs [of parse data 5 "pl_decoder demo_pipeline"] demo_pipeline_ok(3) by (auto simp: onMessage_def onSourceData_def)

theorem market_data_delivered_witness:
  "\<exists>P' outs. onMessage (\<lambda>_. sax_of (MArr (map MMap demo_frame))) demo_pub True 5 (Message []) demo_pipeline = Some P' \<and>
    pl_sink P' = concat (map out_parts outs) \<and>
    map event_in (turns_of \<lparr>tc_received = 6, tc_risk = 7, tc_queue = 8\<rparr> (pl_sink P')) = map Some (concat (map out_event outs))"
proof -
  obtain P' where run: "onMessage (\<lambda>_. sax_of (MArr (map MMap demo_frame))) demo_pub True 5 (Message []) demo_pipeline = Some P'"
    using demo_pipeline_run by blast
  from market_data_delivered [OF demo_pipeline_ok(1-3) run] run show ?thesis by blast
qed

theorem subscribe_after_success_witness:
  "\<exists>P'. onMessage (\<lambda>_. sax_of (MArr (map MMap demo_frame))) demo_pub True 5 (Message []) demo_pipeline = Some P' \<and>
    ws_outbox (pl_source P') = [MMap [(MStr ''action'', MStr ''subscribe''), (MStr ''quotes'', MArr [MStr ''AAPL'']), (MStr ''trades'', MArr [MStr ''AAPL''])]]"
proof -
  obtain P' where run: "onMessage (\<lambda>_. sax_of (MArr (map MMap demo_frame))) demo_pub True 5 (Message []) demo_pipeline = Some P'"
    using demo_pipeline_run by blast
  have f: "\<forall>kvs \<in> set demo_frame. flat kvs" "length demo_frame < 2 ^ 32" by (simp_all add: demo_frame_def flat_def)
  have h: "demo_frame \<noteq> [] \<and> \<not> it_invalid (item_of (hd demo_frame)) \<and> it_type (item_of (hd demo_frame)) = ''success''"
    by (simp add: demo_frame_def item_of_def put_def key_field_def empty_item_def)
  have "ws_symbols (pl_source demo_pipeline) = [''AAPL'']"
    by (simp add: demo_pipeline_def new_MarketDataPipeline_def setOnData_def new_AlpacaWebSocketSource_def)
  then show ?thesis
    using subscribe_after_success [OF demo_pipeline_ok(1,3,4) refl f run] run h
    by (simp add: demo_pipeline_ok subscribe_frame_def)
qed

end
