(* ===== verification/App_Config.thy ===== *)
theory App_Config
  imports Floats "HOL-Library.Char_ord" "HOL-Library.List_Lexorder"
begin

text \<open>
  The configuration (\<open>include/AppConfig.hpp\<close>, \<open>src/AppConfig.cpp\<close>) and the command line (\<open>src/main.cpp\<close>) up to the
  configuration the engine is constructed with. The JSON library and the file system are outside code:
  \<open>config_json\<close> has the operations used, a typed \<open>value(key, default)\<close> being \<^const>\<open>None\<close> where it throws;
  \<open>files\<close> says which files exist and what reading them gives. Every throw is an error value.
\<close>

section \<open>Configuration\<close>

record TradingConfig =
  tc_symbols :: "string list"
  tc_order_cooldown_ns :: u64

record RiskConfig =
  rc_max_position_per_symbol :: i64
  rc_max_order_value :: fp

record StrategyConfig =
  sc_spread_offset_ticks :: u64
  sc_order_quantity :: i64

record AlpacaConfig =
  ac_base_url :: string
  ac_market_data_url :: string
  ac_fill_stream_url :: string
  ac_rate_limit_threshold :: i64

record ZmqConfig =
  zc_market_data_address :: string

record ThreadingConfig =
  th_gateway_core :: u32
  th_market_pipeline_core :: u32
  th_consumer_core_start :: u32

record AppConfig =
  cfg_trading :: TradingConfig
  cfg_risk :: RiskConfig
  cfg_strategy :: StrategyConfig
  cfg_alpaca :: AlpacaConfig
  cfg_zmq :: ZmqConfig
  cfg_threading :: ThreadingConfig

definition default_config :: AppConfig where
  "default_config =
     \<lparr>cfg_trading = \<lparr>tc_symbols = [''AAPL'', ''GOOGL'', ''AMZN''], tc_order_cooldown_ns = 100000000\<rparr>,
      cfg_risk = \<lparr>rc_max_position_per_symbol = 1000, rc_max_order_value = Fin 10000\<rparr>,
      cfg_strategy = \<lparr>sc_spread_offset_ticks = 100, sc_order_quantity = 100\<rparr>,
      cfg_alpaca = \<lparr>ac_base_url = ''https://paper-api.alpaca.markets'',
        ac_market_data_url = ''wss://stream.data.alpaca.markets/v2/iex?encoding=msgpack'',
        ac_fill_stream_url = ''wss://paper-api.alpaca.markets/stream'', ac_rate_limit_threshold = 10\<rparr>,
      cfg_zmq = \<lparr>zc_market_data_address = []\<rparr>,
      cfg_threading = \<lparr>th_gateway_core = 0, th_market_pipeline_core = 1, th_consumer_core_start = 2\<rparr>\<rparr>"

definition getZmqMarketDataAddress :: string where
  "getZmqMarketDataAddress = ''ipc:///tmp/market_data.sock''"

section \<open>Reading the file\<close>

record 'j config_json =
  cj_parse :: "string \<Rightarrow> 'j option"
  cj_is_object :: "'j \<Rightarrow> bool"
  cj_contains :: "'j \<Rightarrow> string \<Rightarrow> bool"
  cj_at :: "'j \<Rightarrow> string \<Rightarrow> 'j"
  cj_strings :: "'j \<Rightarrow> string \<Rightarrow> string list \<Rightarrow> string list option"
  cj_string :: "'j \<Rightarrow> string \<Rightarrow> string \<Rightarrow> string option"
  cj_u64 :: "'j \<Rightarrow> string \<Rightarrow> u64 \<Rightarrow> u64 option"
  cj_u32 :: "'j \<Rightarrow> string \<Rightarrow> u32 \<Rightarrow> u32 option"
  cj_i64 :: "'j \<Rightarrow> string \<Rightarrow> i64 \<Rightarrow> i64 option"
  cj_double :: "'j \<Rightarrow> string \<Rightarrow> fp \<Rightarrow> fp option"

definition parseTrading :: "'j config_json \<Rightarrow> 'j \<Rightarrow> TradingConfig \<Rightarrow> TradingConfig option" where
  "parseTrading J j c =
     (if \<not> cj_contains J j ''trading'' then Some c
      else let t = cj_at J j ''trading''
           in do {
             symbols \<leftarrow> cj_strings J t ''symbols'' (tc_symbols c);
             order_cooldown_ns \<leftarrow> cj_u64 J t ''order_cooldown_ns'' (tc_order_cooldown_ns c);
             Some \<lparr>tc_symbols = symbols, tc_order_cooldown_ns = order_cooldown_ns\<rparr>
           })"

definition parseRisk :: "'j config_json \<Rightarrow> 'j \<Rightarrow> RiskConfig \<Rightarrow> RiskConfig option" where
  "parseRisk J j c =
     (if \<not> cj_contains J j ''risk'' then Some c
      else let r = cj_at J j ''risk''
           in do {
             max_position_per_symbol \<leftarrow> cj_i64 J r ''max_position_per_symbol'' (rc_max_position_per_symbol c);
             max_order_value \<leftarrow> cj_double J r ''max_order_value'' (rc_max_order_value c);
             Some \<lparr>rc_max_position_per_symbol = max_position_per_symbol, rc_max_order_value = max_order_value\<rparr>
           })"

definition parseStrategy :: "'j config_json \<Rightarrow> 'j \<Rightarrow> StrategyConfig \<Rightarrow> StrategyConfig option" where
  "parseStrategy J j c =
     (if \<not> cj_contains J j ''strategy'' then Some c
      else let s = cj_at J j ''strategy''
           in do {
             spread_offset_ticks \<leftarrow> cj_u64 J s ''spread_offset_ticks'' (sc_spread_offset_ticks c);
             order_quantity \<leftarrow> cj_i64 J s ''order_quantity'' (sc_order_quantity c);
             Some \<lparr>sc_spread_offset_ticks = spread_offset_ticks, sc_order_quantity = order_quantity\<rparr>
           })"

definition parseAlpaca :: "'j config_json \<Rightarrow> 'j \<Rightarrow> AlpacaConfig \<Rightarrow> AlpacaConfig option" where
  "parseAlpaca J j c =
     (if \<not> cj_contains J j ''alpaca'' then Some c
      else let a = cj_at J j ''alpaca''
           in do {
             base_url \<leftarrow> cj_string J a ''base_url'' (ac_base_url c);
             market_data_url \<leftarrow> cj_string J a ''market_data_url'' (ac_market_data_url c);
             fill_stream_url \<leftarrow> cj_string J a ''fill_stream_url'' (ac_fill_stream_url c);
             rate_limit_threshold \<leftarrow> cj_i64 J a ''rate_limit_threshold'' (ac_rate_limit_threshold c);
             Some \<lparr>ac_base_url = base_url, ac_market_data_url = market_data_url, ac_fill_stream_url = fill_stream_url,
               ac_rate_limit_threshold = rate_limit_threshold\<rparr>
           })"

definition parseZmq :: "'j config_json \<Rightarrow> 'j \<Rightarrow> ZmqConfig \<Rightarrow> ZmqConfig option" where
  "parseZmq J j c =
     (if \<not> cj_contains J j ''zmq'' then Some c
      else do {
        market_data_address \<leftarrow> cj_string J (cj_at J j ''zmq'') ''market_data_address'' (zc_market_data_address c);
        Some \<lparr>zc_market_data_address = market_data_address\<rparr>
      })"

definition parseThreading :: "'j config_json \<Rightarrow> 'j \<Rightarrow> ThreadingConfig \<Rightarrow> ThreadingConfig option" where
  "parseThreading J j c =
     (if \<not> cj_contains J j ''threading'' then Some c
      else let th = cj_at J j ''threading''
           in do {
             gateway_core \<leftarrow> cj_u32 J th ''gateway_core'' (th_gateway_core c);
             market_pipeline_core \<leftarrow> cj_u32 J th ''market_pipeline_core'' (th_market_pipeline_core c);
             consumer_core_start \<leftarrow> cj_u32 J th ''consumer_core_start'' (th_consumer_core_start c);
             Some \<lparr>th_gateway_core = gateway_core, th_market_pipeline_core = market_pipeline_core,
               th_consumer_core_start = consumer_core_start\<rparr>
           })"

text \<open>All sections, in order; \<^const>\<open>None\<close> when one of them throws.\<close>

definition parse_sections :: "'j config_json \<Rightarrow> 'j \<Rightarrow> AppConfig \<Rightarrow> AppConfig option" where
  "parse_sections J j config = do {
     trading \<leftarrow> parseTrading J j (cfg_trading config);
     risk \<leftarrow> parseRisk J j (cfg_risk config);
     strategy \<leftarrow> parseStrategy J j (cfg_strategy config);
     alpaca \<leftarrow> parseAlpaca J j (cfg_alpaca config);
     zmq \<leftarrow> parseZmq J j (cfg_zmq config);
     threading \<leftarrow> parseThreading J j (cfg_threading config);
     Some \<lparr>cfg_trading = trading, cfg_risk = risk, cfg_strategy = strategy, cfg_alpaca = alpaca, cfg_zmq = zmq,
       cfg_threading = threading\<rparr>
   }"

section \<open>Validation and loading\<close>

datatype config_error = ConfigNotFound string | CannotOpen string | RootNotObject | ConfigParseError
  | MaxPositionNotPositive | MaxOrderValueNotPositive | OrderQuantityNotPositive | SpreadOffsetZero | DuplicateSymbols
  | ConfigRequiresPath | SymbolsRequiresList | UnknownOption string | SymbolTooLong string | NoSymbols

text \<open>\<open>std::ranges::adjacent_find\<close>: two equal neighbours exist.\<close>

fun adjacent_equal :: "'a list \<Rightarrow> bool" where
  "adjacent_equal (x # y # zs) \<longleftrightarrow> x = y \<or> adjacent_equal (y # zs)"
| "adjacent_equal xs \<longleftrightarrow> False"

definition validateConfig :: "AppConfig \<Rightarrow> config_error option" where
  "validateConfig config =
     (if rc_max_position_per_symbol (cfg_risk config) \<le> 0 then Some MaxPositionNotPositive
      else if fp_le (rc_max_order_value (cfg_risk config)) (Fin 0) then Some MaxOrderValueNotPositive
      else if sc_order_quantity (cfg_strategy config) \<le> 0 then Some OrderQuantityNotPositive
      else if sc_spread_offset_ticks (cfg_strategy config) = 0 then Some SpreadOffsetZero
      else if adjacent_equal (sort (tc_symbols (cfg_trading config))) then Some DuplicateSymbols
      else None)"

record files =
  fs_exists :: "string \<Rightarrow> bool"
  fs_read :: "string \<Rightarrow> string option"

definition with_address :: "AppConfig \<Rightarrow> AppConfig" where
  "with_address config = config\<lparr>cfg_zmq := \<lparr>zc_market_data_address = getZmqMarketDataAddress\<rparr>\<rparr>"

definition loadConfig :: "'j config_json \<Rightarrow> files \<Rightarrow> string option \<Rightarrow> config_error + AppConfig" where
  "loadConfig J fs path =
     (let file_path = (case path of Some p \<Rightarrow> p | None \<Rightarrow> ''config.json'')
      in if \<not> fs_exists fs file_path
         then (case path of Some p \<Rightarrow> Inl (ConfigNotFound p) | None \<Rightarrow> Inr (with_address default_config))
         else case fs_read fs file_path of
           None \<Rightarrow> Inl (CannotOpen file_path)
         | Some content \<Rightarrow>
             (case cj_parse J content of
                None \<Rightarrow> Inl ConfigParseError
              | Some j \<Rightarrow>
                  if \<not> cj_is_object J j then Inl RootNotObject
                  else case parse_sections J j default_config of
                    None \<Rightarrow> Inl ConfigParseError
                  | Some config \<Rightarrow>
                      let config = (if zc_market_data_address (cfg_zmq config) = [] then with_address config else config)
                      in case validateConfig config of Some e \<Rightarrow> Inl e | None \<Rightarrow> Inr config))"

section \<open>The command line\<close>

record CliArgs =
  cli_config_path :: "string option"
  cli_symbols :: "string option"

text \<open>The loop over \<open>argv[1..]\<close>.\<close>

fun parse_args :: "string list \<Rightarrow> CliArgs \<Rightarrow> config_error + CliArgs" where
  "parse_args [] args = Inr args"
| "parse_args (arg # rest) args =
     (if arg = ''--config''
      then (case rest of [] \<Rightarrow> Inl ConfigRequiresPath | v # rest \<Rightarrow> parse_args rest (args\<lparr>cli_config_path := Some v\<rparr>))
      else if arg = ''--symbols''
      then (case rest of [] \<Rightarrow> Inl SymbolsRequiresList | v # rest \<Rightarrow> parse_args rest (args\<lparr>cli_symbols := Some v\<rparr>))
      else if take 2 arg = ''--'' then Inl (UnknownOption arg)
      else parse_args rest args)"

definition parseArgs :: "string list \<Rightarrow> config_error + CliArgs" where
  "parseArgs argv = parse_args (tl argv) \<lparr>cli_config_path = None, cli_symbols = None\<rparr>"

text \<open>\<open>std::getline\<close> until the stream is exhausted: an empty rest gives no further line.\<close>

function getlines :: "char \<Rightarrow> string \<Rightarrow> string list" where
  "getlines d s =
     (if s = [] then [] else takeWhile (\<lambda>c. c \<noteq> d) s # getlines d (tl (dropWhile (\<lambda>c. c \<noteq> d) s)))"
  by auto
termination
proof (relation "measure (\<lambda>(d, s). length s)")
  show "((d, tl (dropWhile (\<lambda>c. c \<noteq> d) s)), (d, s)) \<in> measure (\<lambda>(d, s). length s)" if "s \<noteq> []" for d and s :: string
    using that length_dropWhile_le [of "\<lambda>c. c \<noteq> d" s] by (cases s) (auto simp: less_Suc_eq_le)
qed simp

declare getlines.simps [simp del]

fun collect_symbols :: "string list \<Rightarrow> config_error + string list" where
  "collect_symbols [] = Inr []"
| "collect_symbols (symb # rest) =
     (if symb = [] then collect_symbols rest
      else if length symb > 8 then Inl (SymbolTooLong symb)
      else case collect_symbols rest of Inl e \<Rightarrow> Inl e | Inr symbols \<Rightarrow> Inr (symb # symbols))"

definition applySymbolsOverride :: "AppConfig \<Rightarrow> string \<Rightarrow> config_error + AppConfig" where
  "applySymbolsOverride config csv =
     (case collect_symbols (getlines CHR '','' csv) of
        Inl e \<Rightarrow> Inl e
      | Inr symbols \<Rightarrow>
          if symbols = [] then Inl NoSymbols
          else Inr (config\<lparr>cfg_trading := (cfg_trading config)\<lparr>tc_symbols := symbols\<rparr>\<rparr>))"

text \<open>\<open>main\<close> up to the construction of the engine.\<close>

definition startup :: "'j config_json \<Rightarrow> files \<Rightarrow> string list \<Rightarrow> config_error + AppConfig" where
  "startup J fs argv =
     (case parseArgs argv of
        Inl e \<Rightarrow> Inl e
      | Inr args \<Rightarrow>
          (case loadConfig J fs (cli_config_path args) of
             Inl e \<Rightarrow> Inl e
           | Inr config \<Rightarrow>
               (case (case cli_symbols args of None \<Rightarrow> Inr config | Some csv \<Rightarrow> applySymbolsOverride config csv) of
                  Inl e \<Rightarrow> Inl e
                | Inr config \<Rightarrow> (case validateConfig config of Some e \<Rightarrow> Inl e | None \<Rightarrow> Inr config))))"

section \<open>Properties\<close>

lemma adjacent_equal_sorted: "sorted xs \<Longrightarrow> adjacent_equal xs \<longleftrightarrow> \<not> distinct xs"
proof (induction xs rule: adjacent_equal.induct)
  case (1 x y zs)
  have "x \<in> set zs \<Longrightarrow> x = y" using 1(2) by (auto intro: order_antisym)
  then show ?case using 1 by auto
qed simp_all

definition valid_config :: "AppConfig \<Rightarrow> bool" where
  "valid_config config \<longleftrightarrow> 0 < rc_max_position_per_symbol (cfg_risk config) \<and>
     \<not> fp_le (rc_max_order_value (cfg_risk config)) (Fin 0) \<and> 0 < sc_order_quantity (cfg_strategy config) \<and>
     0 < sc_spread_offset_ticks (cfg_strategy config) \<and> distinct (tc_symbols (cfg_trading config))"

lemma validateConfig_iff: "validateConfig config = None \<longleftrightarrow> valid_config config"
proof -
  have "adjacent_equal (sort (tc_symbols (cfg_trading config))) \<longleftrightarrow> \<not> distinct (tc_symbols (cfg_trading config))"
    by (simp add: adjacent_equal_sorted)
  then show ?thesis by (auto simp: validateConfig_def valid_config_def word_gt_0)
qed

text \<open>Validation by sorting is validation: the sequence of checks, with its sort and search for equal neighbours,
  accepts a configuration exactly when the limits, the order quantity and the offset are positive and no
  symbol is listed twice.\<close>

theorem validation_exact:
  "validateConfig config = None \<longleftrightarrow>
     0 < rc_max_position_per_symbol (cfg_risk config) \<and> \<not> fp_le (rc_max_order_value (cfg_risk config)) (Fin 0) \<and>
     0 < sc_order_quantity (cfg_strategy config) \<and> 0 < sc_spread_offset_ticks (cfg_strategy config) \<and>
     distinct (tc_symbols (cfg_trading config))"
  by (simp add: validateConfig_iff valid_config_def)

lemma collect_symbols_ok: "collect_symbols ss = Inr symbols \<Longrightarrow> \<forall>symb \<in> set symbols. symb \<noteq> [] \<and> length symb \<le> 8"
  by (induction ss arbitrary: symbols) (auto split: if_splits sum.splits)

lemma applySymbolsOverride_ok:
  "applySymbolsOverride config csv = Inr config' \<Longrightarrow> tc_symbols (cfg_trading config') \<noteq> [] \<and>
     (\<forall>symb \<in> set (tc_symbols (cfg_trading config')). symb \<noteq> [] \<and> length symb \<le> 8) \<and> cfg_zmq config' = cfg_zmq config"
  by (auto simp: applySymbolsOverride_def split: sum.splits if_splits dest!: collect_symbols_ok)

lemma loadConfig_address: "loadConfig J fs path = Inr config \<Longrightarrow> zc_market_data_address (cfg_zmq config) \<noteq> []"
  by (auto simp: loadConfig_def with_address_def getZmqMarketDataAddress_def Let_def split: if_splits option.splits)

text \<open>No engine starts on a bad configuration: whatever the command line and the configuration file, when start-up reaches
  the construction of the engine the limits, the order quantity and the offset are positive, no symbol is
  listed twice, there is an address for market data, and symbols given on the command line are there and
  have 1 to 8 characters. Every other case ends in one of the error values.\<close>

theorem startup_config_valid:
  assumes "startup J fs argv = Inr config"
  shows "0 < rc_max_position_per_symbol (cfg_risk config) \<and> \<not> fp_le (rc_max_order_value (cfg_risk config)) (Fin 0) \<and>
     0 < sc_order_quantity (cfg_strategy config) \<and> 0 < sc_spread_offset_ticks (cfg_strategy config) \<and>
     distinct (tc_symbols (cfg_trading config)) \<and> zc_market_data_address (cfg_zmq config) \<noteq> [] \<and>
     (\<forall>args. parseArgs argv = Inr args \<and> cli_symbols args \<noteq> None \<longrightarrow>
       tc_symbols (cfg_trading config) \<noteq> [] \<and> (\<forall>symb \<in> set (tc_symbols (cfg_trading config)). symb \<noteq> [] \<and> length symb \<le> 8))"
proof -
  obtain args c0 where a: "parseArgs argv = Inr args" "loadConfig J fs (cli_config_path args) = Inr c0"
    "(case cli_symbols args of None \<Rightarrow> Inr c0 | Some csv \<Rightarrow> applySymbolsOverride c0 csv) = Inr config" "validateConfig config = None"
    using assms by (auto simp: startup_def split: sum.splits option.splits)
  have "valid_config config" using a(4) by (simp add: validateConfig_iff)
  then show ?thesis
    using a loadConfig_address [OF a(2)] applySymbolsOverride_ok [of c0 _ config]
    by (auto simp: valid_config_def split: option.splits)
qed

definition no_files :: files where
  "no_files = \<lparr>fs_exists = (\<lambda>_. False), fs_read = (\<lambda>_. None)\<rparr>"

definition no_json :: "unit config_json" where
  "no_json = \<lparr>cj_parse = (\<lambda>_. None), cj_is_object = (\<lambda>_. False), cj_contains = (\<lambda>_ _. False), cj_at = (\<lambda>j _. j),
     cj_strings = (\<lambda>_ _ d. Some d), cj_string = (\<lambda>_ _ d. Some d), cj_u64 = (\<lambda>_ _ d. Some d), cj_u32 = (\<lambda>_ _ d. Some d),
     cj_i64 = (\<lambda>_ _ d. Some d), cj_double = (\<lambda>_ _ d. Some d)\<rparr>"

lemma startup_run: "startup no_json no_files [''engine'', ''--symbols'', ''MSFT,,AAPL''] =
    Inr ((with_address default_config)\<lparr>cfg_trading := \<lparr>tc_symbols = [''MSFT'', ''AAPL''], tc_order_cooldown_ns = 100000000\<rparr>\<rparr>)"
proof -
  let ?c = "(with_address default_config)\<lparr>cfg_trading := \<lparr>tc_symbols = [''MSFT'', ''AAPL''], tc_order_cooldown_ns = 100000000\<rparr>\<rparr>"
  have v: "validateConfig ?c = None"
    by (simp only: validateConfig_iff) (simp add: valid_config_def with_address_def default_config_def)
  have o: "applySymbolsOverride (with_address default_config) ''MSFT,,AAPL'' = Inr ?c"
    by (simp add: applySymbolsOverride_def getlines.simps with_address_def default_config_def)
  show ?thesis
    using v o by (simp add: startup_def parseArgs_def loadConfig_def no_files_def)
qed

theorem startup_config_valid_witness:
  "\<exists>config. startup no_json no_files [''engine'', ''--symbols'', ''MSFT,,AAPL''] = Inr config \<and>
    tc_symbols (cfg_trading config) = [''MSFT'', ''AAPL''] \<and> distinct (tc_symbols (cfg_trading config))"
  using startup_config_valid [OF startup_run] startup_run by simp

section \<open>Symbol lists\<close>

fun join_symbols :: "string list \<Rightarrow> string" where
  "join_symbols [] = []"
| "join_symbols [s] = s"
| "join_symbols (s # t # ss) = s @ CHR '','' # join_symbols (t # ss)"

lemma getlines_line:
  assumes "s \<noteq> []" and "d \<notin> set s"
  shows "getlines d s = [s]"
proof -
  have free: "dropWhile (\<lambda>c. c \<noteq> d) s = []" "takeWhile (\<lambda>c. c \<noteq> d) s = s"
    using assms(2) by (auto simp: dropWhile_eq_Nil_conv takeWhile_eq_all_conv)
  have "getlines d [] = []" by (simp add: getlines.simps)
  then show ?thesis using assms(1) by (subst getlines.simps) (simp only: free list.sel if_False)
qed

lemma getlines_cons: "d \<notin> set s \<Longrightarrow> getlines d (s @ d # rest) = s # getlines d rest"
  by (subst getlines.simps) (simp add: takeWhile_tail dropWhile_append)

text \<open>The symbol list of the command line reads back: joining any non-empty list of symbols of 1 to 8 characters
  without commas and passing it to \<open>--symbols\<close> gives exactly that list.\<close>

theorem symbols_roundtrip:
  assumes "ss \<noteq> []" and "\<forall>s \<in> set ss. s \<noteq> [] \<and> length s \<le> 8 \<and> CHR '','' \<notin> set s"
  shows "applySymbolsOverride config (join_symbols ss) = Inr (config\<lparr>cfg_trading := (cfg_trading config)\<lparr>tc_symbols := ss\<rparr>\<rparr>)"
proof -
  have "getlines CHR '','' (join_symbols ss) = ss" using assms
  proof (induction ss rule: join_symbols.induct)
    case (3 s t ss)
    then show ?case using getlines_cons [of "CHR '',''" s] by simp
  qed (simp_all add: getlines_line)
  moreover have "collect_symbols ss = Inr ss" using assms(2) by (induction ss) auto
  ultimately show ?thesis using assms(1) by (simp add: applySymbolsOverride_def)
qed

theorem symbols_roundtrip_witness:
  "applySymbolsOverride default_config (join_symbols [''MSFT'', ''AAPL'']) =
     Inr (default_config\<lparr>cfg_trading := (cfg_trading default_config)\<lparr>tc_symbols := [''MSFT'', ''AAPL'']\<rparr>\<rparr>)"
  by (rule symbols_roundtrip) simp_all

end
