(* ===== verification/Trading_Engine.thy ===== *)
theory Trading_Engine
  imports Order_Flow Order_Gateway Fill_Booking Market_Pipeline App_Config
begin

text \<open>
  \<open>TradingEngine\<close> (\<open>include/TradingEngine.hpp\<close>, \<open>src/TradingEngine.cpp\<close>): the construction of the components from
  the configuration, the launch of the consumers, and the engine at work as an interleaving of the steps of
  its threads over the objects they share. A step of a thread is one whole operation of its component: one
  turn of a consumer, one order of the gateway, one message of the fill listener or of the market data
  source. The threads themselves, their start, end and joining, are in \<open>Engine_Lifecycle\<close>.
\<close>

section \<open>State\<close>

text \<open>The shared objects, and what each thread keeps for itself. In \<open>te_listener\<close> the fields of the shared
  objects are not used; \<open>listener_of\<close> puts the current ones there.\<close>

record ('r, 'm, 'h, 'z) TradingEngine =
  te_is_running :: bool
  te_config :: AppConfig
  te_symbols :: "string list"
  te_latency :: "'h LatencyTracker"
  te_pm :: PositionManager
  te_cooldown :: OrderCooldown
  te_risk :: RiskManager
  te_tracker :: 'm
  te_queue :: "Order Queue"
  te_gateway :: "('r, 'm, 'h) Gateway"
  te_listener :: "('r, 'm, 'h) FillListener"
  te_publisher :: "'z MarketDataPipeline"
  te_strategies :: "SimpleMarketMakingStrategy list"

datatype engine_error = LatencyTrackerFailed | CredentialsNotSet | ConsumerSymbolTooLong string

text \<open>The constructor. \<open>no_orders\<close> is the empty concurrent map, \<open>sink\<close> the unbound publisher socket; the
  credentials come from the environment.\<close>

definition zero_MarketEvent :: MarketEvent where
  "zero_MarketEvent = \<lparr>ev_eventType = 0, ev_symbol = replicate 8 NUL, ev_timestamp = 0, ev_p1 = 0, ev_s1 = 0, ev_p2 = 0,
     ev_s2 = 0, ev_arrivedAt = 0\<rparr>"

definition new_TradingEngine :: "'h hdr_api \<Rightarrow> 'm \<Rightarrow> 'z \<Rightarrow> string option \<times> string option \<Rightarrow> AppConfig \<Rightarrow> 'r \<Rightarrow> 'r option \<Rightarrow>
    engine_error + ('r, 'm, 'h, 'z) TradingEngine" where
  "new_TradingEngine H no_orders sink credentials config rest_client reconciliation_client =
     (let symbols = tc_symbols (cfg_trading config)
      in case new_LatencyTracker H of
           None \<Rightarrow> Inl LatencyTrackerFailed
         | Some latency \<Rightarrow>
             (let pm = registerAll symbols new_PositionManager;
                  cooldown = cooldown_registerAll symbols (new_OrderCooldown (tc_order_cooldown_ns (cfg_trading config)));
                  risk = new_RiskManager (rc_max_position_per_symbol (cfg_risk config)) (rc_max_order_value (cfg_risk config))
              in case credentials of
                   (Some api_key, Some api_secret) \<Rightarrow>
                     Inr \<lparr>te_is_running = True, te_config = config, te_symbols = symbols, te_latency = latency, te_pm = pm,
                       te_cooldown = cooldown, te_risk = risk, te_tracker = no_orders, te_queue = new_Queue zero_Order,
                       te_gateway = the (new_OrderGateway (Some (new_Queue zero_Order)) (Some rest_client) (Some pm) (Some no_orders) (Some latency)),
                       te_listener = the (new_FillListener (Some pm) api_key api_secret (Some no_orders) (Some latency) reconciliation_client),
                       te_publisher = new_MarketDataPipeline (new_AlpacaWebSocketSource api_key api_secret symbols)
                         \<lparr>md_event_buffer = zero_MarketEvent, md_on_auth_success = False\<rparr> sink,
                       te_strategies = []\<rparr>
                 | _ \<Rightarrow> Inl CredentialsNotSet))"

text \<open>The loop of \<open>launch_consumers\<close>: one consumer per symbol, each with a strategy of its own; a consumer that
  cannot be constructed ends the run.\<close>

fun launch_loop :: "string list \<Rightarrow> ('r, 'm, 'h, 'z) TradingEngine \<Rightarrow> engine_error + ('r, 'm, 'h, 'z) TradingEngine" where
  "launch_loop [] E = Inr E"
| "launch_loop (symb # symbols) E =
     (case new_Consumer symb of
        None \<Rightarrow> Inl (ConsumerSymbolTooLong symb)
      | Some _ \<Rightarrow> launch_loop symbols (E\<lparr>te_strategies := te_strategies E @ [default_strategy]\<rparr>))"

definition launch_consumers :: "('r, 'm, 'h, 'z) TradingEngine \<Rightarrow> engine_error + ('r, 'm, 'h, 'z) TradingEngine" where
  "launch_consumers E = launch_loop (te_symbols E) E"

text \<open>The core a consumer's thread is pinned to.\<close>

definition consumer_core :: "u32 \<Rightarrow> u32 \<Rightarrow> u32 \<Rightarrow> u32" where
  "consumer_core max_cores consumer_core_start i =
     (if max_cores > 0 then (i + consumer_core_start) mod max_cores else i + consumer_core_start)"

definition stop :: "('r, 'm, 'h, 'z) TradingEngine \<Rightarrow> ('r, 'm, 'h, 'z) TradingEngine" where
  "stop E = E\<lparr>te_is_running := False\<rparr>"

section \<open>Steps of the threads\<close>

record ('r, 'm, 'h, 'z, 'j) engine_env =
  ee_hdr :: "'h hdr_api"
  ee_slots :: "'m slot_map"
  ee_rest :: "'r IRestClient"
  ee_json :: "'j json_api"
  ee_alloc :: "Order Queue \<Rightarrow> addr"
  ee_parse :: "string \<Rightarrow> sax list"
  ee_zmq :: "'z zmq_pub"
  ee_pages :: nat

definition consumer_of :: "nat \<Rightarrow> ('r, 'm, 'h, 'z) TradingEngine \<Rightarrow> (SimpleMarketMakingStrategy, Order Queue, 'h) Consumer" where
  "consumer_of i E = \<lparr>mc_strategy = te_strategies E ! i, mc_risk = te_risk E, mc_objects = (Some (te_cooldown E), Some (te_pm E)),
     mc_latency = Some (te_latency E), mc_orders = te_queue E\<rparr>"

definition gateway_of :: "('r, 'm, 'h, 'z) TradingEngine \<Rightarrow> ('r, 'm, 'h) Gateway" where
  "gateway_of E = (te_gateway E)\<lparr>gw_pm := te_pm E, gw_tracker := Some (te_tracker E), gw_latency := Some (te_latency E)\<rparr>"

definition listener_of :: "('r, 'm, 'h, 'z) TradingEngine \<Rightarrow> ('r, 'm, 'h) FillListener" where
  "listener_of E = (te_listener E)\<lparr>fl_pm := te_pm E, fl_tracker := Some (te_tracker E), fl_latency := Some (te_latency E)\<rparr>"

definition put_consumer :: "nat \<Rightarrow> (SimpleMarketMakingStrategy, Order Queue, 'h) Consumer \<Rightarrow> ('r, 'm, 'h, 'z) TradingEngine \<Rightarrow>
    ('r, 'm, 'h, 'z) TradingEngine" where
  "put_consumer i C E = E\<lparr>te_strategies := (te_strategies E)[i := mc_strategy C],
     te_cooldown := the (fst (mc_objects C)), te_pm := the (snd (mc_objects C)), te_latency := the (mc_latency C),
     te_queue := mc_orders C\<rparr>"

definition put_gateway :: "('r, 'm, 'h) Gateway \<Rightarrow> ('r, 'm, 'h, 'z) TradingEngine \<Rightarrow> ('r, 'm, 'h, 'z) TradingEngine" where
  "put_gateway gw E = E\<lparr>te_gateway := gw, te_pm := gw_pm gw, te_tracker := the (gw_tracker gw), te_latency := the (gw_latency gw)\<rparr>"

definition put_listener :: "('r, 'm, 'h) FillListener \<Rightarrow> ('r, 'm, 'h, 'z) TradingEngine \<Rightarrow> ('r, 'm, 'h, 'z) TradingEngine" where
  "put_listener L E = E\<lparr>te_listener := L, te_pm := fl_pm L, te_tracker := the (fl_tracker L), te_latency := the (fl_latency L)\<rparr>"

datatype engine_action =
    ConsumerTurn nat turn
  | GatewayTurn "u64 \<times> u64"
  | FillMessage u64 string ws_message
  | MarketMessage u64 ws_message
  | Signal

text \<open>\<^const>\<open>None\<close>: no such consumer, or undefined behaviour of the component. A turn of the gateway that finds no
  order, or finds the engine stopped, leaves everything but the queue alone.\<close>

primrec engine_exec :: "('r, 'm, 'h, 'z, 'j) engine_env \<Rightarrow> engine_action \<Rightarrow> ('r, 'm, 'h, 'z) TradingEngine \<Rightarrow>
    ('r, 'm, 'h, 'z) TradingEngine option" where
  "engine_exec X (ConsumerTurn i tu) E =
     (if i < length (te_strategies E) \<and> te_is_running E
      then map_option (\<lambda>C. put_consumer i C E)
        (consumer_turn onMarketEvent (OrderQueuePusher (ee_alloc X)) (ee_hdr X) tu (consumer_of i E))
      else None)"
| "engine_exec X (GatewayTurn stamps) E = do {
     (r, q) \<leftarrow> wait_and_pop_turn (Some (te_is_running E)) (te_queue E);
     (case r of
        Popped ord \<Rightarrow> map_option (\<lambda>gw. put_gateway gw (E\<lparr>te_queue := q\<rparr>))
          (handle_order \<lparr>env_rest = ee_rest X, env_slots = ee_slots X, env_hdr = ee_hdr X\<rparr> stamps ord (gateway_of E))
      | Again \<Rightarrow> Some (E\<lparr>te_queue := q\<rparr>)
      | Stopped \<Rightarrow> Some (E\<lparr>te_queue := q\<rparr>))
   }"
| "engine_exec X (FillMessage now now_iso msg) E =
     map_option (\<lambda>(threw, L). put_listener L E)
       (Fill_Listener.onMessage \<lparr>le_json = ee_json X, le_rest = ee_rest X, le_slots = ee_slots X, le_hdr = ee_hdr X,
          le_pages = ee_pages X, le_now = now, le_now_iso = now_iso\<rparr> (te_is_running E) msg (listener_of E))"
| "engine_exec X (MarketMessage now msg) E =
     map_option (\<lambda>P. E\<lparr>te_publisher := P\<rparr>)
       (Market_Pipeline.onMessage (ee_parse X) (ee_zmq X) (te_is_running E) now msg (te_publisher E))"
| "engine_exec X Signal E = Some (stop E)"

text \<open>The events a consumer is handed name symbols as the pipeline publishes them.\<close>

primrec good_action :: "engine_action \<Rightarrow> bool" where
  "good_action (ConsumerTurn i tu) \<longleftrightarrow> (\<forall>e. event_in tu = Some e \<longrightarrow> good_symbol (ev_symbol e))"
| "good_action (GatewayTurn stamps) \<longleftrightarrow> True"
| "good_action (FillMessage now now_iso msg) \<longleftrightarrow> True"
| "good_action (MarketMessage now msg) \<longleftrightarrow> True"
| "good_action Signal \<longleftrightarrow> True"

inductive reaches :: "('r, 'm, 'h, 'z, 'j) engine_env \<Rightarrow> ('r, 'm, 'h, 'z) TradingEngine \<Rightarrow> ('r, 'm, 'h, 'z) TradingEngine \<Rightarrow> bool"
  for X :: "('r, 'm, 'h, 'z, 'j) engine_env" and E0 :: "('r, 'm, 'h, 'z) TradingEngine"
where
  start: "reaches X E0 E0"
| step: "reaches X E0 E \<Longrightarrow> good_action a \<Longrightarrow> engine_exec X a E = Some E' \<Longrightarrow> reaches X E0 E'"

section \<open>The invariant\<close>

text \<open>The strategy only buys, so every queued order is a buy.\<close>

definition good_queued :: "Order \<Rightarrow> bool" where
  "good_queued ord \<longleftrightarrow> good_symbol (ord_symbol ord) \<and> ord_side ord = Buy"

lemma order_of_side: "engine.order_of e ord \<Longrightarrow> ord_side ord = Buy"
  by (auto simp: engine.order_of_def onMarketEvent_def Let_def split: if_splits)

definition engine_inv :: "('r, 'm, 'h, 'z) TradingEngine \<Rightarrow> bool" where
  "engine_inv E \<longleftrightarrow> pm_inv (te_pm E) \<and> (\<forall>symb \<in> set (te_symbols E). tracked (te_pm E) (symbolToKey symb)) \<and>
     (\<forall>symb \<in> set (te_symbols E). valid_key (symbolToKey symb)) \<and>
     0 \<le> rm_max_position_per_symbol (te_risk E) \<and> in_i64 (rm_max_position_per_symbol (te_risk E)) \<and>
     (\<forall>st \<in> set (te_strategies E). strategy_ok st) \<and> tables_ok (te_listener E) \<and>
     (\<exists>xs. queue_rep (te_queue E) xs \<and> (\<forall>ord \<in> set xs. good_queued ord))"

text \<open>Positions moved by operations of the book.\<close>

lemma ops_keep:
  assumes "run_list apply_op ops pm = Some pm'" and "\<forall>op \<in> set ops. valid_key (op_key op)" and "pm_inv pm"
  shows "pm_inv pm'" and "valid_key k \<Longrightarrow> tracked pm k \<Longrightarrow> tracked pm' k"
  using pm_book.run_inv [OF assms(1,3,2)] pm_book.run_quantities [OF assms(1,3,2)] by blast+

lemma handle_order_pm:
  assumes "handle_order X stamps ord gw = Some gw'"
  shows "gw_pm gw' = gw_pm gw \<or> onOrderCancelled ord (gw_pm gw) = Some (gw_pm gw')"
proof -
  obtain g o' where g: "executeOrder X (snd stamps) o' g = Some gw'" "gw_pm g = gw_pm gw" "\<And>pm. onOrderCancelled o' pm = onOrderCancelled ord pm"
    using assms by (cases stamps) (auto simp: handle_order_def Let_def)
  show ?thesis
  proof (cases "placed X o' g")
    case None
    obtain rest where "executeOrder X (snd stamps) o' g = map_option (\<lambda>pm. g\<lparr>gw_rest := rest, gw_pm := pm\<rparr>) (onOrderCancelled o' (gw_pm g))"
      using executeOrder_not_placed [OF None] by blast
    then show ?thesis using g by (cases "onOrderCancelled ord (gw_pm gw)") auto
  next
    case (Some i)
    then show ?thesis using executeOrder_placed [OF Some, of "snd stamps"] g by auto
  qed
qed

lemma consumer_step_inv:
  assumes inv: "engine_inv E" and good: "\<forall>e. event_in tu = Some e \<longrightarrow> good_symbol (ev_symbol e)"
    and run: "engine_exec X (ConsumerTurn i tu) E = Some E'"
  shows "engine_inv E'"
proof -
  obtain C where C: "consumer_turn onMarketEvent (OrderQueuePusher (ee_alloc X)) (ee_hdr X) tu (consumer_of i E) = Some C"
    and i: "i < length (te_strategies E)" and E': "E' = put_consumer i C E" using run by (auto split: if_splits)
  obtain xs where xs: "queue_rep (te_queue E) xs" "\<forall>ord \<in> set xs. good_queued ord" using inv by (auto simp: engine_inv_def)
  have st: "strategy_ok (te_strategies E ! i)" using inv i by (simp add: engine_inv_def)
  have fl: "engine.flows (consumer_of i E) (te_pm E) xs"
    using inv xs(1) st by (auto simp: engine.flows_def consumer_of_def risk_inv_def engine_inv_def)
  have "run_list (consumer_turn onMarketEvent (OrderQueuePusher (ee_alloc X)) (ee_hdr X)) [tu] (consumer_of i E) = Some C" using C by simp
  from engine.consumer_turns_flow [OF this fl] good obtain pm' ys where *: "engine.flows C pm' (xs @ ys)"
    "run_list apply_op (map Sent ys) (te_pm E) = Some pm'" "\<forall>ord \<in> set ys. \<exists>e. event_in tu = Some e \<and> engine.order_of e ord"
    by auto
  have ys: "\<forall>ord \<in> set ys. good_queued ord" using *(3) good order_of_symbol order_of_side by (fastforce simp: good_queued_def)
  have v: "\<forall>op \<in> set (map Sent ys). valid_key (op_key op)" using ys by (auto simp: good_queued_def good_symbol_def)
  obtain cd where C': "mc_objects C = (cd, Some pm')" "strategy_ok (mc_strategy C)" "queue_rep (mc_orders C) (xs @ ys)"
    using *(1) by (auto simp: engine.flows_def)
  have pm: "pm_inv (te_pm E)" using inv by (simp add: engine_inv_def)
  have "\<forall>st \<in> set ((te_strategies E)[i := mc_strategy C]). strategy_ok st"
    using inv C'(2) set_update_subset_insert [of "te_strategies E" i "mc_strategy C"] by (auto simp: engine_inv_def)
  moreover have "\<exists>zs. queue_rep (mc_orders C) zs \<and> (\<forall>ord \<in> set zs. good_queued ord)"
    using C'(3) xs(2) ys by (intro exI [of _ "xs @ ys"]) auto
  ultimately show ?thesis
    using inv C'(1) ops_keep [OF *(2) v pm] by (auto simp: E' engine_inv_def put_consumer_def)
qed

lemma gateway_step_inv:
  assumes inv: "engine_inv E" and run: "engine_exec X (GatewayTurn stamps) E = Some E'"
  shows "engine_inv E'"
proof -
  obtain xs where xs: "queue_rep (te_queue E) xs" "\<forall>ord \<in> set xs. good_queued ord" using inv by (auto simp: engine_inv_def)
  obtain r q where rq: "wait_and_pop_turn (Some (te_is_running E)) (te_queue E) = Some (r, q)" using run by (auto simp: bind_eq_Some_conv)
  note pop = wait_and_pop_refines [OF xs(1), of "Some (te_is_running E)"]
  show ?thesis
  proof (cases r)
    case (Popped ord)
    obtain gw where gw: "handle_order \<lparr>env_rest = ee_rest X, env_slots = ee_slots X, env_hdr = ee_hdr X\<rparr> stamps ord (gateway_of E) = Some gw"
      "E' = put_gateway gw (E\<lparr>te_queue := q\<rparr>)" using run rq Popped by auto
    obtain ys where ys: "xs = ord # ys" "queue_rep q ys" using pop rq Popped by (cases xs) (auto split: if_splits)
    have k: "valid_key (ord_key ord)" using ys(1) xs(2) by (simp add: good_queued_def good_symbol_def)
    have pm: "pm_inv (te_pm E)" using inv by (simp add: engine_inv_def)
    have "gw_pm gw = te_pm E \<or> onOrderCancelled ord (te_pm E) = Some (gw_pm gw)"
      using handle_order_pm [OF gw(1)] by (simp add: gateway_of_def)
    then have "\<exists>ops. run_list apply_op ops (te_pm E) = Some (gw_pm gw) \<and> (\<forall>op \<in> set ops. valid_key (op_key op))"
      using k by (auto intro: exI [of _ "[]"] exI [of _ "[Cancelled ord]"])
    then obtain ops where "run_list apply_op ops (te_pm E) = Some (gw_pm gw)" "\<forall>op \<in> set ops. valid_key (op_key op)" by blast
    from ops_keep [OF this pm] show ?thesis
      using inv ys xs(2) by (auto simp: gw(2) engine_inv_def put_gateway_def)
  next
    case Again
    then have "E' = E\<lparr>te_queue := q\<rparr>" "q = te_queue E" using run rq pop by (cases xs; auto split: if_splits)+
    then show ?thesis using inv by simp
  next
    case Stopped
    then have "E' = E\<lparr>te_queue := q\<rparr>" "q = te_queue E" using run rq pop by (cases xs; auto split: if_splits)+
    then show ?thesis using inv by simp
  qed
qed

text \<open>What the engine relies on of the outside code: text from the JSON library and from the REST client.\<close>

definition text_env :: "('r, 'm, 'h, 'z, 'j) engine_env \<Rightarrow> bool" where
  "text_env X \<longleftrightarrow> text_client (ee_rest X) \<and> (\<forall>j. text_symbol (js_get_string (ee_json X) j))"

lemma listener_step_inv:
  assumes inv: "engine_inv E" and X: "text_env X" and run: "engine_exec X (FillMessage now now_iso msg) E = Some E'"
  shows "engine_inv E'"
proof -
  let ?X = "\<lparr>le_json = ee_json X, le_rest = ee_rest X, le_slots = ee_slots X, le_hdr = ee_hdr X,
    le_pages = ee_pages X, le_now = now, le_now_iso = now_iso\<rparr>"
  obtain threw L where L: "Fill_Listener.onMessage ?X (te_is_running E) msg (listener_of E) = Some (threw, L)" "E' = put_listener L E"
    using run by auto
  have "tables_ok (listener_of E)" using inv by (simp add: engine_inv_def listener_of_def tables_ok_def)
  then have t: "tables_ok L" using onMessage_tables L(1) by blast
  have "booked (listener_of E) L" using X by (intro onMessage_booked [OF L(1)]) (simp_all add: text_env_def)
  then obtain ops where ops: "run_list apply_op ops (te_pm E) = Some (fl_pm L)" "\<forall>op \<in> set ops. valid_key (op_key op)"
    by (auto simp: booked_def listener_of_def)
  have pm: "pm_inv (te_pm E)" using inv by (simp add: engine_inv_def)
  show ?thesis using ops_keep [OF ops pm] inv t by (simp add: L(2) engine_inv_def put_listener_def)
qed

lemma engine_exec_inv:
  assumes "engine_inv E" and "text_env X" and "good_action a" and "engine_exec X a E = Some E'"
  shows "engine_inv E'"
proof (cases a)
  case (ConsumerTurn i tu)
  then show ?thesis using consumer_step_inv [OF assms(1)] assms(3,4) by simp
next
  case (GatewayTurn stamps)
  then show ?thesis using gateway_step_inv [OF assms(1)] assms(4) by blast
next
  case (FillMessage now now_iso msg)
  then show ?thesis using listener_step_inv [OF assms(1,2)] assms(4) by blast
qed (use assms in \<open>auto simp: engine_inv_def stop_def\<close>)

lemma engine_exec_symbols:
  assumes "engine_exec X a E = Some E'"
  shows "te_symbols E' = te_symbols E"
proof (cases a)
  case (GatewayTurn stamps)
  then obtain r q where rq: "wait_and_pop_turn (Some (te_is_running E)) (te_queue E) = Some (r, q)"
    using assms by (auto simp: bind_eq_Some_conv)
  then show ?thesis using assms GatewayTurn by (cases r) (auto simp: put_gateway_def)
qed (use assms in \<open>auto simp: put_consumer_def put_listener_def stop_def split: if_splits\<close>)

lemma reaches_inv:
  assumes "reaches X E0 E" and "text_env X" and "engine_inv E0"
  shows "engine_inv E \<and> te_symbols E = te_symbols E0"
  using assms by (induction rule: reaches.induct) (auto intro: engine_exec_inv dest: engine_exec_symbols)

lemma launch_loop_strategies:
  "launch_loop symbols E = Inr E' \<longleftrightarrow> (\<forall>symb \<in> set symbols. length symb \<le> 8) \<and>
     E' = E\<lparr>te_strategies := te_strategies E @ map (\<lambda>_. default_strategy) symbols\<rparr>"
  by (induction symbols arbitrary: E) (auto simp: new_Consumer_def)

lemma default_strategy_ok: "strategy_ok default_strategy"
  by (simp add: strategy_ok_def default_strategy_def new_SimpleMarketMakingStrategy_def in_i64_def)

lemma constructed_engine_inv:
  assumes new: "new_TradingEngine H no_orders sink creds config rest recon = Inr E0"
    and valid: "valid_config config" "in_i64 (rc_max_position_per_symbol (cfg_risk config))"
    and keys: "\<forall>symb \<in> set (tc_symbols (cfg_trading config)). valid_key (symbolToKey symb)" "length (tc_symbols (cfg_trading config)) \<le> kMaxSymbols"
  shows "engine_inv E0" and "te_symbols E0 = tc_symbols (cfg_trading config)" and "te_strategies E0 = []"
proof -
  note book = fresh_book(1,2) [OF keys]
  have e0: "te_pm E0 = registerAll (tc_symbols (cfg_trading config)) new_PositionManager" "te_symbols E0 = tc_symbols (cfg_trading config)"
    "rm_max_position_per_symbol (te_risk E0) = rc_max_position_per_symbol (cfg_risk config)" "te_strategies E0 = []"
    "te_queue E0 = new_Queue zero_Order" "fl_filled_entries (te_listener E0) = []" "fl_completed_entries (te_listener E0) = []"
    using new by (auto simp: new_TradingEngine_def new_RiskManager_def new_FillListener_def Let_def split: option.splits prod.splits)
  have "\<exists>xs. queue_rep (new_Queue zero_Order) xs \<and> (\<forall>ord \<in> set xs. good_queued ord)"
    using queue_rep_new by (intro exI [of _ "[]"]) simp
  then show "engine_inv E0"
    using book keys(1) valid e0 by (auto simp: engine_inv_def tables_ok_def valid_config_def)
  show "te_symbols E0 = tc_symbols (cfg_trading config)" "te_strategies E0 = []" using e0 by simp_all
qed

lemma new_engine_inv:
  assumes "new_TradingEngine H no_orders sink creds config rest recon = Inr E0" and launch: "launch_consumers E0 = Inr E1"
    and "valid_config config" "in_i64 (rc_max_position_per_symbol (cfg_risk config))"
    and "\<forall>symb \<in> set (tc_symbols (cfg_trading config)). valid_key (symbolToKey symb)" "length (tc_symbols (cfg_trading config)) \<le> kMaxSymbols"
  shows "engine_inv E1 \<and> te_symbols E1 = tc_symbols (cfg_trading config)"
  using constructed_engine_inv [OF assms(1,3-6)] launch default_strategy_ok
  by (auto simp: launch_consumers_def launch_loop_strategies engine_inv_def)

section \<open>Properties\<close>

text \<open>C1. The engine's invariant: an engine constructed from a valid configuration of at most 256 symbols, with its consumers
  launched, keeps in every state its threads can reach, by any interleaving of consumer turns, orders of the
  gateway, fill messages (reconciliation included), market data and signals: a well-formed position table
  in which every configured symbol still has its entry, tables of order ids within their 4096 entries, and
  an order queue whose contents are well-formed buy orders (the strategy never sells).\<close>

theorem engine_invariant:
  assumes "new_TradingEngine H no_orders sink creds config rest recon = Inr E0" and "launch_consumers E0 = Inr E1"
    and "validateConfig config = None" and "in_i64 (rc_max_position_per_symbol (cfg_risk config))"
    and "\<forall>symb \<in> set (tc_symbols (cfg_trading config)). valid_key (symbolToKey symb)"
    and "length (tc_symbols (cfg_trading config)) \<le> kMaxSymbols"
    and "text_env X" and "reaches X E1 E"
  shows "pm_inv (te_pm E) \<and> (\<forall>symb \<in> set (tc_symbols (cfg_trading config)). tracked (te_pm E) (symbolToKey symb)) \<and>
    length (fl_filled_entries (te_listener E)) \<le> 4096 \<and> length (fl_completed_entries (te_listener E)) \<le> 4096 \<and>
    (\<exists>xs. queue_rep (te_queue E) xs \<and> (\<forall>ord \<in> set xs. good_symbol (ord_symbol ord) \<and> ord_side ord = Buy))"
proof -
  have "engine_inv E1 \<and> te_symbols E1 = tc_symbols (cfg_trading config)"
    using new_engine_inv [OF assms(1,2) _ assms(4-6)] assms(3) by (simp add: validateConfig_iff)
  then show ?thesis
    using reaches_inv [OF assms(8,7)] by (auto simp: engine_inv_def tables_ok_def kMaxTrackedOrders_def good_queued_def)
qed

text \<open>The strategy section of the configuration has no effect: whatever offset and quantity are configured, and
  validated, every consumer runs the strategy with its built-in offset of 100 ticks and quantity of 100.\<close>

theorem strategy_config_unused:
  assumes "new_TradingEngine H no_orders sink creds (config\<lparr>cfg_strategy := sc\<rparr>) rest recon = Inr E0"
    and "launch_consumers E0 = Inr E1"
  shows "te_strategies E1 = map (\<lambda>_. new_SimpleMarketMakingStrategy 100 100) (tc_symbols (cfg_trading config))"
proof -
  have "te_symbols E0 = tc_symbols (cfg_trading config)" "te_strategies E0 = []"
    using assms(1) by (auto simp: new_TradingEngine_def Let_def split: option.splits prod.splits)
  then show ?thesis using assms(2) by (simp add: launch_consumers_def launch_loop_strategies default_strategy_def)
qed

text \<open>A symbol of more than 8 characters in the configuration file passes the validation and stops the engine only when its
  consumer is launched, after the fill listener, the market data and the gateway have been started.\<close>

theorem long_symbol_fails_late:
  "validateConfig (default_config\<lparr>cfg_trading := \<lparr>tc_symbols = [''AAPL'', ''BRK.B.PREF''], tc_order_cooldown_ns = 0\<rparr>\<rparr>) = None \<and>
   launch_loop [''AAPL'', ''BRK.B.PREF''] E = Inl (ConsumerSymbolTooLong ''BRK.B.PREF'')"
  by (simp add: validateConfig_iff valid_config_def default_config_def new_Consumer_def)

section \<open>A concrete engine\<close>

definition one_symbol :: AppConfig where
  "one_symbol = default_config\<lparr>cfg_trading := \<lparr>tc_symbols = [''AAPL''], tc_order_cooldown_ns = 100000000\<rparr>\<rparr>"

definition demo_engine_env :: "(unit, (OrderSlotKey \<times> AlpacaOrderId) list, int list, string list, sample_json) engine_env" where
  "demo_engine_env = \<lparr>ee_hdr = demo_hdr, ee_slots = demo_slot_map, ee_rest = demo_rest Threw Threw,
     ee_json = (sample_api sample_cancel)\<lparr>js_get_string := (\<lambda>j. case j of JStr s \<Rightarrow> (if text_symbol s then s else []) | _ \<Rightarrow> [])\<rparr>,
     ee_alloc = (\<lambda>_. 2), ee_parse = (\<lambda>_. []), ee_zmq = demo_pub, ee_pages = 1\<rparr>"

lemma demo_engine_text: "text_env demo_engine_env"
  by (auto simp: text_env_def demo_engine_env_def text_client_def demo_rest_def text_symbol_def split: sample_json.splits)

lemma demo_engine:
  assumes "tc_symbols (cfg_trading config) = [''AAPL'']"
  shows "\<exists>E0 E1. new_TradingEngine demo_hdr [] [] (Some ''k'', Some ''s'') config () None =
      Inr (E0 :: (unit, (OrderSlotKey \<times> AlpacaOrderId) list, int list, string list) TradingEngine) \<and>
    launch_consumers E0 = Inr E1"
proof -
  obtain lt where lt: "new_LatencyTracker demo_hdr = Some lt"
    by (simp add: new_LatencyTracker_def demo_hdr_def kMetricCount_def upt_rec)
  have "\<exists>E0. new_TradingEngine demo_hdr [] [] (Some ''k'', Some ''s'') config () None =
      Inr (E0 :: (unit, (OrderSlotKey \<times> AlpacaOrderId) list, int list, string list) TradingEngine) \<and> te_symbols E0 = [''AAPL'']"
    using assms by (simp add: new_TradingEngine_def lt Let_def)
  then show ?thesis by (auto simp: launch_consumers_def launch_loop_strategies)
qed

theorem engine_invariant_witness:
  "\<exists>E0 E1 E. new_TradingEngine demo_hdr [] [] (Some ''k'', Some ''s'') one_symbol () None =
      Inr (E0 :: (unit, (OrderSlotKey \<times> AlpacaOrderId) list, int list, string list) TradingEngine) \<and>
    launch_consumers E0 = Inr E1 \<and> reaches demo_engine_env E1 E \<and> \<not> te_is_running E \<and>
    pm_inv (te_pm E) \<and> tracked (te_pm E) (symbolToKey ''AAPL'')"
proof -
  obtain E0 E1 where E: "new_TradingEngine demo_hdr [] [] (Some ''k'', Some ''s'') one_symbol () None =
      Inr (E0 :: (unit, (OrderSlotKey \<times> AlpacaOrderId) list, int list, string list) TradingEngine)"
    "launch_consumers E0 = Inr E1" using demo_engine [of one_symbol] by (auto simp: one_symbol_def)
  define E2 where "E2 = put_listener (if te_is_running E1 then Fill_Listener.sendAuth (listener_of E1) else listener_of E1) E1"
  have "engine_exec demo_engine_env (FillMessage 0 [] Open) E1 = Some E2"
    by (auto simp: Fill_Listener.onMessage_def E2_def)
  then have "reaches demo_engine_env E1 E2" by (rule reaches.step [OF reaches.start, rotated]) simp
  then have r: "reaches demo_engine_env E1 (stop E2)" by (rule reaches.step [of _ _ _ Signal]) simp_all
  have c: "validateConfig one_symbol = None" "in_i64 (rc_max_position_per_symbol (cfg_risk one_symbol))"
    "tc_symbols (cfg_trading one_symbol) = [''AAPL'']"
    by (simp_all add: validateConfig_iff valid_config_def one_symbol_def default_config_def in_i64_def)
  from engine_invariant [OF E c(1,2) _ _ demo_engine_text r] AAPL_syms c(3)
  show ?thesis using E r by (auto simp: stop_def intro!: exI [of _ E0] exI [of _ E1] exI [of _ "stop E2"])
qed

theorem strategy_config_unused_witness:
  "\<exists>E0 E1. new_TradingEngine demo_hdr [] [] (Some ''k'', Some ''s'')
      (one_symbol\<lparr>cfg_strategy := \<lparr>sc_spread_offset_ticks = 5, sc_order_quantity = 7\<rparr>\<rparr>) () None =
      Inr (E0 :: (unit, (OrderSlotKey \<times> AlpacaOrderId) list, int list, string list) TradingEngine) \<and>
    launch_consumers E0 = Inr E1 \<and> te_strategies E1 = [new_SimpleMarketMakingStrategy 100 100]"
proof -
  let ?c = "one_symbol\<lparr>cfg_strategy := \<lparr>sc_spread_offset_ticks = 5, sc_order_quantity = 7\<rparr>\<rparr>"
  have c: "tc_symbols (cfg_trading ?c) = [''AAPL'']" "tc_symbols (cfg_trading one_symbol) = [''AAPL'']" by (simp_all add: one_symbol_def)
  obtain E0 E1 where E: "new_TradingEngine demo_hdr [] [] (Some ''k'', Some ''s'') ?c () None =
      Inr (E0 :: (unit, (OrderSlotKey \<times> AlpacaOrderId) list, int list, string list) TradingEngine)"
    "launch_consumers E0 = Inr E1" using demo_engine [OF c(1)] by blast
  from strategy_config_unused [OF E] show ?thesis using E c(2) by (intro exI [of _ E0] exI [of _ E1]) simp
qed

end
