(* ===== verification/Engine_Lifecycle.thy ===== *)
theory Engine_Lifecycle
  imports Trading_Engine
begin

text \<open>
  The life of a \<open>TradingEngine\<close> (\<open>src/TradingEngine.cpp\<close>: \<open>run\<close>, \<open>launch_gateway\<close>, \<open>launch_consumers\<close>, \<open>main_loop\<close>,
  \<open>shutdown\<close>, the destructor), of the websocket threads it starts and stops (\<open>start\<close> and \<open>stop\<close> of
  \<open>AlpacaFillListener\<close>, \<open>AlpacaWebSocketSource\<close> and \<open>MarketDataPipeline\<close>), of the pinning of threads
  (\<open>src/ThreadPinning.cpp\<close>) and of the signal handler. The main thread takes one step at a time; between
  two of its steps the other threads take turns in any order, end, or a signal arrives. A join of a thread that
  has not ended is not enabled.
\<close>

section \<open>Pinning\<close>

datatype platform = Linux | Windows | Apple | OtherPlatform

text \<open>The constant of glibc.\<close>

definition CPU_SETSIZE :: u32 where
  "CPU_SETSIZE = 1024"

text \<open>\<open>set_affinity\<close>: whether the system call of the platform (\<open>pthread_setaffinity_np\<close>, \<open>SetThreadAffinityMask\<close>,
  \<open>thread_policy_set\<close>) accepts the core.\<close>

primrec pin_thread_to_core :: "platform \<Rightarrow> (u32 \<Rightarrow> bool) \<Rightarrow> u32 \<Rightarrow> bool" where
  "pin_thread_to_core Linux set_affinity core_id = (if core_id \<ge> CPU_SETSIZE then False else set_affinity core_id)"
| "pin_thread_to_core Windows set_affinity core_id = (if core_id \<ge> 64 then False else set_affinity core_id)"
| "pin_thread_to_core Apple set_affinity core_id = set_affinity core_id"
| "pin_thread_to_core OtherPlatform set_affinity core_id = False"

section \<open>State\<close>

datatype thread_id = ListenerThread | SourceThread | GatewayThread | ConsumerThread nat

text \<open>Not joinable; running; ended but not yet joined.\<close>

datatype thread_status = NotJoinable | Running | Ended

text \<open>Where the main thread is. The flag of the phases of \<open>shutdown\<close> says that \<open>run\<close> called it, not the destructor.\<close>

datatype life_pc = Built | ListenerUp | SinkUp | SourceUp | Launching nat | Looping
  | StopSource bool | JoinSource bool | JoinConsumers bool nat | StopListener bool | JoinListener bool | JoinGateway bool
  | Reporting bool | Unwinding | Destroyed

record ('r, 'm, 'h, 'z) lifecycle =
  lf_pc :: life_pc
  lf_engine :: "('r, 'm, 'h, 'z) TradingEngine"
  lf_is_running_ptr :: bool
  lf_shutdown_done :: bool
  lf_socket :: "socket_action list"
  lf_threads :: "thread_id \<Rightarrow> thread_status"
  lf_source_stopped :: bool
  lf_listener_stopped :: bool
  lf_pins :: "(thread_id \<times> u32 \<times> bool) list"
  lf_reports :: nat
  lf_failed :: bool

definition constructed :: "('r, 'm, 'h, 'z) TradingEngine \<Rightarrow> ('r, 'm, 'h, 'z) lifecycle" where
  "constructed E = \<lparr>lf_pc = Built, lf_engine = E, lf_is_running_ptr = True, lf_shutdown_done = False, lf_socket = [], lf_threads = (\<lambda>_. NotJoinable), lf_source_stopped = False,
     lf_listener_stopped = False, lf_pins = [], lf_reports = 0, lf_failed = False\<rparr>"

section \<open>Steps of the main thread\<close>

definition start_thread :: "(u32 \<Rightarrow> bool) \<Rightarrow> thread_id \<Rightarrow> u32 \<Rightarrow> ('r, 'm, 'h, 'z) lifecycle \<Rightarrow> ('r, 'm, 'h, 'z) lifecycle" where
  "start_thread pin t core_id s =
     s\<lparr>lf_threads := (lf_threads s)(t := Running), lf_pins := lf_pins s @ [(t, core_id, pin core_id)]\<rparr>"

definition listener_start :: "(u32 \<Rightarrow> bool) \<Rightarrow> ('r, 'm, 'h, 'z) lifecycle \<Rightarrow> ('r, 'm, 'h, 'z) lifecycle" where
  "listener_start pin s = start_thread pin ListenerThread 0 s"

definition source_start :: "(u32 \<Rightarrow> bool) \<Rightarrow> ('r, 'm, 'h, 'z) lifecycle \<Rightarrow> ('r, 'm, 'h, 'z) lifecycle" where
  "source_start pin s =
     (if lf_threads s SourceThread \<noteq> NotJoinable then s else start_thread pin SourceThread 1 s)"

definition launch_gateway :: "(u32 \<Rightarrow> bool) \<Rightarrow> ('r, 'm, 'h, 'z) lifecycle \<Rightarrow> ('r, 'm, 'h, 'z) lifecycle" where
  "launch_gateway pin s =
     start_thread pin GatewayThread (th_gateway_core (cfg_threading (te_config (lf_engine s)))) s"

text \<open>One turn of the loop of \<open>launch_consumers\<close>; \<^const>\<open>None\<close> when the constructor of the consumer throws.\<close>

definition launch_consumer :: "(u32 \<Rightarrow> bool) \<Rightarrow> u32 \<Rightarrow> bool \<Rightarrow> nat \<Rightarrow> ('r, 'm, 'h, 'z) lifecycle \<Rightarrow> ('r, 'm, 'h, 'z) lifecycle option" where
  "launch_consumer pin max_cores connects i s =
     (let E = lf_engine s
      in if new_Consumer (te_symbols E ! i) = None \<or> \<not> connects then None
         else Some (start_thread pin (ConsumerThread i)
           (consumer_core max_cores (th_consumer_core_start (cfg_threading (te_config E))) (of_nat i))
           (s\<lparr>lf_engine := E\<lparr>te_strategies := te_strategies E @ [default_strategy]\<rparr>\<rparr>)))"

definition throw :: "('r, 'm, 'h, 'z) lifecycle \<Rightarrow> ('r, 'm, 'h, 'z) lifecycle" where
  "throw s = s\<lparr>lf_pc := Unwinding, lf_failed := True\<rparr>"

text \<open>The return of \<open>shutdown\<close>, to \<open>run\<close> or to the destructor, which then clears the pointer of the signal handler.\<close>

definition leave_shutdown :: "bool \<Rightarrow> ('r, 'm, 'h, 'z) lifecycle \<Rightarrow> ('r, 'm, 'h, 'z) lifecycle" where
  "leave_shutdown from_run s =
     (if from_run then s\<lparr>lf_pc := Unwinding\<rparr> else s\<lparr>lf_is_running_ptr := False, lf_pc := Destroyed\<rparr>)"

text \<open>The body of \<open>shutdown\<close> runs once.\<close>

definition enter_shutdown :: "bool \<Rightarrow> ('r, 'm, 'h, 'z) lifecycle \<Rightarrow> ('r, 'm, 'h, 'z) lifecycle" where
  "enter_shutdown from_run s =
     (if lf_shutdown_done s then leave_shutdown from_run s
      else s\<lparr>lf_shutdown_done := True, lf_pc := StopSource from_run\<rparr>)"

text \<open>\<open>if (thread.joinable()) thread.join()\<close>.\<close>

definition join :: "thread_id \<Rightarrow> life_pc \<Rightarrow> ('r, 'm, 'h, 'z) lifecycle \<Rightarrow> ('r, 'm, 'h, 'z) lifecycle option" where
  "join t nxt s =
     (case lf_threads s t of
        NotJoinable \<Rightarrow> Some (s\<lparr>lf_pc := nxt\<rparr>)
      | Running \<Rightarrow> None
      | Ended \<Rightarrow> Some (s\<lparr>lf_threads := (lf_threads s)(t := NotJoinable), lf_pc := nxt\<rparr>))"

text \<open>The first half of \<open>stop\<close> of the websocket clients; the second half is a join.\<close>

definition stop_source :: "('r, 'm, 'h, 'z) lifecycle \<Rightarrow> ('r, 'm, 'h, 'z) lifecycle" where
  "stop_source s = s\<lparr>lf_source_stopped := True\<rparr>"

definition stop_listener :: "('r, 'm, 'h, 'z) lifecycle \<Rightarrow> ('r, 'm, 'h, 'z) lifecycle" where
  "stop_listener s = s\<lparr>lf_listener_stopped := True\<rparr>"

text \<open>One reading of the flag by \<open>main_loop\<close>, and the destructor up to the call of \<open>shutdown\<close>.\<close>

definition main_loop :: "('r, 'm, 'h, 'z) lifecycle \<Rightarrow> ('r, 'm, 'h, 'z) lifecycle" where
  "main_loop s = (if te_is_running (lf_engine s) then s else enter_shutdown True s)"

definition destroy_engine :: "('r, 'm, 'h, 'z) lifecycle \<Rightarrow> ('r, 'm, 'h, 'z) lifecycle" where
  "destroy_engine s =
     (let E = lf_engine s in enter_shutdown False (s\<lparr>lf_engine := if te_is_running E then stop E else E\<rparr>))"

record life_env =
  ve_platform :: platform
  ve_set_affinity :: "u32 \<Rightarrow> bool"
  ve_max_cores :: u32

text \<open>The next step of the main thread; \<open>ok\<close> says whether the ZeroMQ call of the step succeeds (it throws otherwise).\<close>

definition main_step :: "life_env \<Rightarrow> bool \<Rightarrow> ('r, 'm, 'h, 'z) lifecycle \<Rightarrow> ('r, 'm, 'h, 'z) lifecycle option" where
  "main_step V ok s =
     (let E = lf_engine s; pin = pin_thread_to_core (ve_platform V) (ve_set_affinity V)
      in case lf_pc s of
        Built \<Rightarrow> Some (listener_start pin s\<lparr>lf_pc := ListenerUp\<rparr>)
      | ListenerUp \<Rightarrow> Some (if ok then s\<lparr>lf_socket := sink_start (zc_market_data_address (cfg_zmq (te_config E))), lf_pc := SinkUp\<rparr> else throw s)
      | SinkUp \<Rightarrow> Some (source_start pin s\<lparr>lf_pc := SourceUp\<rparr>)
      | SourceUp \<Rightarrow> Some (launch_gateway pin s\<lparr>lf_pc := Launching 0\<rparr>)
      | Launching i \<Rightarrow>
          if i < length (te_symbols E)
          then (case launch_consumer pin (ve_max_cores V) ok i s of
                  None \<Rightarrow> Some (throw s)
                | Some s \<Rightarrow> Some (s\<lparr>lf_pc := Launching (Suc i)\<rparr>))
          else Some (s\<lparr>lf_pc := Looping\<rparr>)
      | Looping \<Rightarrow> Some (main_loop s)
      | StopSource r \<Rightarrow> Some (stop_source s\<lparr>lf_pc := JoinSource r\<rparr>)
      | JoinSource r \<Rightarrow> join SourceThread (JoinConsumers r 0) s
      | JoinConsumers r i \<Rightarrow>
          if i < length (te_strategies E) then join (ConsumerThread i) (JoinConsumers r (Suc i)) s
          else Some (s\<lparr>lf_engine := E\<lparr>te_strategies := []\<rparr>, lf_pc := StopListener r\<rparr>)
      | StopListener r \<Rightarrow> Some (stop_listener s\<lparr>lf_pc := JoinListener r\<rparr>)
      | JoinListener r \<Rightarrow> join ListenerThread (JoinGateway r) s
      | JoinGateway r \<Rightarrow> join GatewayThread (Reporting r) s
      | Reporting r \<Rightarrow> Some (leave_shutdown r (s\<lparr>lf_reports := Suc (lf_reports s)\<rparr>))
      | Unwinding \<Rightarrow> Some (destroy_engine s)
      | Destroyed \<Rightarrow> None)"

lemmas main_step_defs = main_step_def stop_source_def stop_listener_def main_loop_def destroy_engine_def

section \<open>Steps of the other threads\<close>

primrec thread_of :: "engine_action \<Rightarrow> thread_id option" where
  "thread_of (ConsumerTurn i tu) = Some (ConsumerThread i)"
| "thread_of (GatewayTurn stamps) = Some GatewayThread"
| "thread_of (FillMessage now now_iso msg) = Some ListenerThread"
| "thread_of (MarketMessage now msg) = Some SourceThread"
| "thread_of Signal = None"

text \<open>A turn of a consumer may end after the flag was cleared: it read the flag at its beginning.\<close>

definition turn_exec :: "('r, 'm, 'h, 'z, 'j) engine_env \<Rightarrow> engine_action \<Rightarrow> ('r, 'm, 'h, 'z) TradingEngine \<Rightarrow>
    ('r, 'm, 'h, 'z) TradingEngine option" where
  "turn_exec X a E = (case a of
     ConsumerTurn i tu \<Rightarrow> map_option (\<lambda>E'. E'\<lparr>te_is_running := te_is_running E\<rparr>) (engine_exec X a (E\<lparr>te_is_running := True\<rparr>))
   | _ \<Rightarrow> engine_exec X a E)"

definition thread_step :: "('r, 'm, 'h, 'z, 'j) engine_env \<Rightarrow> engine_action \<Rightarrow> ('r, 'm, 'h, 'z) lifecycle \<Rightarrow>
    ('r, 'm, 'h, 'z) lifecycle option" where
  "thread_step X a s =
     (let turn = map_option (\<lambda>E. s\<lparr>lf_engine := E\<rparr>) (turn_exec X a (lf_engine s))
      in case thread_of a of
           None \<Rightarrow> if lf_is_running_ptr s then turn else Some s
         | Some t \<Rightarrow> if lf_threads s t = Running then turn else None)"

lemma thread_stepE:
  assumes "thread_step X a s = Some s'"
  obtains "s' = s" | E where "turn_exec X a (lf_engine s) = Some E" and "s' = s\<lparr>lf_engine := E\<rparr>"
proof (cases "thread_of a = None \<and> \<not> lf_is_running_ptr s")
  case True
  then show thesis using assms that(1) by (simp add: thread_step_def)
next
  case False
  then have "map_option (\<lambda>E. s\<lparr>lf_engine := E\<rparr>) (turn_exec X a (lf_engine s)) = Some s'"
    using assms by (cases "thread_of a") (simp_all add: thread_step_def Let_def split: if_splits)
  then show thesis using that(2) by blast
qed

text \<open>When a thread's function can return: the websocket threads once their socket is stopped, the others once the
  flag is cleared, the gateway only with an empty queue.\<close>

primrec can_end :: "thread_id \<Rightarrow> ('r, 'm, 'h, 'z) lifecycle \<Rightarrow> bool" where
  "can_end ListenerThread s \<longleftrightarrow> lf_listener_stopped s"
| "can_end SourceThread s \<longleftrightarrow> lf_source_stopped s"
| "can_end GatewayThread s \<longleftrightarrow> \<not> te_is_running (lf_engine s) \<and> try_pop (te_queue (lf_engine s)) = Some (None, te_queue (lf_engine s))"
| "can_end (ConsumerThread i) s \<longleftrightarrow> \<not> te_is_running (lf_engine s)"

datatype life_action = Main bool | Turn engine_action | End thread_id

primrec life_exec :: "life_env \<Rightarrow> ('r, 'm, 'h, 'z, 'j) engine_env \<Rightarrow> life_action \<Rightarrow> ('r, 'm, 'h, 'z) lifecycle \<Rightarrow>
    ('r, 'm, 'h, 'z) lifecycle option" where
  "life_exec V X (Main ok) s = main_step V ok s"
| "life_exec V X (Turn a) s = thread_step X a s"
| "life_exec V X (End t) s =
     (if lf_threads s t = Running \<and> can_end t s then Some (s\<lparr>lf_threads := (lf_threads s)(t := Ended)\<rparr>) else None)"

primrec good_life :: "life_action \<Rightarrow> bool" where
  "good_life (Main ok) \<longleftrightarrow> True"
| "good_life (Turn a) \<longleftrightarrow> good_action a"
| "good_life (End t) \<longleftrightarrow> True"

inductive lives :: "life_env \<Rightarrow> ('r, 'm, 'h, 'z, 'j) engine_env \<Rightarrow> ('r, 'm, 'h, 'z) TradingEngine \<Rightarrow> ('r, 'm, 'h, 'z) lifecycle \<Rightarrow> bool"
  for V :: life_env and X :: "('r, 'm, 'h, 'z, 'j) engine_env" and E0 :: "('r, 'm, 'h, 'z) TradingEngine"
where
  born: "lives V X E0 (constructed E0)"
| act: "lives V X E0 s \<Longrightarrow> good_life a \<Longrightarrow> life_exec V X a s = Some s' \<Longrightarrow> lives V X E0 s'"

section \<open>The invariant\<close>

definition launched :: "nat \<Rightarrow> thread_id \<Rightarrow> bool" where
  "launched n t \<longleftrightarrow> (case t of ConsumerThread j \<Rightarrow> j < n | _ \<Rightarrow> True)"

text \<open>The threads that can be joinable at a point of the main thread, with \<open>n\<close> consumers constructed.\<close>

primrec may_live :: "life_pc \<Rightarrow> bool \<Rightarrow> nat \<Rightarrow> thread_id \<Rightarrow> bool" where
  "may_live Built d n t \<longleftrightarrow> False"
| "may_live ListenerUp d n t \<longleftrightarrow> t = ListenerThread"
| "may_live SinkUp d n t \<longleftrightarrow> t = ListenerThread"
| "may_live SourceUp d n t \<longleftrightarrow> t = ListenerThread \<or> t = SourceThread"
| "may_live (Launching i) d n t \<longleftrightarrow> launched n t"
| "may_live Looping d n t \<longleftrightarrow> launched n t"
| "may_live (StopSource r) d n t \<longleftrightarrow> launched n t"
| "may_live (JoinSource r) d n t \<longleftrightarrow> launched n t"
| "may_live (JoinConsumers r i) d n t \<longleftrightarrow> launched n t \<and> t \<noteq> SourceThread \<and> \<not> (i > 0 \<and> launched i t \<and> (\<exists>j. t = ConsumerThread j))"
| "may_live (StopListener r) d n t \<longleftrightarrow> t = ListenerThread \<or> t = GatewayThread"
| "may_live (JoinListener r) d n t \<longleftrightarrow> t = ListenerThread \<or> t = GatewayThread"
| "may_live (JoinGateway r) d n t \<longleftrightarrow> t = GatewayThread"
| "may_live (Reporting r) d n t \<longleftrightarrow> False"
| "may_live Unwinding d n t \<longleftrightarrow> \<not> d \<and> launched n t"
| "may_live Destroyed d n t \<longleftrightarrow> False"

definition starting :: "life_pc \<Rightarrow> bool" where
  "starting pc \<longleftrightarrow> (case pc of Built \<Rightarrow> True | ListenerUp \<Rightarrow> True | SinkUp \<Rightarrow> True | SourceUp \<Rightarrow> True | Launching i \<Rightarrow> True
     | Looping \<Rightarrow> True | _ \<Rightarrow> False)"

text \<open>How many consumers there are while they are being launched.\<close>

definition launch_count :: "life_pc \<Rightarrow> nat option" where
  "launch_count pc = (case pc of Built \<Rightarrow> Some 0 | ListenerUp \<Rightarrow> Some 0 | SinkUp \<Rightarrow> Some 0 | SourceUp \<Rightarrow> Some 0
     | Launching i \<Rightarrow> Some i | _ \<Rightarrow> None)"

definition control_ok :: "life_pc \<Rightarrow> bool \<Rightarrow> bool \<Rightarrow> nat \<Rightarrow> bool" where
  "control_ok pc running d reports \<longleftrightarrow>
     (if starting pc then \<not> d \<and> reports = 0
      else if pc = Unwinding then (if d then \<not> running \<and> reports = 1 else reports = 0)
      else \<not> running \<and> d \<and> reports = (if pc = Destroyed then 1 else 0))"

definition life_inv :: "('r, 'm, 'h, 'z) lifecycle \<Rightarrow> bool" where
  "life_inv s \<longleftrightarrow> engine_inv (lf_engine s) \<and>
     control_ok (lf_pc s) (te_is_running (lf_engine s)) (lf_shutdown_done s) (lf_reports s) \<and>
     (\<forall>t. lf_threads s t \<noteq> NotJoinable \<longrightarrow> may_live (lf_pc s) (lf_shutdown_done s) (length (te_strategies (lf_engine s))) t) \<and>
     (\<forall>i. launch_count (lf_pc s) = Some i \<longrightarrow> length (te_strategies (lf_engine s)) = i) \<and>
     (lf_is_running_ptr s \<longleftrightarrow> lf_pc s \<noteq> Destroyed) \<and> (\<forall>r. lf_pc s = JoinSource r \<longrightarrow> lf_source_stopped s) \<and> (\<forall>r. lf_pc s = JoinListener r \<longrightarrow> lf_listener_stopped s)"

lemma turn_exec_frame:
  assumes "turn_exec X a E = Some E'"
  shows "length (te_strategies E') = length (te_strategies E)" and "te_is_running E' \<Longrightarrow> te_is_running E" and "te_symbols E' = te_symbols E"
proof -
  have exec: "length (te_strategies F') = length (te_strategies F) \<and> (te_is_running F' \<longrightarrow> te_is_running F) \<and> te_symbols F' = te_symbols F"
    if ex: "engine_exec X a F = Some F'" for F F'
  proof (cases a)
    case (GatewayTurn stamps)
    then obtain r q where "wait_and_pop_turn (Some (te_is_running F)) (te_queue F) = Some (r, q)"
      using ex by (auto simp: bind_eq_Some_conv)
    then show ?thesis using ex GatewayTurn by (cases r) (auto simp: put_gateway_def)
  qed (use ex in \<open>auto simp: put_consumer_def put_listener_def stop_def split: if_splits\<close>)
  have "length (te_strategies E') = length (te_strategies E) \<and> (te_is_running E' \<longrightarrow> te_is_running E) \<and> te_symbols E' = te_symbols E"
  proof (cases a)
    case (ConsumerTurn i tu)
    then obtain F where F: "engine_exec X a (E\<lparr>te_is_running := True\<rparr>) = Some F" "E' = F\<lparr>te_is_running := te_is_running E\<rparr>"
      using assms by (auto simp: turn_exec_def)
    show ?thesis using exec [OF F(1)] F(2) by simp
  qed (rule exec, use assms in \<open>simp add: turn_exec_def del: engine_exec.simps\<close>)+
  then show "length (te_strategies E') = length (te_strategies E)" "te_is_running E' \<Longrightarrow> te_is_running E" "te_symbols E' = te_symbols E"
    by blast+
qed

lemma engine_inv_flag: "engine_inv (E\<lparr>te_is_running := b\<rparr>) = engine_inv E"
  by (simp add: engine_inv_def)

lemma turn_exec_inv:
  assumes "engine_inv E" and "text_env X" and "good_action a" and "turn_exec X a E = Some E'"
  shows "engine_inv E'"
proof (cases a)
  case (ConsumerTurn i tu)
  then obtain F where F: "engine_exec X a (E\<lparr>te_is_running := True\<rparr>) = Some F" "E' = F\<lparr>te_is_running := te_is_running E\<rparr>"
    using assms(4) by (auto simp: turn_exec_def)
  have "engine_inv F" using engine_exec_inv [OF _ assms(2,3) F(1)] assms(1) by (simp add: engine_inv_flag)
  then show ?thesis using F(2) by (simp add: engine_inv_flag)
qed (rule engine_exec_inv [OF assms(1-3)], use assms(4) in \<open>simp add: turn_exec_def del: engine_exec.simps\<close>)+

lemma control_mono: "control_ok pc running d n \<Longrightarrow> (running' \<Longrightarrow> running) \<Longrightarrow> control_ok pc running' d n"
  by (auto simp: control_ok_def split: if_splits)

lemma thread_step_inv:
  assumes "life_inv s" and "text_env X" and "good_action a" and "thread_step X a s = Some s'"
  shows "life_inv s'"
  using assms(4)
proof (cases rule: thread_stepE)
  case (2 E)
  then show ?thesis
    using assms(1) turn_exec_inv [OF _ assms(2,3) 2(1)] turn_exec_frame [OF 2(1)] control_mono
    by (simp add: life_inv_def) blast
qed (use assms(1) in simp)

lemma end_step_inv: "life_inv s \<Longrightarrow> life_exec V X (End t) s = Some s' \<Longrightarrow> life_inv s'"
  by (auto simp: life_inv_def split: if_splits)

lemma join_inv:
  assumes s: "life_inv s" and j: "join t nxt s = Some s'"
    and c: "control_ok nxt (te_is_running (lf_engine s)) (lf_shutdown_done s) (lf_reports s)"
    and l: "\<And>u. may_live (lf_pc s) (lf_shutdown_done s) (length (te_strategies (lf_engine s))) u \<Longrightarrow> u \<noteq> t \<Longrightarrow>
      may_live nxt (lf_shutdown_done s) (length (te_strategies (lf_engine s))) u"
    and n: "launch_count nxt = None" "\<And>r. nxt \<noteq> JoinSource r" "\<And>r. nxt \<noteq> JoinListener r" "lf_pc s \<noteq> Destroyed" "nxt \<noteq> Destroyed"
  shows "life_inv s'"
  using s j c n by (auto simp: join_def life_inv_def split: thread_status.splits if_splits intro!: l)

lemma shutdown_inv:
  assumes "engine_inv (lf_engine s)" and "\<not> te_is_running (lf_engine s)" and "lf_reports s = (if lf_shutdown_done s then 1 else 0)"
    and "\<forall>t. lf_threads s t \<noteq> NotJoinable \<longrightarrow> \<not> lf_shutdown_done s \<and> launched (length (te_strategies (lf_engine s))) t"
    and "lf_is_running_ptr s"
  shows "life_inv (enter_shutdown r s)"
  using assms by (auto simp: life_inv_def enter_shutdown_def leave_shutdown_def control_ok_def starting_def launch_count_def)

lemma start_thread_simps [simp]:
  "lf_engine (start_thread pin t c s) = lf_engine s" "lf_shutdown_done (start_thread pin t c s) = lf_shutdown_done s"
  "lf_threads (start_thread pin t c s) = (lf_threads s)(t := Running)" "lf_reports (start_thread pin t c s) = lf_reports s"
  "lf_is_running_ptr (start_thread pin t c s) = lf_is_running_ptr s"
  by (simp_all add: start_thread_def)

lemma main_step_starting:
  assumes s: "life_inv s" and pc: "starting (lf_pc s)" and m: "main_step V ok s = Some s'"
  shows "life_inv s'"
proof (cases "lf_pc s")
  case (Launching i)
  let ?n = "length (te_strategies (lf_engine s))"
  have n: "?n = i" "engine_inv (lf_engine s)" "\<not> lf_shutdown_done s" "lf_reports s = 0" "lf_is_running_ptr s"
    "\<forall>t. lf_threads s t \<noteq> NotJoinable \<longrightarrow> launched ?n t"
    using s Launching by (auto simp: life_inv_def control_ok_def starting_def launch_count_def)
  consider (all) "s' = s\<lparr>lf_pc := Looping\<rparr>" | (failed) "s' = throw s"
    | (one) s1 where "launch_consumer (pin_thread_to_core (ve_platform V) (ve_set_affinity V)) (ve_max_cores V) ok i s = Some s1" "s' = s1\<lparr>lf_pc := Launching (Suc i)\<rparr>"
    using m Launching by (auto simp: main_step_defs Let_def split: if_splits option.splits)
  then show ?thesis
  proof cases
    case one
    have e: "engine_inv ((lf_engine s)\<lparr>te_strategies := te_strategies (lf_engine s) @ [default_strategy]\<rparr>)"
      using n(2) default_strategy_ok by (simp add: engine_inv_def)
    have "launched (Suc ?n) t" if "launched ?n t" for t using that by (auto simp: launched_def split: thread_id.splits)
    moreover have "launched (Suc ?n) (ConsumerThread i)" using n(1) by (simp add: launched_def)
    ultimately show ?thesis
      using one n e by (auto simp: launch_consumer_def life_inv_def control_ok_def starting_def launch_count_def Let_def split: if_splits)
  qed (use n in \<open>simp_all add: life_inv_def control_ok_def starting_def launch_count_def throw_def\<close>)
next
  case Looping
  then show ?thesis
    using s m by (auto simp: main_step_defs life_inv_def control_ok_def starting_def launch_count_def enter_shutdown_def split: if_splits)
qed (use s pc m in \<open>auto simp: main_step_defs life_inv_def control_ok_def starting_def launch_count_def throw_def launched_def
  listener_start_def source_start_def launch_gateway_def split: if_splits thread_id.splits\<close>)

lemma main_step_stopping:
  assumes s: "life_inv s" and pc: "\<not> starting (lf_pc s)" and m: "main_step V ok s = Some s'"
  shows "life_inv s'"
proof (cases "lf_pc s")
  case (JoinSource r)
  have "join SourceThread (JoinConsumers r 0) s = Some s'" using m JoinSource by (simp add: main_step_defs)
  from join_inv [OF s this] s JoinSource show ?thesis by (simp add: life_inv_def control_ok_def starting_def launch_count_def)
next
  case (JoinConsumers r i)
  let ?n = "length (te_strategies (lf_engine s))"
  have c: "control_ok nxt (te_is_running (lf_engine s)) (lf_shutdown_done s) (lf_reports s)"
    if "nxt = JoinConsumers r (Suc i) \<or> nxt = StopListener r" for nxt
    using s JoinConsumers that by (auto simp: life_inv_def control_ok_def starting_def launch_count_def)
  show ?thesis
  proof (cases "i < ?n")
    case True
    then have "join (ConsumerThread i) (JoinConsumers r (Suc i)) s = Some s'" using m JoinConsumers by (simp add: main_step_defs)
    then show ?thesis
    proof (rule join_inv [OF s])
      fix u assume "may_live (lf_pc s) (lf_shutdown_done s) ?n u" "u \<noteq> ConsumerThread i"
      then show "may_live (JoinConsumers r (Suc i)) (lf_shutdown_done s) ?n u"
        using JoinConsumers by (cases u) (auto simp: launched_def less_Suc_eq)
    qed (simp_all add: c launch_count_def JoinConsumers)
  next
    case False
    have "t = ListenerThread \<or> t = GatewayThread" if "lf_threads s t \<noteq> NotJoinable" for t
      using s that JoinConsumers False by (cases t) (auto simp: life_inv_def launched_def)
    moreover have "engine_inv ((lf_engine s)\<lparr>te_strategies := []\<rparr>)" using s by (simp add: life_inv_def engine_inv_def)
    ultimately show ?thesis using s m c [of "StopListener r"] JoinConsumers False by (auto simp: main_step_defs life_inv_def launch_count_def)
  qed
next
  case (JoinListener r)
  have "join ListenerThread (JoinGateway r) s = Some s'" using m JoinListener by (simp add: main_step_defs)
  from join_inv [OF s this] s JoinListener show ?thesis by (simp add: life_inv_def control_ok_def starting_def launch_count_def)
next
  case (JoinGateway r)
  have "join GatewayThread (Reporting r) s = Some s'" using m JoinGateway by (simp add: main_step_defs)
  from join_inv [OF s this] s JoinGateway show ?thesis by (simp add: life_inv_def control_ok_def starting_def launch_count_def)
next
  case Unwinding
  let ?s = "s\<lparr>lf_engine := if te_is_running (lf_engine s) then stop (lf_engine s) else lf_engine s\<rparr>"
  have "s' = enter_shutdown False ?s" using m Unwinding by (simp add: main_step_defs Let_def)
  moreover have "life_inv (enter_shutdown False ?s)"
    using s Unwinding by (intro shutdown_inv) (auto simp: life_inv_def control_ok_def starting_def launch_count_def stop_def engine_inv_flag split: if_splits)
  ultimately show ?thesis by simp
qed (use s pc m in \<open>auto simp: main_step_defs life_inv_def control_ok_def starting_def launch_count_def leave_shutdown_def split: if_splits\<close>)

section \<open>Progress\<close>

text \<open>The steps of a life in which the ZeroMQ calls of the main thread have the outcome \<open>ok\<close>.\<close>

definition life_step :: "life_env \<Rightarrow> ('r, 'm, 'h, 'z, 'j) engine_env \<Rightarrow> bool \<Rightarrow> ('r, 'm, 'h, 'z) lifecycle \<Rightarrow> ('r, 'm, 'h, 'z) lifecycle \<Rightarrow> bool" where
  "life_step V X ok s s' \<longleftrightarrow> (\<exists>a. good_life a \<and> a \<noteq> Main (\<not> ok) \<and> life_exec V X a s = Some s')"

abbreviation proceeds :: "life_env \<Rightarrow> ('r, 'm, 'h, 'z, 'j) engine_env \<Rightarrow> bool \<Rightarrow> ('r, 'm, 'h, 'z) lifecycle \<Rightarrow> ('r, 'm, 'h, 'z) lifecycle \<Rightarrow> bool" where
  "proceeds V X ok \<equiv> (life_step V X ok)\<^sup>*\<^sup>*"

lemma main_proceeds: "main_step V ok s = Some s' \<Longrightarrow> proceeds V X ok s s'"
  by (rule r_into_rtranclp) (auto simp: life_step_def intro!: exI [of _ "Main ok"])

lemma end_proceeds:
  "lf_threads s t = Running \<Longrightarrow> can_end t s \<Longrightarrow> proceeds V X ok s (s\<lparr>lf_threads := (lf_threads s)(t := Ended)\<rparr>)"
  by (rule r_into_rtranclp) (auto simp: life_step_def intro!: exI [of _ "End t"])

lemma handle_order_buy:
  assumes "ord_side ord = Buy"
  shows "\<exists>gw'. handle_order X stamps ord gw = Some gw'"
proof -
  have total: "\<exists>pm'. onOrderCancelled o' pm = Some pm'" if "ord_side o' = Buy" for o' pm
    using that by (auto simp: onOrderCancelled_def Let_def split: option.splits)
  have "\<exists>gw'. executeOrder X t o' g = Some gw'" if "ord_side o' = Buy" for t o' g
  proof (cases "placed X o' g")
    case None
    then show ?thesis using executeOrder_not_placed [OF None, of t] total [OF that, of "gw_pm g"] by auto
  next
    case (Some i)
    then show ?thesis using executeOrder_placed [OF Some, of t] by auto
  qed
  then show ?thesis using assms by (cases stamps) (simp add: handle_order_def Let_def)
qed

text \<open>The gateway's thread empties the queue and ends, whatever the exchange answers.\<close>

lemma gateway_drains:
  assumes "engine_inv (lf_engine s)" and "lf_threads s GatewayThread = Running" and "\<not> te_is_running (lf_engine s)"
    and "text_env X" and "queue_rep (te_queue (lf_engine s)) xs" and "\<forall>ord \<in> set xs. good_queued ord"
  shows "\<exists>E. proceeds V X ok s (s\<lparr>lf_engine := E\<rparr>) \<and> queue_rep (te_queue E) [] \<and> \<not> te_is_running E"
  using assms
proof (induction xs arbitrary: s)
  case Nil
  then show ?case by (intro exI [of _ "lf_engine s"]) simp
next
  case (Cons ord xs)
  let ?E = "lf_engine s"
  obtain q' where q': "wait_and_pop_turn (Some (te_is_running ?E)) (te_queue ?E) = Some (Popped ord, q')" "queue_rep q' xs"
    using wait_and_pop_refines [OF Cons.prems(5), of "Some (te_is_running ?E)"] by auto
  obtain gw where gw: "handle_order \<lparr>env_rest = ee_rest X, env_slots = ee_slots X, env_hdr = ee_hdr X\<rparr> (0, 0) ord (gateway_of ?E) = Some gw"
    using handle_order_buy [of ord] Cons.prems(6) by (fastforce simp: good_queued_def)
  let ?E1 = "put_gateway gw (?E\<lparr>te_queue := q'\<rparr>)"
  have ex: "engine_exec X (GatewayTurn (0, 0)) ?E = Some ?E1" using q'(1) gw by simp
  have inv: "engine_inv ?E1" using engine_exec_inv [OF Cons.prems(1,4) _ ex] by simp
  have "life_exec V X (Turn (GatewayTurn (0, 0))) s = Some (s\<lparr>lf_engine := ?E1\<rparr>)"
    using ex Cons.prems(2) by (simp add: thread_step_def turn_exec_def del: engine_exec.simps)
  then have one: "life_step V X ok s (s\<lparr>lf_engine := ?E1\<rparr>)" by (auto simp: life_step_def intro!: exI [of _ "Turn (GatewayTurn (0, 0))"])
  have "\<exists>E. proceeds V X ok (s\<lparr>lf_engine := ?E1\<rparr>) (s\<lparr>lf_engine := ?E1\<rparr>\<lparr>lf_engine := E\<rparr>) \<and> queue_rep (te_queue E) [] \<and> \<not> te_is_running E"
    using inv Cons.prems q'(2) by (intro Cons.IH) (simp_all add: put_gateway_def)
  then show ?case using one by (auto intro: converse_rtranclp_into_rtranclp)
qed

text \<open>The thread the main thread is waiting for.\<close>

definition waits_for :: "('r, 'm, 'h, 'z) lifecycle \<Rightarrow> thread_id option" where
  "waits_for s = (case lf_pc s of
     JoinSource r \<Rightarrow> Some SourceThread
   | JoinConsumers r i \<Rightarrow> if i < length (te_strategies (lf_engine s)) then Some (ConsumerThread i) else None
   | JoinListener r \<Rightarrow> Some ListenerThread
   | JoinGateway r \<Rightarrow> Some GatewayThread
   | _ \<Rightarrow> None)"

lemma main_blocked:
  "main_step V ok s = None \<longleftrightarrow> lf_pc s = Destroyed \<or> (\<exists>t. waits_for s = Some t \<and> lf_threads s t = Running)"
  by (auto simp: main_step_defs waits_for_def join_def Let_def split: life_pc.splits thread_status.splits option.splits)

lemma waited_ends:
  assumes inv: "life_inv s" and X: "text_env X" and w: "waits_for s = Some t" and t: "lf_threads s t = Running"
  shows "\<exists>E. proceeds V X ok s (s\<lparr>lf_engine := E, lf_threads := (lf_threads s)(t := Ended)\<rparr>) \<and> (t = GatewayThread \<or> E = lf_engine s)"
proof -
  have stopped: "\<not> te_is_running (lf_engine s)"
    using inv w by (auto simp: life_inv_def control_ok_def starting_def waits_for_def split: life_pc.splits)
  show ?thesis
  proof (cases "t = GatewayThread")
    case True
    obtain xs where xs: "queue_rep (te_queue (lf_engine s)) xs" "\<forall>ord \<in> set xs. good_queued ord" and e: "engine_inv (lf_engine s)"
      using inv by (auto simp: life_inv_def engine_inv_def)
    obtain E where E: "proceeds V X ok s (s\<lparr>lf_engine := E\<rparr>)" "queue_rep (te_queue E) []" "\<not> te_is_running E"
      using gateway_drains [OF e _ stopped X xs] t True by blast
    have "try_pop (te_queue E) = Some (None, te_queue E)" using try_pop_refines [OF E(2)] by simp
    then have "proceeds V X ok (s\<lparr>lf_engine := E\<rparr>) (s\<lparr>lf_engine := E\<rparr>\<lparr>lf_threads := (lf_threads s)(t := Ended)\<rparr>)"
      using end_proceeds [of "s\<lparr>lf_engine := E\<rparr>" t V X ok] t True E(3) by simp
    then show ?thesis using E(1) True by (auto intro!: exI [of _ E] elim: rtranclp_trans)
  next
    case False
    have "can_end t s" using inv w stopped False by (auto simp: life_inv_def waits_for_def split: life_pc.splits if_splits)
    from end_proceeds [OF t this, of V X ok] show ?thesis by (auto intro: exI [of _ "lf_engine s"])
  qed
qed

text \<open>How far the main thread is from the end.\<close>

definition phase :: "life_pc \<Rightarrow> nat" where
  "phase pc = (case pc of
     Built \<Rightarrow> 40 | ListenerUp \<Rightarrow> 39 | SinkUp \<Rightarrow> 38 | SourceUp \<Rightarrow> 37 | Launching i \<Rightarrow> 36 | Looping \<Rightarrow> 35
   | StopSource r \<Rightarrow> (if r then 27 else 9) | JoinSource r \<Rightarrow> (if r then 26 else 8) | JoinConsumers r i \<Rightarrow> (if r then 25 else 7)
   | StopListener r \<Rightarrow> (if r then 24 else 6) | JoinListener r \<Rightarrow> (if r then 23 else 5) | JoinGateway r \<Rightarrow> (if r then 22 else 4)
   | Reporting r \<Rightarrow> (if r then 21 else 3) | Unwinding \<Rightarrow> 12 | Destroyed \<Rightarrow> 0)"

definition todo :: "('r, 'm, 'h, 'z) lifecycle \<Rightarrow> nat" where
  "todo s = (case lf_pc s of
     Launching i \<Rightarrow> length (te_symbols (lf_engine s)) - i
   | JoinConsumers r i \<Rightarrow> length (te_strategies (lf_engine s)) - i
   | _ \<Rightarrow> 0)"

lemma main_rank:
  assumes "main_step V ok s = Some s'" and "\<not> te_is_running (lf_engine s)"
  shows "(s', s) \<in> measures [\<lambda>s. phase (lf_pc s), todo]" and "\<not> te_is_running (lf_engine s')"
proof -
  note defs = main_step_defs join_def throw_def listener_start_def source_start_def launch_gateway_def launch_consumer_def
    start_thread_def enter_shutdown_def leave_shutdown_def phase_def todo_def stop_def Let_def
  show "(s', s) \<in> measures [\<lambda>s. phase (lf_pc s), todo]"
    using assms by (cases "lf_pc s") (auto simp: defs split: if_splits thread_status.splits)
  show "\<not> te_is_running (lf_engine s')"
    using assms by (cases "lf_pc s") (auto simp: defs split: if_splits thread_status.splits)
qed

lemma main_step_inv: "life_inv s \<Longrightarrow> main_step V ok s = Some s' \<Longrightarrow> life_inv s'"
  using main_step_starting main_step_stopping by blast

lemma life_exec_inv:
  assumes "life_inv s" and "text_env X" and "good_life a" and "life_exec V X a s = Some s'"
  shows "life_inv s'"
proof (cases a)
  case (Turn b)
  then show ?thesis using thread_step_inv [OF assms(1,2)] assms(3,4) by simp
qed (use assms main_step_inv end_step_inv in \<open>auto simp del: life_exec.simps(3)\<close>)

lemma lives_inv:
  assumes "lives V X E0 s" and "text_env X" and "engine_inv E0" and "te_strategies E0 = []"
  shows "life_inv s"
  using assms
proof (induction rule: lives.induct)
  case born
  then show ?case by (simp add: life_inv_def constructed_def control_ok_def starting_def launch_count_def)
qed (auto intro: life_exec_inv)

lemma proceeds_inv: "proceeds V X ok s s' \<Longrightarrow> text_env X \<Longrightarrow> life_inv s \<Longrightarrow> life_inv s'"
  by (induction rule: rtranclp_induct) (auto simp: life_step_def intro: life_exec_inv)

lemma stopped_proceeds:
  assumes "text_env X" and "life_inv s" and "\<not> te_is_running (lf_engine s)"
  shows "\<exists>s'. proceeds V X ok s s' \<and> lf_pc s' = Destroyed"
  using assms(2,3)
proof (induction s rule: wf_induct_rule [OF wf_measures [of "[\<lambda>s. phase (lf_pc s), todo]"]])
  case (1 s)
  have main: "\<exists>s'. proceeds V X ok s1 s' \<and> lf_pc s' = Destroyed"
    if s1: "main_step V ok s1 = Some s2" "life_inv s1" "\<not> te_is_running (lf_engine s1)" "lf_pc s1 = lf_pc s" "todo s1 = todo s" for s1 s2
  proof -
    note r = main_rank [OF s1(1,3)]
    have "(s2, s) \<in> measures [\<lambda>s. phase (lf_pc s), todo]" using r(1) s1(4,5) by simp
    from 1(1) [OF this main_step_inv [OF s1(2,1)] r(2)] show ?thesis using main_proceeds [OF s1(1), of X] by (meson rtranclp_trans)
  qed
  show ?case
  proof (cases "main_step V ok s")
    case (Some s2)
    then show ?thesis using main 1 by blast
  next
    case None
    show ?thesis
    proof (cases "lf_pc s = Destroyed")
      case False
      then obtain t where t: "waits_for s = Some t" "lf_threads s t = Running" using None main_blocked by blast
      obtain E where E: "proceeds V X ok s (s\<lparr>lf_engine := E, lf_threads := (lf_threads s)(t := Ended)\<rparr>)"
        "t = GatewayThread \<or> E = lf_engine s" using waited_ends [OF 1(2) assms(1) t] by blast
      let ?s1 = "s\<lparr>lf_engine := E, lf_threads := (lf_threads s)(t := Ended)\<rparr>"
      have w: "waits_for ?s1 = Some t" "todo ?s1 = todo s"
        using t(1) E(2) by (auto simp: waits_for_def todo_def split: life_pc.splits if_splits)
      have inv: "life_inv ?s1" using proceeds_inv [OF E(1) assms(1) 1(2)] .
      have stopped: "\<not> te_is_running (lf_engine ?s1)"
        using inv w(1) by (auto simp: life_inv_def control_ok_def starting_def waits_for_def split: life_pc.splits)
      have "main_step V ok ?s1 \<noteq> None" using False w(1) unfolding main_blocked by simp
      then have "\<exists>s'. proceeds V X ok ?s1 s' \<and> lf_pc s' = Destroyed" using main inv stopped w(2) by auto
      then show ?thesis using E(1) by (meson rtranclp_trans)
    qed auto
  qed
qed

end
