(* ===== verification/Engine_Shutdown.thy ===== *)
theory Engine_Shutdown
  imports Engine_Lifecycle
begin

text \<open>
  What holds when a \<open>TradingEngine\<close> is shut down (\<open>shutdown\<close> and the destructor in \<open>src/TradingEngine.cpp\<close>): no thread
  is left, the report is written once, no join waits forever; and one thing that does not hold, that the gateway
  has handled every order by then.
\<close>

section \<open>Properties\<close>

text \<open>C3. No thread outlives the engine: however the threads interleave, whenever a signal arrives, and whether \<open>run\<close> returns or
  throws half-way (the publisher's socket cannot be bound, a consumer cannot be constructed), once the engine is
  destroyed every thread that was started has been joined, the signal handler no longer points to the engine's
  flag, the flag is false, the latency report was written exactly once although \<open>shutdown\<close> may be called twice, and
  the position table is well-formed.\<close>

theorem no_thread_left:
  assumes "new_TradingEngine H no_orders sink creds config rest recon = Inr E0"
    and "validateConfig config = None" and "in_i64 (rc_max_position_per_symbol (cfg_risk config))"
    and "\<forall>symb \<in> set (tc_symbols (cfg_trading config)). valid_key (symbolToKey symb)"
    and "length (tc_symbols (cfg_trading config)) \<le> kMaxSymbols"
    and "text_env X" and "lives V X E0 s" and "lf_pc s = Destroyed"
  shows "(\<forall>t. lf_threads s t = NotJoinable) \<and> \<not> lf_is_running_ptr s \<and> \<not> te_is_running (lf_engine s) \<and> lf_reports s = 1 \<and> pm_inv (te_pm (lf_engine s))"
proof -
  have "valid_config config" using assms(2) by (simp add: validateConfig_iff)
  note e = constructed_engine_inv [OF assms(1) this assms(3-5)]
  have "life_inv s" using lives_inv [OF assms(7,6) e(1,3)] .
  then show ?thesis using assms(8) by (auto simp: life_inv_def control_ok_def starting_def engine_inv_def)
qed

text \<open>The shutdown can end: from every state a life of the engine can be in after its running flag is cleared, whatever the other
  threads are doing, however many orders are still queued and whatever the exchange answers to them, the engine can
  go on to be destroyed. In particular no join of the main thread can wait for a thread that is unable to end.\<close>

theorem shutdown_completes:
  assumes "new_TradingEngine H no_orders sink creds config rest recon = Inr E0"
    and "validateConfig config = None" and "in_i64 (rc_max_position_per_symbol (cfg_risk config))"
    and "\<forall>symb \<in> set (tc_symbols (cfg_trading config)). valid_key (symbolToKey symb)"
    and "length (tc_symbols (cfg_trading config)) \<le> kMaxSymbols"
    and "text_env X" and "lives V X E0 s" and "\<not> te_is_running (lf_engine s)"
  shows "\<exists>s'. proceeds V X ok s s' \<and> lf_pc s' = Destroyed"
proof -
  have "valid_config config" using assms(2) by (simp add: validateConfig_iff)
  note e = constructed_engine_inv [OF assms(1) this assms(3-5)]
  have "life_inv s" using lives_inv [OF assms(7,6) e(1,3)] .
  then show ?thesis using stopped_proceeds [OF assms(6)] assms(8) by blast
qed

section \<open>Concrete lives\<close>

definition demo_life :: life_env where
  "demo_life = \<lparr>ve_platform = Linux, ve_set_affinity = (\<lambda>_. True), ve_max_cores = 8\<rparr>"

type_synonym demo_engine = "(unit, (OrderSlotKey \<times> AlpacaOrderId) list, int list, string list) TradingEngine"

lemma lives_run:
  assumes "lives V X E0 s" and "\<forall>a \<in> set acts. good_life a" and "run_list (life_exec V X) acts s = Some s'"
  shows "lives V X E0 s'"
  using assms
proof (induction acts arbitrary: s)
  case (Cons a acts)
  then obtain s1 where s1: "life_exec V X a s = Some s1" "run_list (life_exec V X) acts s1 = Some s'"
    by (auto split: option.splits)
  have "lives V X E0 s1" using lives.act [OF Cons.prems(1) _ s1(1)] Cons.prems(2) by simp
  then show ?case using Cons.IH s1(2) Cons.prems(2) by simp
qed simp

lemma demo_new:
  obtains E0 :: demo_engine where "new_TradingEngine demo_hdr [] [] (Some ''k'', Some ''s'') one_symbol () None = Inr E0"
    and "te_is_running E0" and "te_symbols E0 = [''AAPL'']" and "te_strategies E0 = []" and "te_queue E0 = new_Queue zero_Order"
    and "te_pm E0 = demo_book" and "te_cooldown E0 = cooldown_registerAll [''AAPL''] (new_OrderCooldown 100000000)"
    and "te_risk E0 = \<lparr>rm_max_position_per_symbol = 1000, rm_max_order_value = Fin 10000\<rparr>"
proof -
  obtain lt where lt: "new_LatencyTracker demo_hdr = Some lt"
    by (simp add: new_LatencyTracker_def demo_hdr_def kMetricCount_def upt_rec)
  have "\<exists>E0 :: demo_engine. new_TradingEngine demo_hdr [] [] (Some ''k'', Some ''s'') one_symbol () None = Inr E0"
    by (simp add: new_TradingEngine_def lt Let_def)
  then obtain E0 :: demo_engine where E0: "new_TradingEngine demo_hdr [] [] (Some ''k'', Some ''s'') one_symbol () None = Inr E0" by blast
  show thesis
    by (rule that [OF E0]; use E0 lt in \<open>auto simp: new_TradingEngine_def Let_def one_symbol_def default_config_def demo_book_def new_RiskManager_def\<close>)
qed

lemma one_symbol_valid:
  "validateConfig one_symbol = None" "in_i64 (rc_max_position_per_symbol (cfg_risk one_symbol))"
  "\<forall>symb \<in> set (tc_symbols (cfg_trading one_symbol)). valid_key (symbolToKey symb)"
  "length (tc_symbols (cfg_trading one_symbol)) \<le> kMaxSymbols"
  using AAPL_syms by (simp_all add: validateConfig_iff valid_config_def one_symbol_def default_config_def in_i64_def)

lemmas life_step_defs = main_step_defs listener_start_def source_start_def launch_gateway_def launch_consumer_def start_thread_def
  throw_def enter_shutdown_def leave_shutdown_def join_def stop_def new_Consumer_def constructed_def Let_def

text \<open>A run whose publisher cannot be bound.\<close>

definition failed_start :: "life_action list" where
  "failed_start = [Main True, Main False, Main True, Main True, Main True, Main True, Main True, End ListenerThread, Main True, Main True, Main True]"

lemma failed_start_run:
  assumes "te_is_running E0" and "te_strategies E0 = []"
  shows "\<exists>s. run_list (life_exec V X) failed_start (constructed E0) = Some s \<and> lf_pc s = Destroyed \<and> lf_failed s"
  using assms by (simp add: failed_start_def life_step_defs)

theorem no_thread_left_witness:
  "\<exists>(E0 :: demo_engine) s. new_TradingEngine demo_hdr [] [] (Some ''k'', Some ''s'') one_symbol () None = Inr E0 \<and>
    lives demo_life demo_engine_env E0 s \<and> lf_pc s = Destroyed \<and> lf_failed s \<and> (\<forall>t. lf_threads s t = NotJoinable) \<and> lf_reports s = 1"
proof -
  obtain E0 :: demo_engine where E0: "new_TradingEngine demo_hdr [] [] (Some ''k'', Some ''s'') one_symbol () None = Inr E0"
    "te_is_running E0" "te_strategies E0 = []" by (rule demo_new)
  obtain s where s: "run_list (life_exec demo_life demo_engine_env) failed_start (constructed E0) = Some s" "lf_pc s = Destroyed" "lf_failed s"
    using failed_start_run [OF E0(2,3)] by blast
  have l: "lives demo_life demo_engine_env E0 s" by (rule lives_run [OF lives.born _ s(1)]) (simp add: failed_start_def)
  from no_thread_left [OF E0(1) one_symbol_valid demo_engine_text l s(2)] E0(1) l s show ?thesis by blast
qed

text \<open>A run up to the main loop.\<close>

lemma started_run:
  assumes "te_is_running E0" and "te_strategies E0 = []" and "te_symbols E0 = [''AAPL'']"
  shows "\<exists>s. run_list (life_exec V X) (replicate 6 (Main True)) (constructed E0) = Some s \<and> lf_pc s = Looping \<and>
    lf_engine s = E0\<lparr>te_strategies := [default_strategy]\<rparr> \<and> \<not> lf_shutdown_done s \<and> \<not> lf_failed s \<and> lf_is_running_ptr s \<and>
    lf_threads s = (\<lambda>_. NotJoinable)(ListenerThread := Running, SourceThread := Running, GatewayThread := Running, ConsumerThread 0 := Running)"
  using assms by (simp add: numeral_eq_Suc life_step_defs)

theorem shutdown_completes_witness:
  "\<exists>(E0 :: demo_engine) s s'. new_TradingEngine demo_hdr [] [] (Some ''k'', Some ''s'') one_symbol () None = Inr E0 \<and>
    lives demo_life demo_engine_env E0 s \<and> lf_pc s = Looping \<and> lf_threads s GatewayThread = Running \<and>
    proceeds demo_life demo_engine_env True s s' \<and> lf_pc s' = Destroyed"
proof -
  obtain E0 :: demo_engine where E0: "new_TradingEngine demo_hdr [] [] (Some ''k'', Some ''s'') one_symbol () None = Inr E0"
    "te_is_running E0" "te_strategies E0 = []" "te_symbols E0 = [''AAPL'']" by (rule demo_new)
  obtain s where s: "run_list (life_exec demo_life demo_engine_env) (replicate 6 (Main True)) (constructed E0) = Some s" "lf_pc s = Looping"
    "lf_threads s GatewayThread = Running" "lf_is_running_ptr s" using started_run [OF E0(2-4)] by force
  have "lives demo_life demo_engine_env E0 s" by (rule lives_run [OF lives.born _ s(1)]) simp
  then have l: "lives demo_life demo_engine_env E0 (s\<lparr>lf_engine := stop (lf_engine s)\<rparr>)"
    by (rule lives.act [of _ _ _ _ "Turn Signal"]) (simp_all add: thread_step_def turn_exec_def s(4))
  have "\<not> te_is_running (lf_engine (s\<lparr>lf_engine := stop (lf_engine s)\<rparr>))" by (simp add: stop_def)
  from shutdown_completes [OF E0(1) one_symbol_valid demo_engine_text l this, of True]
  obtain s' where "proceeds demo_life demo_engine_env True (s\<lparr>lf_engine := stop (lf_engine s)\<rparr>) s'" "lf_pc s' = Destroyed" by blast
  then show ?thesis using E0(1) l s(2,3)
    by (intro exI [of _ E0] exI [of _ "s\<lparr>lf_engine := stop (lf_engine s)\<rparr>"] exI [of _ s']) simp
qed

text \<open>A consumer's turn in a fresh engine, on a trade of the symbol it quotes.\<close>

definition late_turn :: turn where
  "late_turn = \<lparr>tu_clock = \<lparr>tc_received = 20, tc_risk = 200000000, tc_queue = 40\<rparr>, tu_topic = Some ''AAPL'', tu_payload = Some (event_bytes demo_trade)\<rparr>"

lemma late_turn_event: "event_in late_turn = Some demo_trade"
  using length_event_bytes [of demo_trade] event_of_bytes_bytes [of demo_trade] by (simp add: late_turn_def event_in_def demo_trade_def)

lemma late_turn_good: "\<forall>e. event_in late_turn = Some e \<longrightarrow> good_symbol (ev_symbol e)"
  using late_turn_event by (simp add: good_symbol_def demo_trade_def AAPL_key kEmptySlot_def padded_copy_buf)

lemma late_turn_queues:
  assumes "te_strategies E = [default_strategy]" and "te_queue E = new_Queue zero_Order" and pm: "te_pm E = demo_book"
    and "te_cooldown E = cooldown_registerAll [''AAPL''] (new_OrderCooldown 100000000)"
    and "te_risk E = \<lparr>rm_max_position_per_symbol = 1000, rm_max_order_value = Fin 10000\<rparr>"
  shows "\<exists>E' ord. turn_exec demo_engine_env (ConsumerTurn 0 late_turn) E = Some E' \<and> queue_rep (te_queue E') [ord] \<and>
    getPendingPosition ''AAPL'' (te_pm E') = 100 \<and> te_is_running E' = te_is_running E \<and> ord_symbol ord = copy_buf 8 ''AAPL'' \<and> ord_quantity ord = 100"
proof -
  define ord where "ord = zero_Order\<lparr>ord_symbol := copy_buf 8 ''AAPL'', ord_side := Buy, ord_type := Limit, ord_quantity := 100, ord_price := 499900\<rparr>"
  let ?ord = "ord\<lparr>ord_arrivedAt := 10, ord_queuedAt := 40\<rparr>"
  have st: "onMarketEvent demo_trade default_strategy = (Some ord, default_strategy\<lparr>sm_last_trade_price := 500000\<rparr>)"
    by (simp add: onMarketEvent_def demo_trade_def default_strategy_def new_SimpleMarketMakingStrategy_def ord_def)
  have key: "ord_key ord = symbolToKey ''AAPL''" "valid_key (symbolToKey ''AAPL'')" by (simp_all add: ord_def AAPL_key kEmptySlot_def)
  have E: "exposure demo_book (ord_key ord) = 0" by (rule demo_book_flat(2)) (simp add: key)
  have o: "padded 8 (ord_symbol ord)" "in_i64 (ord_quantity ord)" by (simp_all add: ord_def padded_copy_buf in_i64_def)
  have lim: "rm_limits (te_risk E) 1000 100000000" using assms(5) by (simp add: rm_limits_def)
  obtain cd where cd: "passes_cooldown (ord_symbol ord) 200000000 (Some (te_cooldown E)) = (True, Some cd)"
    using registered_first_check [of "ord_symbol ord" 200000000 "[''AAPL'']" 100000000] assms(4)
    by (cases "checkAndUpdate (ord_symbol ord) 200000000 (te_cooldown E)") (simp add: passes_cooldown_def ord_def)
  have "risk_approves 1000 100000000 True (exposure demo_book (ord_key ord)) ord" unfolding E by (simp add: risk_approves_def ord_def)
  then obtain pm' where pm': "onOrderSent ord demo_book = Some pm'"
    "onNewOrder (te_risk E) 200000000 ord (Some (te_cooldown E), Some demo_book) = Some (True, Some cd, Some pm')"
    using onNewOrder_decision [OF lim o cd, of demo_book] E by auto
  have "tracked demo_book (symbolToKey ''AAPL'')" using fresh_book(2) [OF AAPL_syms] by (simp add: demo_book_def)
  then have "position pm' (symbolToKey ''AAPL'') = (position demo_book (symbolToKey ''AAPL''))\<lparr>e_pending := 100\<rparr>"
    using onOrderSent_writes [OF demo_book_flat(1) _ pm'(1)] fresh_book(3) [OF AAPL_syms, of "symbolToKey ''AAPL''"] key
    by (simp add: writes_def demo_book_def empty_Entry_def ord_def wrap_i64_id in_i64_def)
  then have pending: "getPendingPosition ''AAPL'' pm' = 100" by (simp add: getters_position)
  have free: "q_heap (new_Queue zero_Order) 2 = None" by (simp add: new_Queue_def stub_def)
  obtain q' where q': "push 2 ?ord (new_Queue zero_Order) = Some q'" "queue_rep q' [?ord]"
    using push_refines [OF queue_rep_new free] by fastforce
  have a: "ev_arrivedAt demo_trade = 10" by (simp add: demo_trade_def)
  have clock: "tu_clock late_turn = \<lparr>tc_received = 20, tc_risk = 200000000, tc_queue = 40\<rparr>" by (simp add: late_turn_def)
  have alloc: "ee_alloc demo_engine_env = (\<lambda>_. 2)" by (simp add: demo_engine_env_def)
  have "\<exists>C. consumer_turn onMarketEvent (OrderQueuePusher (\<lambda>_. 2)) (ee_hdr demo_engine_env) late_turn (consumer_of 0 E) = Some C \<and>
      mc_objects C = (Some cd, Some pm') \<and> mc_orders C = q' \<and> mc_latency C \<noteq> None"
    using assms(1,2) pm
    by (simp add: consumer_turn_event late_turn_event clock consume_event_def consumer_of_def st pm'(2) OrderQueuePusher_def free q'(1) a Let_def)
  then obtain C where C: "consumer_turn onMarketEvent (OrderQueuePusher (\<lambda>_. 2)) (ee_hdr demo_engine_env) late_turn (consumer_of 0 E) = Some C"
    "mc_objects C = (Some cd, Some pm')" "mc_orders C = q'" by blast
  have "consumer_of 0 (E\<lparr>te_is_running := True\<rparr>) = consumer_of 0 E" by (simp add: consumer_of_def)
  then have "turn_exec demo_engine_env (ConsumerTurn 0 late_turn) E =
      Some (put_consumer 0 C (E\<lparr>te_is_running := True\<rparr>)\<lparr>te_is_running := te_is_running E\<rparr>)"
    using C(1) assms(1) alloc by (simp add: turn_exec_def)
  then show ?thesis using C(2,3) q'(2) pending by (intro exI [of _ "put_consumer 0 C (E\<lparr>te_is_running := True\<rparr>)\<lparr>te_is_running := te_is_running E\<rparr>"] exI [of _ ?ord]) (simp add: put_consumer_def ord_def)
qed

text \<open>What is left to do once the signal has arrived and the gateway has ended.\<close>

definition wind_down :: "life_action list" where
  "wind_down = [Main True, Main True, End SourceThread, Main True, End (ConsumerThread 0), Main True, Main True, Main True,
     End ListenerThread, Main True, Main True, Main True, Main True]"

lemma wind_down_run:
  assumes "lf_pc s = Looping" and "\<not> te_is_running (lf_engine s)" and "\<not> lf_shutdown_done s" and "length (te_strategies (lf_engine s)) = 1"
    and "lf_threads s = (\<lambda>_. NotJoinable)(ListenerThread := Running, SourceThread := Running, ConsumerThread 0 := Running, GatewayThread := Ended)"
  shows "\<exists>s'. run_list (life_exec V X) wind_down s = Some s' \<and> lf_pc s' = Destroyed \<and>
    te_queue (lf_engine s') = te_queue (lf_engine s) \<and> te_pm (lf_engine s') = te_pm (lf_engine s) \<and> lf_failed s' = lf_failed s"
proof -
  have "te_strategies (lf_engine s) \<noteq> []" using assms(4) by auto
  then show ?thesis using assms by (simp add: wind_down_def life_step_defs)
qed

text \<open>C40. An order can be left behind: the gateway's thread ends as soon as it finds the flag cleared and the queue empty, although
  a consumer that read the flag before may still be at work, and \<open>shutdown\<close> joins the consumers only to find the
  gateway gone. Here the risk check has approved an order of 100 after the signal, the order is in the
  queue when the engine is destroyed, it was never submitted, and its quantity is still reserved.\<close>

theorem order_left_behind:
  "\<exists>(E0 :: demo_engine) s ord. new_TradingEngine demo_hdr [] [] (Some ''k'', Some ''s'') one_symbol () None = Inr E0 \<and>
    lives demo_life demo_engine_env E0 s \<and> lf_pc s = Destroyed \<and> queue_rep (te_queue (lf_engine s)) [ord] \<and>
    getPendingPosition ''AAPL'' (te_pm (lf_engine s)) = 100"
proof -
  obtain E0 :: demo_engine where E0: "new_TradingEngine demo_hdr [] [] (Some ''k'', Some ''s'') one_symbol () None = Inr E0"
    "te_is_running E0" "te_symbols E0 = [''AAPL'']" "te_strategies E0 = []" "te_queue E0 = new_Queue zero_Order"
    "te_pm E0 = demo_book" "te_cooldown E0 = cooldown_registerAll [''AAPL''] (new_OrderCooldown 100000000)"
    "te_risk E0 = \<lparr>rm_max_position_per_symbol = 1000, rm_max_order_value = Fin 10000\<rparr>" by (rule demo_new)
  let ?run = "run_list (life_exec demo_life demo_engine_env)" and ?E1 = "stop (E0\<lparr>te_strategies := [default_strategy]\<rparr>)"
  obtain s1 where s1: "?run (replicate 6 (Main True)) (constructed E0) = Some s1" "lf_pc s1 = Looping"
    "lf_engine s1 = E0\<lparr>te_strategies := [default_strategy]\<rparr>" "\<not> lf_shutdown_done s1" "lf_is_running_ptr s1"
    "lf_threads s1 = (\<lambda>_. NotJoinable)(ListenerThread := Running, SourceThread := Running, GatewayThread := Running, ConsumerThread 0 := Running)"
    using started_run [OF E0(2,4,3)] by blast
  obtain E2 ord where E2: "turn_exec demo_engine_env (ConsumerTurn 0 late_turn) ?E1 = Some E2" "queue_rep (te_queue E2) [ord]"
    "getPendingPosition ''AAPL'' (te_pm E2) = 100" "\<not> te_is_running E2"
    using late_turn_queues [of ?E1] E0 by (auto simp: stop_def)
  let ?s2 = "s1\<lparr>lf_engine := E2, lf_threads := (lf_threads s1)(GatewayThread := Ended)\<rparr>"
  have "try_pop (new_Queue zero_Order) = Some (None, new_Queue zero_Order)" using try_pop_refines [OF queue_rep_new] by simp
  moreover have "turn_exec demo_engine_env Signal E = Some (stop E)" for E by (simp add: turn_exec_def)
  ultimately have mid: "?run [Turn Signal, End GatewayThread, Turn (ConsumerTurn 0 late_turn)] s1 = Some ?s2"
    using s1(3,5,6) E0(5) E2(1) by (simp add: thread_step_def stop_def)
  have "length (te_strategies E2) = 1" using turn_exec_frame(1) [OF E2(1)] by (simp add: stop_def)
  then obtain s3 where s3: "?run wind_down ?s2 = Some s3" "lf_pc s3 = Destroyed" "te_queue (lf_engine s3) = te_queue E2" "te_pm (lf_engine s3) = te_pm E2"
    using wind_down_run [of ?s2 demo_life demo_engine_env] s1 E2(4) by auto
  have "lives demo_life demo_engine_env E0 s1" by (rule lives_run [OF lives.born _ s1(1)]) simp
  then have "lives demo_life demo_engine_env E0 ?s2" by (rule lives_run [OF _ _ mid]) (simp add: late_turn_good)
  then have "lives demo_life demo_engine_env E0 s3" by (rule lives_run [OF _ _ s3(1)]) (simp add: wind_down_def)
  then show ?thesis using E0(1) s3 E2(2,3) by (intro exI [of _ E0] exI [of _ s3] exI [of _ ord]) simp
qed

end
