(* ===== verification/Trading_Main.thy ===== *)
theory Trading_Main
  imports Engine_Shutdown
begin

text \<open>
  \<open>main\<close> (\<open>src/main.cpp\<close>): the start-up sequence of \<open>App_Config\<close>, the two REST clients, the engine, its life and the
  exit code. \<open>getenv\<close> is the environment, \<open>session\<close> a fresh HTTP session. Every exception ends in exit code 1, after
  the engine, if it was constructed, has been destroyed.
\<close>

section \<open>The program\<close>

fun joined :: "string list \<Rightarrow> string" where
  "joined [] = []"
| "joined [symb] = symb"
| "joined (symb # symbols) = symb @ '', '' @ joined symbols"

definition logSymbols :: "AppConfig \<Rightarrow> string" where
  "logSymbols config = ''Trading symbols: ['' @ joined (tc_symbols (cfg_trading config)) @ '']''"

datatype main_error = BadConfig config_error | NoRestClient | NoEngine engine_error

text \<open>What \<open>main\<close> does before \<open>engine.run()\<close>: the engine and the line it has logged.\<close>

definition prepare :: "'j config_json \<Rightarrow> files \<Rightarrow> (string \<Rightarrow> string option) \<Rightarrow> 'h hdr_api \<Rightarrow> 'm \<Rightarrow> 'z \<Rightarrow> 'w \<Rightarrow> string list \<Rightarrow>
    main_error + (string \<times> (AlpacaRestClient \<times> 'w, 'm, 'h, 'z) TradingEngine)" where
  "prepare J fs getenv H no_orders sink session argv =
     (case startup J fs argv of
        Inl e \<Rightarrow> Inl (BadConfig e)
      | Inr config \<Rightarrow>
          (let line = logSymbols config;
               client = new_AlpacaRestClient getenv (ac_base_url (cfg_alpaca config)) (ac_rate_limit_threshold (cfg_alpaca config)) Drop
           in case client of
                None \<Rightarrow> Inl NoRestClient
              | Some rest \<Rightarrow>
                  (case client of
                     None \<Rightarrow> Inl NoRestClient
                   | Some reconciliation \<Rightarrow>
                       (case new_TradingEngine H no_orders sink (getenv ''APCA_API_KEY_ID'', getenv ''APCA_API_SECRET_KEY'') config
                               (rest, session) (Some (reconciliation, session)) of
                          Inl e \<Rightarrow> Inl (NoEngine e)
                        | Inr engine \<Rightarrow> Inr (line, engine)))))"

definition exit_code :: "('r, 'm, 'h, 'z) lifecycle \<Rightarrow> int" where
  "exit_code s = (if lf_failed s then 1 else 0)"

inductive main_exits :: "life_env \<Rightarrow> (AlpacaRestClient \<times> 'w, 'm, 'h, 'z, 'j) engine_env \<Rightarrow>
    main_error + (string \<times> (AlpacaRestClient \<times> 'w, 'm, 'h, 'z) TradingEngine) \<Rightarrow> int \<Rightarrow> bool"
  for V :: life_env and X :: "(AlpacaRestClient \<times> 'w, 'm, 'h, 'z, 'j) engine_env"
where
  not_started: "main_exits V X (Inl e) 1"
| ran: "lives V X engine s \<Longrightarrow> lf_pc s = Destroyed \<Longrightarrow> main_exits V X (Inr (line, engine)) (exit_code s)"

section \<open>What a clean exit means\<close>

text \<open>The symbols whose consumers have been launched fit a consumer.\<close>

definition fits :: "string list \<Rightarrow> life_pc \<Rightarrow> bool" where
  "fits symbols pc \<longleftrightarrow> (case launch_count pc of
     Some i \<Rightarrow> (\<forall>symb \<in> set (take i symbols). length symb \<le> 8)
   | None \<Rightarrow> (\<forall>symb \<in> set symbols. length symb \<le> 8))"

definition launch_inv :: "string list \<Rightarrow> ('r, 'm, 'h, 'z) lifecycle \<Rightarrow> bool" where
  "launch_inv symbols s \<longleftrightarrow> te_symbols (lf_engine s) = symbols \<and> (lf_failed s \<or> fits symbols (lf_pc s))"

lemma main_step_launch:
  assumes "launch_inv symbols s" and "main_step V ok s = Some s'"
  shows "launch_inv symbols s'"
proof -
  note defs = main_step_defs launch_inv_def fits_def launch_count_def join_def throw_def listener_start_def source_start_def launch_gateway_def
    launch_consumer_def start_thread_def enter_shutdown_def leave_shutdown_def stop_def new_Consumer_def Let_def
  show ?thesis
  proof (cases "lf_pc s")
    case (Launching i)
    have "take (Suc i) symbols = take i symbols @ [symbols ! i]" if "i < length symbols" using that by (rule take_Suc_conv_app_nth)
    then show ?thesis using assms Launching by (auto simp: defs split: if_splits)
  qed (use assms in \<open>auto simp: defs split: if_splits thread_status.splits\<close>)
qed

lemma life_exec_launch:
  assumes "launch_inv symbols s" and "life_exec V X a s = Some s'"
  shows "launch_inv symbols s'"
proof (cases a)
  case (Turn b)
  then have "thread_step X b s = Some s'" using assms(2) by simp
  then show ?thesis
  proof (cases rule: thread_stepE)
    case (2 E)
    then show ?thesis using assms(1) turn_exec_frame(3) [OF 2(1)] by (simp add: launch_inv_def)
  qed (use assms(1) in simp)
qed (use assms main_step_launch in \<open>auto simp: launch_inv_def split: if_splits\<close>)

lemma lives_launch: "lives V X E0 s \<Longrightarrow> launch_inv (te_symbols E0) s"
proof (induction rule: lives.induct)
  case born
  show ?case by (simp add: launch_inv_def fits_def launch_count_def constructed_def)
qed (rule life_exec_launch)

lemma prepare_cases:
  assumes "prepare J fs getenv H no_orders sink session argv = Inr (line, E)"
  obtains config rest where "startup J fs argv = Inr config" and "line = logSymbols config"
    and "getenv ''APCA_API_KEY_ID'' \<noteq> None" and "getenv ''APCA_API_SECRET_KEY'' \<noteq> None" and "te_symbols E = tc_symbols (cfg_trading config)"
proof -
  obtain config where config: "startup J fs argv = Inr config" using assms by (auto simp: prepare_def split: sum.splits)
  obtain client where client: "new_AlpacaRestClient getenv (ac_base_url (cfg_alpaca config)) (ac_rate_limit_threshold (cfg_alpaca config)) Drop = Some client"
    using assms config by (auto simp: prepare_def Let_def split: option.splits)
  have E: "new_TradingEngine H no_orders sink (getenv ''APCA_API_KEY_ID'', getenv ''APCA_API_SECRET_KEY'') config
      (client, session) (Some (client, session)) = Inr E" "line = logSymbols config"
    using assms config client by (auto simp: prepare_def Let_def split: sum.splits)
  show thesis
    using config E by (intro that) (auto simp: new_TradingEngine_def Let_def split: option.splits prod.splits)
qed

text \<open>C36. What exit code 0 means: the program returns 0 only after the command line and the configuration file gave a configuration in which
  the limits, the order quantity and the offset are positive, no symbol is listed twice and there is an address for
  market data; both credentials were in the environment, and every symbol of the configuration fits the 8
  characters of a consumer, so that all consumers were launched. Any other run, one whose configuration file lists a
  longer symbol among them, returns 1.\<close>

theorem clean_exit:
  assumes "main_exits V X (prepare J fs getenv H no_orders sink session argv) code"
  shows "(code = 0 \<or> code = 1) \<and>
    (code = 0 \<longrightarrow> getenv ''APCA_API_KEY_ID'' \<noteq> None \<and> getenv ''APCA_API_SECRET_KEY'' \<noteq> None \<and>
      (\<exists>config. startup J fs argv = Inr config \<and>
        0 < rc_max_position_per_symbol (cfg_risk config) \<and> \<not> fp_le (rc_max_order_value (cfg_risk config)) (Fin 0) \<and>
        0 < sc_order_quantity (cfg_strategy config) \<and> 0 < sc_spread_offset_ticks (cfg_strategy config) \<and>
        distinct (tc_symbols (cfg_trading config)) \<and> zc_market_data_address (cfg_zmq config) \<noteq> [] \<and>
        (\<forall>symb \<in> set (tc_symbols (cfg_trading config)). length symb \<le> 8)))"
  using assms
proof (cases rule: main_exits.cases)
  case (ran engine s line)
  obtain config where c: "startup J fs argv = Inr config" "getenv ''APCA_API_KEY_ID'' \<noteq> None" "getenv ''APCA_API_SECRET_KEY'' \<noteq> None"
    "te_symbols engine = tc_symbols (cfg_trading config)" using prepare_cases [OF ran(1)] by metis
  have "launch_inv (tc_symbols (cfg_trading config)) s" using lives_launch [OF ran(3)] c(4) by simp
  then have "lf_failed s \<or> (\<forall>symb \<in> set (tc_symbols (cfg_trading config)). length symb \<le> 8)"
    using ran(4) by (simp add: launch_inv_def fits_def launch_count_def)
  then show ?thesis using ran(2) c(1-3) startup_config_valid [OF c(1)] by (auto simp: exit_code_def)
qed simp

section \<open>A run that exits with 0\<close>

definition quiet_env :: "(AlpacaRestClient \<times> unit, (OrderSlotKey \<times> AlpacaOrderId) list, int list, string list, sample_json) engine_env" where
  "quiet_env = \<lparr>ee_hdr = demo_hdr, ee_slots = demo_slot_map,
     ee_rest = \<lparr>rest_placeOrder = (\<lambda>_ s. (Threw, s)), rest_cancelOrder = (\<lambda>_ s. (Threw, s)), rest_queryOrders = (\<lambda>_ _ s. (Threw, s))\<rparr>,
     ee_json = sample_api sample_cancel, ee_alloc = (\<lambda>_. 2), ee_parse = (\<lambda>_. []), ee_zmq = demo_pub, ee_pages = 1\<rparr>"

definition AAPL_args :: "string list" where
  "AAPL_args = [''engine'', ''--symbols'', ''AAPL'']"

lemma startup_AAPL:
  "startup no_json no_files AAPL_args =
     Inr ((with_address default_config)\<lparr>cfg_trading := \<lparr>tc_symbols = [''AAPL''], tc_order_cooldown_ns = 100000000\<rparr>\<rparr>)"
proof -
  let ?c = "(with_address default_config)\<lparr>cfg_trading := \<lparr>tc_symbols = [''AAPL''], tc_order_cooldown_ns = 100000000\<rparr>\<rparr>"
  have v: "validateConfig ?c = None"
    by (simp only: validateConfig_iff) (simp add: valid_config_def with_address_def default_config_def)
  have o: "applySymbolsOverride (with_address default_config) ''AAPL'' = Inr ?c"
    by (simp add: applySymbolsOverride_def getlines_line with_address_def default_config_def)
  show ?thesis using v o by (simp add: AAPL_args_def startup_def parseArgs_def loadConfig_def no_files_def)
qed

lemma AAPL_prepared:
  obtains line E where "prepare no_json no_files (\<lambda>_. Some ''k'') demo_hdr ([] :: (OrderSlotKey \<times> AlpacaOrderId) list) ([] :: string list) () AAPL_args = Inr (line, E)"
    and "te_is_running E" and "te_strategies E = []" and "te_symbols E = [''AAPL'']" and "te_queue E = new_Queue zero_Order"
proof -
  obtain lt where lt: "new_LatencyTracker demo_hdr = Some lt"
    by (simp add: new_LatencyTracker_def demo_hdr_def kMetricCount_def upt_rec)
  have "\<exists>p. prepare no_json no_files (\<lambda>_. Some ''k'') demo_hdr ([] :: (OrderSlotKey \<times> AlpacaOrderId) list) ([] :: string list) () AAPL_args = Inr p \<and>
      te_is_running (snd p) \<and> te_strategies (snd p) = [] \<and> te_symbols (snd p) = [''AAPL''] \<and> te_queue (snd p) = new_Queue zero_Order"
    by (simp add: prepare_def startup_AAPL new_AlpacaRestClient_def new_TradingEngine_def lt Let_def)
  then show thesis using that by auto
qed

theorem clean_exit_witness:
  "main_exits demo_life quiet_env (prepare no_json no_files (\<lambda>_. Some ''k'') demo_hdr [] [] () AAPL_args) 0 \<and>
   (\<exists>config. startup no_json no_files AAPL_args = Inr config \<and> 0 < rc_max_position_per_symbol (cfg_risk config) \<and>
      distinct (tc_symbols (cfg_trading config)) \<and> (\<forall>symb \<in> set (tc_symbols (cfg_trading config)). length symb \<le> 8))"
proof -
  obtain line and E where E: "prepare no_json no_files (\<lambda>_. Some ''k'') demo_hdr ([] :: (OrderSlotKey \<times> AlpacaOrderId) list) ([] :: string list) () AAPL_args = Inr (line, E)"
    "te_is_running E" "te_strategies E = []" "te_symbols E = [''AAPL'']" "te_queue E = new_Queue zero_Order" by (rule AAPL_prepared)
  let ?run = "run_list (life_exec demo_life quiet_env)"
  obtain s1 where s1: "?run (replicate 6 (Main True)) (constructed E) = Some s1" "lf_pc s1 = Looping"
    "lf_engine s1 = E\<lparr>te_strategies := [default_strategy]\<rparr>" "\<not> lf_shutdown_done s1" "\<not> lf_failed s1" "lf_is_running_ptr s1"
    "lf_threads s1 = (\<lambda>_. NotJoinable)(ListenerThread := Running, SourceThread := Running, GatewayThread := Running, ConsumerThread 0 := Running)"
    using started_run [OF E(2-4)] by blast
  let ?s2 = "s1\<lparr>lf_engine := stop (lf_engine s1), lf_threads := (lf_threads s1)(GatewayThread := Ended)\<rparr>"
  have "try_pop (new_Queue zero_Order) = Some (None, new_Queue zero_Order)" using try_pop_refines [OF queue_rep_new] by simp
  then have mid: "?run [Turn Signal, End GatewayThread] s1 = Some ?s2"
    using s1(3,6,7) E(5) by (simp add: thread_step_def turn_exec_def stop_def)
  obtain s3 where s3: "?run wind_down ?s2 = Some s3" "lf_pc s3 = Destroyed" "\<not> lf_failed s3"
    using wind_down_run [of ?s2 demo_life quiet_env] s1 by (auto simp: stop_def)
  have "lives demo_life quiet_env E s1" by (rule lives_run [OF lives.born _ s1(1)]) simp
  then have "lives demo_life quiet_env E ?s2" by (rule lives_run [OF _ _ mid]) simp
  then have "lives demo_life quiet_env E s3" by (rule lives_run [OF _ _ s3(1)]) (simp add: wind_down_def)
  from main_exits.ran [OF this s3(2)] have ex: "main_exits demo_life quiet_env (Inr (line, E)) 0" using s3(3) by (simp add: exit_code_def)
  from clean_exit [OF ex [folded E(1)]] show ?thesis using ex E(1) by auto
qed

end
