(* ===== verification/Fill_Paging.thy ===== *)
theory Fill_Paging
  imports Fill_Reconciliation
begin

text \<open>
  The loop of \<open>AlpacaFillListener::reconcileAfterReconnect\<close> over the pages of the broker's list: it ends, whatever
  the length of the list, when every page holds orders created after the cursor it was asked with, and what
  it has done then is reconcile the orders of the pages one by one.
\<close>

text \<open>The broker as the loop relies on it: a page holds orders of a finite history that were created after the
  cursor. \<open>time\<close> is the instant a timestamp denotes.\<close>

definition pages_after :: "(string \<Rightarrow> nat) \<Rightarrow> AlpacaOrderStatus list \<Rightarrow> 'r IRestClient \<Rightarrow> bool" where
  "pages_after time history R \<longleftrightarrow>
     (\<forall>cursor client page client'. rest_queryOrders R ''all'' cursor client = (Returned (Inr page), client') \<longrightarrow>
        (\<forall>ao \<in> set page. ao \<in> set history \<and> time cursor < time (os_created_at ao)))"

definition later :: "(string \<Rightarrow> nat) \<Rightarrow> AlpacaOrderStatus list \<Rightarrow> string \<Rightarrow> AlpacaOrderStatus set" where
  "later time history cursor = {ao \<in> set history. time cursor < time (os_created_at ao)}"

lemma later_shrinks:
  assumes "ao \<in> set history" and "time cursor < time (os_created_at ao)"
  shows "card (later time history (os_created_at ao)) < card (later time history cursor)"
  using assms by (intro psubset_card_mono) (auto simp: later_def)

lemma card_later: "card (later time history cursor) \<le> length history"
  using card_mono [of "set history" "later time history cursor"] card_length [of history]
  by (force simp: later_def)

text \<open>The state in which the loop leaves the listener.\<close>

definition left_with :: "(bool \<times> 'r \<times> 'l) option \<Rightarrow> 'l option" where
  "left_with r = map_option (snd \<circ> snd) r"

lemma reconcile_pages_run:
  assumes "pages_after time history R"
  shows "card (later time history cursor) < n \<Longrightarrow>
    \<exists>records. set records \<subseteq> set history \<and>
      left_with (reconcile_pages n R M cursor client L) = run_list (reconcile_order M) records L"
proof (induction n arbitrary: cursor client L)
  case (Suc n)
  have stop: ?case if "left_with (reconcile_pages (Suc n) R M cursor client L) = Some L"
    using that by (intro exI [of _ "[]"]) simp
  consider (threw) c where "rest_queryOrders R ''all'' cursor client = (Threw, c)"
    | (error) e c where "rest_queryOrders R ''all'' cursor client = (Returned (Inl e), c)"
    | (page) page c where "rest_queryOrders R ''all'' cursor client = (Returned (Inr page), c)"
    by (metis outcome.exhaust old.sum.exhaust surj_pair)
  then show ?case
  proof cases
    case page
    then have p: "\<forall>ao \<in> set page. ao \<in> set history \<and> time cursor < time (os_created_at ao)"
      using assms unfolding pages_after_def by blast
    have only: ?thesis if "left_with (reconcile_pages (Suc n) R M cursor client L) = reconcile_page M page L"
      using p that by (intro exI [of _ page]) (auto simp: reconcile_page_def)
    show ?thesis
    proof (cases "reconcile_page M page L")
      case None
      then show ?thesis using page by (intro only) (simp add: left_with_def)
    next
      case (Some L1)
      show ?thesis
      proof (cases "length page < kPageSize \<or> page = [] \<or> os_created_at (last page) = []")
        case True
        then show ?thesis using page Some by (intro only) (auto simp: left_with_def Let_def)
      next
        case False
        let ?c = "os_created_at (last page)"
        have "card (later time history ?c) < n"
          using later_shrinks [of "last page" history time cursor] p False Suc.prems by simp
        from Suc.IH [OF this, of c L1] obtain rs where rs: "set rs \<subseteq> set history"
          "left_with (reconcile_pages n R M ?c c L1) = run_list (reconcile_order M) rs L1" by blast
        have "left_with (reconcile_pages (Suc n) R M cursor client L) = left_with (reconcile_pages n R M ?c c L1)"
          using page Some False by (simp add: Let_def)
        then show ?thesis using rs p Some
          by (intro exI [of _ "page @ rs"]) (auto simp: run_list_append reconcile_page_def)
      qed
    qed
  qed (rule stop; simp add: left_with_def)+
qed simp

text \<open>C27. The reconciliation ends: against a broker with a finite history of orders whose pages hold only orders created
  after the cursor, the loop over pages stops within one query per order of the history and one more, and it
  leaves the listener exactly as reconciling some list of orders of the history one by one does. So when
  those orders can be booked at all, the call returns.\<close>

theorem reconciliation_ends:
  assumes "pages_after time history R" and "length history < pages"
  shows "\<exists>records. set records \<subseteq> set history \<and>
    left_with (reconcile_pages pages R M cursor client L) = run_list (reconcile_order M) records L"
  by (rule reconcile_pages_run [OF assms(1)]) (use card_later [of time history cursor] assms(2) in linarith)

text \<open>A broker with two open orders, created at the instants 1 and 2, which it lists after their time.\<close>

definition open_order :: "string \<Rightarrow> string \<Rightarrow> AlpacaOrderStatus" where
  "open_order i created = \<lparr>os_id = i, os_symbol = ''AAPL'', os_side = ''buy'', os_status = ''new'', os_created_at = created,
     os_qty = 10, os_filled_qty = 0, os_filled_avg_price = Fin 0\<rparr>"

definition two_orders :: "AlpacaOrderStatus list" where
  "two_orders = [open_order ''id-1'' ''a'', open_order ''id-2'' ''aa'']"

definition listing_broker :: "unit IRestClient" where
  "listing_broker = \<lparr>rest_placeOrder = (\<lambda>_ s. (Threw, s)), rest_cancelOrder = (\<lambda>_ s. (Threw, s)),
     rest_queryOrders = (\<lambda>_ cursor s. (Returned (Inr (filter (\<lambda>ao. length cursor < length (os_created_at ao)) two_orders)), s))\<rparr>"

theorem reconciliation_ends_witness:
  "reconcile_pages 3 listing_broker demo_slot_map [] () demo_listener \<noteq> None"
proof -
  have "pages_after length two_orders listing_broker" by (auto simp: pages_after_def listing_broker_def)
  from reconciliation_ends [OF this, of 3 demo_slot_map "[]" "()" demo_listener]
  obtain rs where rs: "set rs \<subseteq> set two_orders"
    "left_with (reconcile_pages 3 listing_broker demo_slot_map [] () demo_listener) =
      run_list (reconcile_order demo_slot_map) rs demo_listener" by (auto simp: two_orders_def)
  have "reconcile_order demo_slot_map ao L = Some L" if "ao \<in> set two_orders" for ao and L :: "(unit, _, int list) FillListener"
    using that by (auto simp: two_orders_def open_order_def reconcile_order_def parseSide_def is_fill_status_def is_cancel_status_def)
  then have "set qs \<subseteq> set two_orders \<Longrightarrow> run_list (reconcile_order demo_slot_map) qs L = Some L"
    for qs and L :: "(unit, _, int list) FillListener"
    by (induction qs) auto
  with rs show ?thesis by (auto simp: left_with_def)
qed

end
