(* ===== verification/Position_Threads.thy ===== *)
theory Position_Threads
  imports Position_Book
begin

text \<open>
  \<open>PositionManager\<close> under several threads. \<open>Position_Manager\<close> gives each member function as one step; here
  every atomic access is a step of its own (\<open>entry.key.load\<close>, \<open>compare_exchange_strong\<close>, \<open>load\<close>, \<open>fetch_add\<close>,
  \<open>fetch_sub\<close>), and any number of threads take steps in any order, under sequential consistency. The two
  loads of \<open>getTotalExposure\<close> are taken in the order in which they are written.
\<close>

section \<open>Member functions as sequences of accesses\<close>

datatype field = FFilled | FPending | FCost | FPnl

primrec get_field :: "field \<Rightarrow> Entry \<Rightarrow> i64" where
  "get_field FFilled e = e_filled e"
| "get_field FPending e = e_pending e"
| "get_field FCost e = e_cost_basis_total e"
| "get_field FPnl e = e_realized_pnl e"

primrec fetch_add :: "field \<Rightarrow> i64 \<Rightarrow> Entry \<Rightarrow> Entry" where
  "fetch_add FFilled d e = e\<lparr>e_filled := wrap_i64 (e_filled e + d)\<rparr>"
| "fetch_add FPending d e = e\<lparr>e_pending := wrap_i64 (e_pending e + d)\<rparr>"
| "fetch_add FCost d e = e\<lparr>e_cost_basis_total := wrap_i64 (e_cost_basis_total e + d)\<rparr>"
| "fetch_add FPnl d e = e\<lparr>e_realized_pnl := wrap_i64 (e_realized_pnl e + d)\<rparr>"

text \<open>What is left of a call once it holds its entry; a \<open>fetch_sub\<close> adds the negated amount. \<open>Undefined\<close> is
  signed overflow between two accesses.\<close>

datatype code = Return i64 | Undefined | Load field "i64 \<Rightarrow> code" | FetchAdd field i64 code

definition checked :: "i64 option \<Rightarrow> (i64 \<Rightarrow> code) \<Rightarrow> code" where
  "checked x f = (case x of None \<Rightarrow> Undefined | Some v \<Rightarrow> f v)"

definition buy_code :: "i64 \<Rightarrow> i64 \<Rightarrow> i64 \<Rightarrow> code" where
  "buy_code price_scaled qty current_filled =
     (let finish = FetchAdd FFilled qty (FetchAdd FPending (- qty) (Return 0))
      in if current_filled < 0
         then checked (i64_neg current_filled) (\<lambda>short_qty.
           let cover_qty = min qty short_qty;
               rest = checked (i64_sub qty cover_qty) (\<lambda>open_qty.
                 if open_qty > 0 then checked (i64_mul price_scaled open_qty) (\<lambda>cost. FetchAdd FCost cost finish)
                 else finish)
           in if cover_qty > 0
              then Load FCost (\<lambda>cost_basis.
                checked (i64_mul cost_basis cover_qty) (\<lambda>scaled.
                checked (i64_div scaled current_filled) (\<lambda>cost_removed.
                checked (i64_mul price_scaled cover_qty) (\<lambda>paid.
                checked (i64_sub cost_removed paid) (\<lambda>pnl.
                FetchAdd FPnl pnl (FetchAdd FCost cost_removed rest))))))
              else rest)
         else checked (i64_mul price_scaled qty) (\<lambda>cost. FetchAdd FCost cost finish))"

definition sell_code :: "i64 \<Rightarrow> i64 \<Rightarrow> i64 \<Rightarrow> code" where
  "sell_code price_scaled qty current_filled =
     (let finish = FetchAdd FFilled (- qty) (FetchAdd FPending qty (Return 0))
      in if current_filled > 0
         then let sell_qty = min qty current_filled;
                  rest = checked (i64_sub qty sell_qty) (\<lambda>short_qty.
                    if short_qty > 0 then checked (i64_mul price_scaled short_qty) (\<lambda>cost. FetchAdd FCost (- cost) finish)
                    else finish)
              in if sell_qty > 0
                 then Load FCost (\<lambda>cost_basis.
                   checked (i64_mul cost_basis sell_qty) (\<lambda>scaled.
                   checked (i64_div scaled current_filled) (\<lambda>cost_removed.
                   checked (i64_mul price_scaled sell_qty) (\<lambda>received.
                   checked (i64_sub received cost_removed) (\<lambda>pnl.
                   FetchAdd FPnl pnl (FetchAdd FCost (- cost_removed) rest))))))
                 else rest
         else checked (i64_mul price_scaled qty) (\<lambda>cost. FetchAdd FCost (- cost) finish))"

datatype pos_call = Registering string | Sending Order | Cancelling Order | Filling Fill | Reading string

primrec call_key :: "pos_call \<Rightarrow> u64" where
  "call_key (Registering symbol) = symbolToKey symbol"
| "call_key (Sending ord) = ord_key ord"
| "call_key (Cancelling ord) = ord_key ord"
| "call_key (Filling fill) = fill_key fill"
| "call_key (Reading symbol) = symbolToKey symbol"

text \<open>Whether the call probes with \<open>findOrInsert\<close>, or with \<open>findMutable\<close> or \<open>find\<close>.\<close>

primrec call_inserts :: "pos_call \<Rightarrow> bool" where
  "call_inserts (Registering symbol) = True"
| "call_inserts (Sending ord) = True"
| "call_inserts (Cancelling ord) = False"
| "call_inserts (Filling fill) = True"
| "call_inserts (Reading symbol) = False"

primrec call_code :: "pos_call \<Rightarrow> code" where
  "call_code (Registering symbol) = Return 0"
| "call_code (Sending ord) =
     checked (if ord_side ord = Sell then i64_neg (ord_quantity ord) else Some (ord_quantity ord))
       (\<lambda>delta. FetchAdd FPending delta (Return 0))"
| "call_code (Cancelling ord) =
     checked (if ord_side ord = Sell then i64_neg (ord_quantity ord) else Some (ord_quantity ord))
       (\<lambda>delta. FetchAdd FPending (- delta) (Return 0))"
| "call_code (Filling fill) =
     checked (scaled_price (fill_price fill)) (\<lambda>price_scaled.
       Load FFilled (\<lambda>current_filled.
         case fill_side fill of
           Buy \<Rightarrow> buy_code price_scaled (fill_quantity fill) current_filled
         | Sell \<Rightarrow> sell_code price_scaled (fill_quantity fill) current_filled))"
| "call_code (Reading symbol) =
     Load FFilled (\<lambda>filled. Load FPending (\<lambda>pending. checked (i64_add filled pending) Return))"

section \<open>Threads\<close>

text \<open>A thread between calls; about to load the key of its \<open>i\<close>-th slot; about to claim that slot, which it saw
  empty; or working on the entry it found, with what this call has added so far.\<close>

datatype pos_thread = Resting | Probing pos_call nat | Claiming pos_call nat
  | Working pos_call nat "(field \<times> i64) list" code

record pos_system =
  ps_pm :: PositionManager
  ps_threads :: "pos_thread list"

datatype pos_event = Quiet | Finished pos_call "i64 option"

abbreviation slot_of :: "pos_call \<Rightarrow> nat \<Rightarrow> nat" where
  "slot_of c i \<equiv> probe_slot (hash (call_key c) AND kMask) i"

definition set_entry :: "nat \<Rightarrow> Entry \<Rightarrow> PositionManager \<Rightarrow> PositionManager" where
  "set_entry j e pm = pm\<lparr>pm_table := (pm_table pm)[j := e]\<rparr>"

text \<open>One access of a thread: what it reports, the thread after it, and the table after it.\<close>

primrec access :: "pos_thread \<Rightarrow> PositionManager \<Rightarrow> (pos_event \<times> pos_thread \<times> PositionManager) option" where
  "access Resting pm = None"
| "access (Probing c i) pm =
     (if i < kMaxSymbols
      then let j = slot_of c i; expected = e_key (pm_table pm ! j)
           in if expected = call_key c then Some (Quiet, Working c j [] (call_code c), pm)
              else if expected = kEmptySlot
              then if call_inserts c then Some (Quiet, Claiming c i, pm) else Some (Finished c None, Resting, pm)
              else Some (Quiet, Probing c (Suc i), pm)
      else Some (Finished c None, Resting, pm))"
| "access (Claiming c i) pm =
     (let j = slot_of c i; expected = e_key (pm_table pm ! j)
      in if expected = kEmptySlot
         then Some (Quiet, Working c j [] (call_code c), set_entry j ((pm_table pm ! j)\<lparr>e_key := call_key c\<rparr>) pm)
         else if expected = call_key c then Some (Quiet, Working c j [] (call_code c), pm)
         else Some (Quiet, Probing c (Suc i), pm))"
| "access (Working c j added code) pm =
     (case code of
        Return r \<Rightarrow> Some (Finished c (Some r), Resting, pm)
      | Undefined \<Rightarrow> None
      | Load f rest \<Rightarrow> Some (Quiet, Working c j added (rest (get_field f (pm_table pm ! j))), pm)
      | FetchAdd f d rest \<Rightarrow>
          Some (Quiet, Working c j (added @ [(f, d)]) rest, set_entry j (fetch_add f d (pm_table pm ! j)) pm))"

datatype pos_action = Begin nat pos_call | Step nat

primrec pos_exec :: "pos_action \<Rightarrow> pos_system \<Rightarrow> (pos_event \<times> pos_system) option" where
  "pos_exec (Begin t c) s =
     (if t < length (ps_threads s)
      then case ps_threads s ! t of
          Resting \<Rightarrow> Some (Quiet, s\<lparr>ps_threads := (ps_threads s)[t := Probing c 0]\<rparr>)
        | _ \<Rightarrow> None
      else None)"
| "pos_exec (Step t) s =
     (if t < length (ps_threads s)
      then map_option (\<lambda>(e, th, pm). (e, s\<lparr>ps_pm := pm, ps_threads := (ps_threads s)[t := th]\<rparr>))
        (access (ps_threads s ! t) (ps_pm s))
      else None)"

text \<open>\<open>may t c\<close>: thread \<open>t\<close> makes calls like \<open>c\<close>.\<close>

primrec good_call :: "(nat \<Rightarrow> pos_call \<Rightarrow> bool) \<Rightarrow> pos_action \<Rightarrow> bool" where
  "good_call may (Begin t c) \<longleftrightarrow> valid_key (call_key c) \<and> may t c"
| "good_call may (Step t) \<longleftrightarrow> True"

inductive pos_reach :: "(nat \<Rightarrow> pos_call \<Rightarrow> bool) \<Rightarrow> PositionManager \<Rightarrow> nat \<Rightarrow> pos_event list \<Rightarrow> pos_system \<Rightarrow> bool"
  for may :: "nat \<Rightarrow> pos_call \<Rightarrow> bool" and pm0 :: PositionManager and n :: nat
where
  pos_start: "pos_reach may pm0 n [] \<lparr>ps_pm = pm0, ps_threads = replicate n Resting\<rparr>"
| pos_step: "pos_reach may pm0 n es s \<Longrightarrow> good_call may a \<Longrightarrow> pos_exec a s = Some (e, s') \<Longrightarrow>
    pos_reach may pm0 n (es @ [e]) s'"

section \<open>One thread alone makes the calls of \<open>Position_Manager\<close>\<close>

primrec run_code :: "code \<Rightarrow> Entry \<Rightarrow> (i64 \<times> Entry) option" where
  "run_code (Return r) e = Some (r, e)"
| "run_code Undefined e = None"
| "run_code (Load f rest) e = run_code (rest (get_field f e)) e"
| "run_code (FetchAdd f d rest) e = run_code rest (fetch_add f d e)"

lemma run_code_checked: "run_code (checked x f) e = (case x of None \<Rightarrow> None | Some v \<Rightarrow> run_code (f v) e)"
  by (simp add: checked_def split: option.splits)

lemma run_buy_code:
  "map_option snd (run_code (buy_code p q (e_filled e)) e) = applyBuyFill e p q (e_filled e)"
  by (simp add: buy_code_def applyBuyFill_def Let_def run_code_checked split: Option.bind_splits option.splits)

lemma run_sell_code:
  "map_option snd (run_code (sell_code p q (e_filled e)) e) = applySellFill e p q (e_filled e)"
  by (simp add: sell_code_def applySellFill_def Let_def run_code_checked split: Option.bind_splits option.splits)

definition fill_step :: "Fill \<Rightarrow> Entry \<Rightarrow> Entry option" where
  "fill_step fill e = do {
     p \<leftarrow> scaled_price (fill_price fill);
     fill_entry (fill_side fill) p (fill_quantity fill) e
   }"

lemma run_fill_code: "map_option snd (run_code (call_code (Filling fill)) e) = fill_step fill e"
  by (simp add: fill_step_def run_code_checked fill_entry_def run_buy_code run_sell_code
      split: option.splits OrderSide.splits)

section \<open>What a call adds, on every path\<close>

primrec adds :: "code \<Rightarrow> field \<Rightarrow> int \<Rightarrow> bool" where
  "adds (Return r) f d \<longleftrightarrow> d = 0"
| "adds Undefined f d \<longleftrightarrow> True"
| "adds (Load h rest) f d \<longleftrightarrow> (\<forall>x. adds (rest x) f d)"
| "adds (FetchAdd h x rest) f d \<longleftrightarrow> adds rest f (d - (if h = f then x else 0))"

primrec call_filled :: "pos_call \<Rightarrow> int" where
  "call_filled (Registering symbol) = 0"
| "call_filled (Sending ord) = 0"
| "call_filled (Cancelling ord) = 0"
| "call_filled (Filling fill) = signed_qty (fill_side fill) (fill_quantity fill)"
| "call_filled (Reading symbol) = 0"

primrec call_pending :: "pos_call \<Rightarrow> int" where
  "call_pending (Registering symbol) = 0"
| "call_pending (Sending ord) = signed_qty (ord_side ord) (ord_quantity ord)"
| "call_pending (Cancelling ord) = - signed_qty (ord_side ord) (ord_quantity ord)"
| "call_pending (Filling fill) = - signed_qty (fill_side fill) (fill_quantity fill)"
| "call_pending (Reading symbol) = 0"

lemma adds_checked: "adds (checked x f) h d \<longleftrightarrow> (\<forall>v. x = Some v \<longrightarrow> adds (f v) h d)"
  by (simp add: checked_def split: option.splits)

lemma adds_fill_code:
  "adds (buy_code p q cf) FFilled q" "adds (buy_code p q cf) FPending (- q)"
  "adds (sell_code p q cf) FFilled (- q)" "adds (sell_code p q cf) FPending q"
  by (simp_all add: buy_code_def sell_code_def Let_def adds_checked)

lemma adds_call_code:
  "adds (call_code c) FFilled (call_filled c)" "adds (call_code c) FPending (call_pending c)"
  by (cases c; auto simp: adds_checked adds_fill_code signed_delta_eq_Some split: OrderSide.splits)+

section \<open>The invariant\<close>

definition added_to :: "field \<Rightarrow> (field \<times> i64) list \<Rightarrow> int" where
  "added_to f added = sum_list (map snd (filter (\<lambda>(h, d). h = f) added))"

lemma added_to_simps [simp]:
  "added_to f [] = 0" "added_to f (added @ [(h, d)]) = added_to f added + (if h = f then d else 0)"
  by (simp_all add: added_to_def)

definition passed :: "pos_call \<Rightarrow> nat \<Rightarrow> PositionManager \<Rightarrow> bool" where
  "passed c i pm \<longleftrightarrow> valid_key (call_key c) \<and> (\<forall>i' < i. e_key (pm_table pm ! slot_of c i') \<notin> {call_key c, kEmptySlot})"

primrec thread_ok :: "PositionManager \<Rightarrow> pos_thread \<Rightarrow> bool" where
  "thread_ok pm Resting \<longleftrightarrow> True"
| "thread_ok pm (Probing c i) \<longleftrightarrow> passed c i pm"
| "thread_ok pm (Claiming c i) \<longleftrightarrow> passed c i pm \<and> i < kMaxSymbols"
| "thread_ok pm (Working c j added code) \<longleftrightarrow> valid_key (call_key c) \<and> find_entry (call_key c) pm = Some j \<and>
     adds code FFilled (call_filled c - added_to FFilled added) \<and>
     adds code FPending (call_pending c - added_to FPending added)"

definition sys_ok :: "pos_system \<Rightarrow> bool" where
  "sys_ok s \<longleftrightarrow> pm_inv (ps_pm s) \<and> (\<forall>th \<in> set (ps_threads s). thread_ok (ps_pm s) th)"

text \<open>A key once written stays; what a thread has seen of the table stays true.\<close>

definition grows :: "PositionManager \<Rightarrow> PositionManager \<Rightarrow> bool" where
  "grows pm pm' \<longleftrightarrow> (\<forall>j < kMaxSymbols. e_key (pm_table pm ! j) \<noteq> kEmptySlot \<longrightarrow> e_key (pm_table pm' ! j) = e_key (pm_table pm ! j))"

lemma table_grows_refl [simp]: "grows pm pm"
  by (simp add: grows_def)

lemma table_grows_trans: "grows pm pm' \<Longrightarrow> grows pm' pm'' \<Longrightarrow> grows pm pm''"
  by (simp add: grows_def)

lemma thread_ok_grows:
  assumes "pm_inv pm" and "pm_inv pm'" and "grows pm pm'" and "thread_ok pm th"
  shows "thread_ok pm' th"
proof -
  have p: "passed c i pm'" if "passed c i pm" for c i
    using that assms(3) by (simp add: passed_def grows_def)
  have "find_entry k pm' = Some j" if "find_entry k pm = Some j" "valid_key k" for k j
    using that assms(1-3) by (simp add: find_entry_iff grows_def)
  then show ?thesis using assms(4) p by (cases th) auto
qed

lemma passed_slot:
  assumes "pm_inv pm" and "passed c i pm" and "i < kMaxSymbols" and "e_key (pm_table pm ! slot_of c i) \<in> {call_key c, kEmptySlot}"
  shows "first_hit (pm_keys pm) (call_key c) = Some (slot_of c i)"
  unfolding first_hit_def find_Some_iff
  using assms by (intro exI [of _ i]) (auto simp: probe_path_def passed_def)

lemma claim_slot:
  assumes inv: "pm_inv pm" and p: "passed c i pm" "i < kMaxSymbols" and free: "e_key (pm_table pm ! slot_of c i) = kEmptySlot"
  defines "pm' \<equiv> set_entry (slot_of c i) ((pm_table pm ! slot_of c i)\<lparr>e_key := call_key c\<rparr>) pm"
  shows "pm_inv pm'" and "grows pm pm'" and "find_entry (call_key c) pm' = Some (slot_of c i)"
    and "valid_key k \<Longrightarrow> position pm' k = position pm k"
proof -
  have hit: "first_hit (pm_keys pm) (call_key c) = Some (slot_of c i)" using passed_slot [OF inv p] free by simp
  have f: "findOrInsert (call_key c) pm = (Some (slot_of c i), pm')"
    using inv by (simp add: findOrInsert_hit hit pm'_def set_entry_def)
  have v: "valid_key (call_key c)" using p(1) by (simp add: passed_def)
  show "pm_inv pm'" "find_entry (call_key c) pm' = Some (slot_of c i)"
    using findOrInsert_inv [OF inv v f] findOrInsert_find [OF inv v f] .
  show "grows pm pm'" using free by (auto simp: grows_def pm'_def set_entry_def) (metis nth_list_update_neq)
  show "position pm' k = position pm k" if "valid_key k" using findOrInsert_position [OF inv v f that] .
qed

lemma fetch_add_key [simp]: "e_key (fetch_add f d e) = e_key e"
  by (cases f) simp_all

lemma fetch_add_get: "get_field h (fetch_add f d e) = (if h = f then wrap_i64 (get_field h e + d) else get_field h e)"
  by (cases f; cases h) simp_all

lemma fetch_add_ok: "entry_ok e \<Longrightarrow> e_key e \<noteq> kEmptySlot \<Longrightarrow> entry_ok (fetch_add f d e)"
  by (cases f) (simp_all add: entry_ok_def)

lemma get_field_in_i64: "entry_ok e \<Longrightarrow> in_i64 (get_field f e)"
  by (cases f) (simp_all add: entry_ok_def)

lemma add_to_slot:
  fixes f :: field and d :: i64
  assumes inv: "pm_inv pm" and k: "valid_key k" "find_entry k pm = Some j"
  defines "pm' \<equiv> set_entry j (fetch_add f d (pm_table pm ! j)) pm"
  shows "pm_inv pm'" and "grows pm pm'" and "find_entry k pm' = Some j"
    and "valid_key k' \<Longrightarrow> position pm' k' = (if k' = k then fetch_add f d (position pm k) else position pm k')"
proof -
  have j: "j < kMaxSymbols" "e_key (pm_table pm ! j) = k" using find_entry_iff [OF inv k(1)] k(2) by auto
  have e: "position pm k = pm_table pm ! j" using k(2) by (simp add: position_def)
  have ok: "e_key (fetch_add f d (pm_table pm ! j)) = k" "entry_ok (fetch_add f d (pm_table pm ! j))"
    using j k(1) pm_inv_entry [OF inv j(1)] by (simp_all add: fetch_add_ok)
  note L = set_slot_laws [OF inv k(2,1) ok, folded set_entry_def, folded pm'_def]
  show "pm_inv pm'" by (rule L(1))
  show "grows pm pm'" using j inv by (simp add: grows_def pm'_def set_entry_def nth_list_update)
  then show "find_entry k pm' = Some j" using find_entry_iff [OF L(1) k(1)] j k(1) by (simp add: grows_def)
  show "position pm' k' = (if k' = k then fetch_add f d (position pm k) else position pm k')" if "valid_key k'"
    using L(2) [OF that] e by simp
qed

section \<open>One access\<close>

text \<open>What the unfinished call of a thread, and what a finished call, has added to a quantity of a key.\<close>

abbreviation call_total :: "field \<Rightarrow> pos_call \<Rightarrow> int" where
  "call_total f c \<equiv> (if f = FFilled then call_filled c else call_pending c)"

definition paid :: "field \<Rightarrow> u64 \<Rightarrow> pos_thread \<Rightarrow> int" where
  "paid f k th = (case th of Working c j added code \<Rightarrow> if call_key c = k then added_to f added else 0 | _ \<Rightarrow> 0)"

definition settled :: "field \<Rightarrow> u64 \<Rightarrow> pos_event \<Rightarrow> int" where
  "settled f k e = (case e of Finished c (Some r) \<Rightarrow> if call_key c = k then call_total f c else 0 | _ \<Rightarrow> 0)"

definition moves :: "PositionManager \<Rightarrow> pos_thread \<Rightarrow> pos_event \<Rightarrow> pos_thread \<Rightarrow> PositionManager \<Rightarrow> bool" where
  "moves pm th e th' pm' \<longleftrightarrow> (\<forall>k f. valid_key k \<longrightarrow> f \<in> {FFilled, FPending} \<longrightarrow>
     get_field f (position pm' k) = wrap_i64 (get_field f (position pm k) + (paid f k th' + settled f k e - paid f k th)))"

lemma moves_same:
  assumes "pm_inv pm" and "\<And>k f. valid_key k \<Longrightarrow> f \<in> {FFilled, FPending} \<Longrightarrow> paid f k th' + settled f k e = paid f k th"
    and "\<And>k. valid_key k \<Longrightarrow> position pm' k = position pm k"
  shows "moves pm th e th' pm'"
  using assms(2,3) get_field_in_i64 [OF position_ok [OF assms(1)]] by (simp add: moves_def)

lemma access_laws:
  assumes inv: "pm_inv pm" and th: "thread_ok pm th" and a: "access th pm = Some (e, th', pm')"
  shows "pm_inv pm' \<and> grows pm pm' \<and> thread_ok pm' th' \<and> moves pm th e th' pm'"
proof (cases th)
  case (Probing c i)
  then have p: "passed c i pm" using th by simp
  have v: "valid_key (call_key c)" using p by (simp add: passed_def)
  have pm': "pm' = pm" using a Probing by (auto simp: Let_def split: if_splits)
  have "thread_ok pm th'"
    using a Probing p v inv
    by (auto simp: Let_def less_Suc_eq passed_def find_entry_iff adds_call_code split: if_splits)
  moreover have "moves pm th e th' pm"
    using a Probing by (intro moves_same [OF inv]) (auto simp: Let_def paid_def settled_def split: if_splits)
  ultimately show ?thesis using inv pm' by simp
next
  case (Claiming c i)
  then have p: "passed c i pm" "i < kMaxSymbols" using th by simp_all
  have v: "valid_key (call_key c)" using p by (simp add: passed_def)
  show ?thesis
  proof (cases "e_key (pm_table pm ! slot_of c i) = kEmptySlot")
    case True
    note C = claim_slot [OF inv p True]
    have e: "e = Quiet" "th' = Working c (slot_of c i) [] (call_code c)"
      "pm' = set_entry (slot_of c i) ((pm_table pm ! slot_of c i)\<lparr>e_key := call_key c\<rparr>) pm"
      using a Claiming True by (simp_all add: Let_def)
    have "moves pm th e th' pm'"
      using Claiming e C(4) by (intro moves_same [OF inv]) (simp_all add: paid_def settled_def)
    then show ?thesis using C e v by (simp add: adds_call_code)
  next
    case False
    have pm': "pm' = pm" using a Claiming False by (auto simp: Let_def split: if_splits)
    have "thread_ok pm th'"
      using a Claiming p v inv False
      by (auto simp: Let_def less_Suc_eq passed_def find_entry_iff adds_call_code split: if_splits)
    moreover have "moves pm th e th' pm"
      using a Claiming False by (intro moves_same [OF inv]) (auto simp: Let_def paid_def settled_def split: if_splits)
    ultimately show ?thesis using inv pm' by simp
  qed
next
  case (Working c j added code)
  then have w: "valid_key (call_key c)" "find_entry (call_key c) pm = Some j"
    "adds code FFilled (call_filled c - added_to FFilled added)"
    "adds code FPending (call_pending c - added_to FPending added)" using th by simp_all
  show ?thesis
  proof (cases code)
    case (FetchAdd f d rest)
    note A = add_to_slot [OF inv w(1,2), where f = f and d = d]
    have e: "e = Quiet" "th' = Working c j (added @ [(f, d)]) rest" "pm' = set_entry j (fetch_add f d (pm_table pm ! j)) pm"
      using a Working FetchAdd by simp_all
    have "get_field h (position pm' k) = wrap_i64 (get_field h (position pm k) + (paid h k th' + settled h k e - paid h k th))"
      if "valid_key k" for h k
      using Working e A(4) [OF that] get_field_in_i64 [OF position_ok [OF inv]]
      by (simp add: paid_def settled_def fetch_add_get)
    then have "moves pm th e th' pm'" by (simp only: moves_def) blast
    then show ?thesis using A(1-3) e w FetchAdd by (simp add: diff_diff_eq)
  next
    case (Return r)
    have "moves pm th e th' pm"
      using a Working Return w(3,4) by (intro moves_same [OF inv]) (auto simp: paid_def settled_def)
    then show ?thesis using a Working Return inv by simp
  next
    case (Load f rest)
    have "moves pm th e th' pm"
      using a Working Load by (intro moves_same [OF inv]) (auto simp: paid_def settled_def)
    then show ?thesis using a Working Load inv w by auto
  qed (use a Working in simp)
qed (use a in simp)

section \<open>Reachable states\<close>

lemma sum_list_set_nth:
  fixes g :: "'a \<Rightarrow> int"
  assumes "i < length xs"
  shows "sum_list (map g (xs[i := x])) = sum_list (map g xs) - g (xs ! i) + g x"
  using assms
proof (induction xs arbitrary: i)
  case (Cons y ys)
  then show ?case by (cases i) auto
qed simp

lemma sys_ok_exec:
  assumes s: "sys_ok s" and a: "good_call may a" "pos_exec a s = Some (e, s')"
  shows "sys_ok s'" and "length (ps_threads s') = length (ps_threads s)"
    and "valid_key k \<Longrightarrow> f \<in> {FFilled, FPending} \<Longrightarrow> get_field f (position (ps_pm s') k) =
      wrap_i64 (get_field f (position (ps_pm s) k) +
        (sum_list (map (paid f k) (ps_threads s')) + settled f k e - sum_list (map (paid f k) (ps_threads s))))"
    and "grows (ps_pm s) (ps_pm s')"
proof -
  have inv: "pm_inv (ps_pm s)" using s by (simp add: sys_ok_def)
  obtain t th where t: "t < length (ps_threads s)" "ps_threads s' = (ps_threads s)[t := th]"
    and laws: "pm_inv (ps_pm s')" "grows (ps_pm s) (ps_pm s')" "thread_ok (ps_pm s') th"
      "moves (ps_pm s) (ps_threads s ! t) e th (ps_pm s')"
  proof (cases a)
    case (Begin t c)
    then have e: "t < length (ps_threads s)" "ps_threads s ! t = Resting" "e = Quiet"
      "s' = s\<lparr>ps_threads := (ps_threads s)[t := Probing c 0]\<rparr>" using a(2) by (auto split: if_splits pos_thread.splits)
    have "moves (ps_pm s) Resting e (Probing c 0) (ps_pm s)"
      by (rule moves_same [OF inv]) (simp_all add: paid_def settled_def e)
    then show thesis using that [of t "Probing c 0"] e inv a(1) Begin by (simp add: passed_def)
  next
    case (Step t)
    then obtain th pm' where th: "t < length (ps_threads s)" "access (ps_threads s ! t) (ps_pm s) = Some (e, th, pm')"
      "s' = s\<lparr>ps_pm := pm', ps_threads := (ps_threads s)[t := th]\<rparr>" using a(2) by (auto split: if_splits)
    have "thread_ok (ps_pm s) (ps_threads s ! t)" using s th(1) by (simp add: sys_ok_def)
    from access_laws [OF inv this th(2)] show thesis using that [of t th] th by simp
  qed
  have "thread_ok (ps_pm s') th'" if "th' \<in> set (ps_threads s)" for th'
    using thread_ok_grows [OF inv laws(1,2)] s that by (simp add: sys_ok_def)
  then show "sys_ok s'" using laws t set_update_subset_insert [of "ps_threads s" t th] by (auto simp: sys_ok_def)
  show "length (ps_threads s') = length (ps_threads s)" using t by simp
  show "grows (ps_pm s) (ps_pm s')" by (rule laws(2))
  show "get_field f (position (ps_pm s') k) = wrap_i64 (get_field f (position (ps_pm s) k) +
      (sum_list (map (paid f k) (ps_threads s')) + settled f k e - sum_list (map (paid f k) (ps_threads s))))"
    if kf: "valid_key k" "f \<in> {FFilled, FPending}"
  proof -
    have "get_field f (position (ps_pm s') k) = wrap_i64 (get_field f (position (ps_pm s) k) +
        (paid f k th + settled f k e - paid f k (ps_threads s ! t)))"
      using laws(4) kf unfolding moves_def by blast
    then show ?thesis using t(1) by (simp add: t(2) sum_list_set_nth algebra_simps)
  qed
qed

lemma reach_ok:
  assumes "pos_reach may pm0 n es s" and "pm_inv pm0"
  shows "sys_ok s"
  using assms
proof (induction rule: pos_reach.induct)
  case (pos_step es s a e s')
  then show ?case using sys_ok_exec(1) by blast
qed (simp add: sys_ok_def)

lemma reach_quantities:
  assumes "pos_reach may pm0 n es s" and "pm_inv pm0" and "valid_key k" and "f \<in> {FFilled, FPending}"
  shows "get_field f (position (ps_pm s) k) =
    wrap_i64 (get_field f (position pm0 k) + (sum_list (map (settled f k) es) + sum_list (map (paid f k) (ps_threads s))))"
  using assms
proof (induction rule: pos_reach.induct)
  case pos_start
  have "sum_list (map (paid f k) (replicate n Resting)) = 0" by (simp add: paid_def sum_list_replicate)
  then show ?case using get_field_in_i64 [OF position_ok [OF pos_start(1)]] by simp
next
  case (pos_step es s a e s')
  have "sys_ok s" using reach_ok pos_step by blast
  from sys_ok_exec(3) [OF this pos_step(2,3,6,7)] pos_step(4) [OF pos_step(5-7)] show ?case
    by (simp only: wrap_i64_add_left map_append sum_list_append) (simp add: algebra_simps)
qed

section \<open>Runs as sequences of actions\<close>

primrec pos_run :: "pos_action list \<Rightarrow> pos_system \<Rightarrow> (pos_event list \<times> pos_system) option" where
  "pos_run [] s = Some ([], s)"
| "pos_run (a # as) s = do {
     (e, s) \<leftarrow> pos_exec a s;
     (es, s) \<leftarrow> pos_run as s;
     Some (e # es, s)
   }"

lemma pos_run_reach:
  assumes "pos_run as s = Some (es, s')" and "pos_reach may pm0 n es0 s" and "\<forall>a \<in> set as. good_call may a"
  shows "pos_reach may pm0 n (es0 @ es) s'"
  using assms
proof (induction as arbitrary: s es es0)
  case (Cons a as)
  then obtain e s1 es1 where 1: "pos_exec a s = Some (e, s1)" "pos_run as s1 = Some (es1, s')" "es = e # es1"
    by (auto simp: bind_eq_Some_conv)
  have "pos_reach may pm0 n (es0 @ [e]) s1" using Cons.prems 1(1) by (intro pos_step) auto
  from Cons.IH [OF 1(2) this] show ?case using Cons.prems(3) 1(3) by simp
qed simp

lemma pos_run_ok:
  assumes "pos_run as s = Some (es, s')" and "sys_ok s" and "\<forall>a \<in> set as. good_call may a"
  shows "sys_ok s'" and "grows (ps_pm s) (ps_pm s')"
    and "valid_key k \<Longrightarrow> f \<in> {FFilled, FPending} \<Longrightarrow> get_field f (position (ps_pm s') k) =
      wrap_i64 (get_field f (position (ps_pm s) k) +
        (sum_list (map (paid f k) (ps_threads s')) + sum_list (map (settled f k) es) - sum_list (map (paid f k) (ps_threads s))))"
proof -
  have "sys_ok s' \<and> grows (ps_pm s) (ps_pm s') \<and> (\<forall>k f. valid_key k \<longrightarrow> f \<in> {FFilled, FPending} \<longrightarrow>
      get_field f (position (ps_pm s') k) = wrap_i64 (get_field f (position (ps_pm s) k) +
        (sum_list (map (paid f k) (ps_threads s')) + sum_list (map (settled f k) es) - sum_list (map (paid f k) (ps_threads s)))))"
    using assms
  proof (induction as arbitrary: s es)
    case Nil
    then have "pm_inv (ps_pm s)" by (simp add: sys_ok_def)
    then show ?case using Nil get_field_in_i64 [OF position_ok] by simp
  next
    case (Cons a as)
    then obtain e s1 es1 where 1: "pos_exec a s = Some (e, s1)" "pos_run as s1 = Some (es1, s')" "es = e # es1"
      by (auto simp: bind_eq_Some_conv)
    have a: "good_call may a" using Cons.prems(3) by simp
    note one = sys_ok_exec [OF Cons.prems(2) a 1(1)]
    have rest: "sys_ok s'" "grows (ps_pm s1) (ps_pm s')"
      and q: "valid_key k \<Longrightarrow> f \<in> {FFilled, FPending} \<Longrightarrow> get_field f (position (ps_pm s') k) =
        wrap_i64 (get_field f (position (ps_pm s1) k) +
          (sum_list (map (paid f k) (ps_threads s')) + sum_list (map (settled f k) es1) - sum_list (map (paid f k) (ps_threads s1))))" for k f
      using Cons.IH [OF 1(2) one(1)] Cons.prems(3) unfolding list.set by blast+
    have "get_field f (position (ps_pm s') k) = wrap_i64 (get_field f (position (ps_pm s) k) +
        (sum_list (map (paid f k) (ps_threads s')) + sum_list (map (settled f k) es) - sum_list (map (paid f k) (ps_threads s))))"
      if "valid_key k" "f \<in> {FFilled, FPending}" for k f
      using q [OF that] one(3) [OF that] by (simp only: wrap_i64_add_left 1(3)) (simp add: algebra_simps)
    then show ?case using rest table_grows_trans [OF one(4)] by blast
  qed
  then show "sys_ok s'" and "grows (ps_pm s) (ps_pm s')"
    and "valid_key k \<Longrightarrow> f \<in> {FFilled, FPending} \<Longrightarrow> get_field f (position (ps_pm s') k) =
      wrap_i64 (get_field f (position (ps_pm s) k) +
        (sum_list (map (paid f k) (ps_threads s')) + sum_list (map (settled f k) es) - sum_list (map (paid f k) (ps_threads s))))"
    by blast+
qed

section \<open>Properties of every interleaving\<close>

text \<open>C6. One entry per symbol, under any interleaving of the atomic accesses of any number of threads that register, send,
  cancel, fill and read: from any reachable state on, the table stays well formed, no two slots ever hold the same
  symbol, a symbol that is in a slot stays in this slot (it is not overwritten or removed), and a thread that
  has found or claimed an entry holds the one entry of its symbol.\<close>

theorem one_entry_per_symbol:
  assumes "pos_reach may pm0 n es s" and "pm_inv pm0" and "pos_run as s = Some (es', s')" and "\<forall>a \<in> set as. good_call may a"
  shows "pm_inv (ps_pm s') \<and>
    (\<forall>i j. i < kMaxSymbols \<and> j < kMaxSymbols \<and> e_key (pm_table (ps_pm s') ! i) = e_key (pm_table (ps_pm s') ! j) \<and>
       e_key (pm_table (ps_pm s') ! i) \<noteq> kEmptySlot \<longrightarrow> i = j) \<and>
    (\<forall>j < kMaxSymbols. e_key (pm_table (ps_pm s) ! j) \<noteq> kEmptySlot \<longrightarrow>
       e_key (pm_table (ps_pm s') ! j) = e_key (pm_table (ps_pm s) ! j)) \<and>
    (\<forall>c j added code. Working c j added code \<in> set (ps_threads s') \<longrightarrow> find_entry (call_key c) (ps_pm s') = Some j)"
proof -
  have "sys_ok s" using reach_ok assms(1,2) .
  note ok = pos_run_ok(1,2) [OF assms(3) this assms(4)]
  have inv: "pm_inv (ps_pm s')" using ok(1) by (simp add: sys_ok_def)
  have "i = j" if "i < kMaxSymbols \<and> j < kMaxSymbols \<and> e_key (pm_table (ps_pm s') ! i) = e_key (pm_table (ps_pm s') ! j) \<and>
      e_key (pm_table (ps_pm s') ! i) \<noteq> kEmptySlot" for i j
    using find_entry_iff [OF inv, of "e_key (pm_table (ps_pm s') ! i)"] that by (metis option.inject)
  moreover have "find_entry (call_key c) (ps_pm s') = Some j" if "Working c j added code \<in> set (ps_threads s')" for c j added code
    using ok(1) that by (fastforce simp: sys_ok_def)
  ultimately show ?thesis using inv ok(2) unfolding grows_def by blast
qed

text \<open>What the calls that finished on the entry of a key add up to.\<close>

definition finished_effect :: "(pos_call \<Rightarrow> int) \<Rightarrow> u64 \<Rightarrow> pos_event \<Rightarrow> int" where
  "finished_effect g k e = (case e of Finished c (Some r) \<Rightarrow> if call_key c = k then g c else 0 | _ \<Rightarrow> 0)"

definition finished_sum :: "(pos_call \<Rightarrow> int) \<Rightarrow> u64 \<Rightarrow> pos_event list \<Rightarrow> int" where
  "finished_sum g k es = sum_list (map (finished_effect g k) es)"

lemma settled_finished:
  "settled FFilled k = finished_effect call_filled k" "settled FPending k = finished_effect call_pending k"
  by (simp_all add: fun_eq_iff settled_def finished_effect_def split: pos_event.splits option.splits)

text \<open>A thread that is not between the accesses of a call on the entry of a key.\<close>

definition off :: "u64 \<Rightarrow> pos_thread \<Rightarrow> bool" where
  "off k th \<longleftrightarrow> (case th of Working c j added code \<Rightarrow> call_key c \<noteq> k | _ \<Rightarrow> True)"

lemma off_paid: "off k th \<Longrightarrow> paid f k th = 0"
  by (simp add: off_def paid_def split: pos_thread.splits)

lemma off_paid_sum: "\<forall>th \<in> set ths. off k th \<Longrightarrow> sum_list (map (paid f k) ths) = 0"
  by (induction ths) (simp_all add: off_paid)

text \<open>C7. No update of a symbol is lost: at any moment when no thread is at work on the entry of the symbol, whatever the threads do
  with other symbols, its filled and its pending quantity are the initial ones plus what the calls that finished
  on its entry add, modulo \<open>2\<^sup>6\<^sup>4\<close>, however the accesses of the threads interleaved.\<close>

theorem no_lost_update:
  assumes "pos_reach may pm0 n es s" and "pm_inv pm0" and "valid_key k" and "\<forall>th \<in> set (ps_threads s). off k th"
  shows "e_filled (position (ps_pm s) k) = wrap_i64 (e_filled (position pm0 k) + finished_sum call_filled k es) \<and>
    e_pending (position (ps_pm s) k) = wrap_i64 (e_pending (position pm0 k) + finished_sum call_pending k es)"
  using reach_quantities [OF assms(1-3), of FFilled] reach_quantities [OF assms(1-3), of FPending] off_paid_sum [OF assms(4)]
  by (simp add: finished_sum_def settled_finished)

text \<open>A table with one symbol, at the first slot of its probe path.\<close>

definition home_slot :: nat where
  "home_slot = probe_slot (hash (symbolToKey ''AAPL'') AND kMask) 0"

definition holding :: "Entry \<Rightarrow> PositionManager" where
  "holding e = set_entry home_slot e new_PositionManager"

definition aapl :: "i64 \<Rightarrow> i64 \<Rightarrow> i64 \<Rightarrow> Entry" where
  "aapl filled pending cost = \<lparr>e_key = symbolToKey ''AAPL'', e_filled = filled, e_pending = pending,
     e_cost_basis_total = cost, e_realized_pnl = 0\<rparr>"

lemma home_slot_less: "home_slot < kMaxSymbols"
  by (simp add: home_slot_def)

lemma holding_simps:
  "pm_table (holding e) ! home_slot = e" "set_entry home_slot e' (holding e) = holding e'"
  using home_slot_less by (simp_all add: holding_def set_entry_def new_PositionManager_def)

lemma holding_exposure:
  assumes "e_key e = symbolToKey ''AAPL''"
  shows "getTotalExposure ''AAPL'' (holding e) = i64_add (e_filled e) (e_pending e)"
proof -
  have "[0..<kMaxSymbols] = 0 # [Suc 0..<kMaxSymbols]" by (rule upt_conv_Cons) (simp add: kMaxSymbols_def)
  then show ?thesis
    using assms by (simp add: getTotalExposure_def find_entry_def Let_def home_slot_def [symmetric] holding_simps)
qed

definition race_fill :: Fill where
  "race_fill = \<lparr>fill_symbol = copy_buf 8 ''AAPL'', fill_executionId = 0, fill_orderId = 0, fill_side = Buy,
     fill_quantity = 100, fill_price = Fin 150\<rparr>"

lemma race_fill_call:
  "call_key (Filling race_fill) = symbolToKey ''AAPL''"
  "call_code (Filling race_fill) = Load FFilled (buy_code 1500000 100)"
proof -
  have "scaled_price (Fin 150) = Some 1500000" "symbolBufferToKey (copy_buf 8 ''AAPL'') = symbolToKey ''AAPL''" by code_simp+
  then show "call_key (Filling race_fill) = symbolToKey ''AAPL''"
    "call_code (Filling race_fill) = Load FFilled (buy_code 1500000 100)"
    by (simp_all add: race_fill_def checked_def)
qed

lemma race_buy_code:
  "buy_code 1500000 100 0 = FetchAdd FCost 150000000 (FetchAdd FFilled 100 (FetchAdd FPending (- 100) (Return 0)))"
  by (simp add: buy_code_def checked_def i64_mul_def chk_i64_def in_i64_def)

section \<open>One thread books the fills\<close>

text \<open>
  In the engine only the fill listener books fills. Filled quantity, cost and profit are then written by one
  thread alone, and its accounting is that of the fills one after another, whatever the other threads do.
\<close>

definition acct :: "Entry \<Rightarrow> i64 \<times> i64 \<times> i64" where
  "acct e = (e_filled e, e_cost_basis_total e, e_realized_pnl e)"

primrec is_fill :: "pos_call \<Rightarrow> bool" where
  "is_fill (Registering symbol) = False"
| "is_fill (Sending ord) = False"
| "is_fill (Cancelling ord) = False"
| "is_fill (Filling fill) = True"
| "is_fill (Reading symbol) = False"

primrec ignores_pending :: "code \<Rightarrow> bool" where
  "ignores_pending (Return r) \<longleftrightarrow> True"
| "ignores_pending Undefined \<longleftrightarrow> True"
| "ignores_pending (Load f rest) \<longleftrightarrow> f \<noteq> FPending \<and> (\<forall>x. ignores_pending (rest x))"
| "ignores_pending (FetchAdd f d rest) \<longleftrightarrow> ignores_pending rest"

primrec pending_only :: "code \<Rightarrow> bool" where
  "pending_only (Return r) \<longleftrightarrow> True"
| "pending_only Undefined \<longleftrightarrow> True"
| "pending_only (Load f rest) \<longleftrightarrow> (\<forall>x. pending_only (rest x))"
| "pending_only (FetchAdd f d rest) \<longleftrightarrow> f = FPending \<and> pending_only rest"

lemma ignores_pending_checked: "ignores_pending (checked x f) \<longleftrightarrow> (\<forall>v. x = Some v \<longrightarrow> ignores_pending (f v))"
  and pending_only_checked: "pending_only (checked x f) \<longleftrightarrow> (\<forall>v. x = Some v \<longrightarrow> pending_only (f v))"
  by (simp_all add: checked_def split: option.splits)

lemma fill_code_ignores_pending: "ignores_pending (buy_code p q cf)" "ignores_pending (sell_code p q cf)"
  by (simp_all add: buy_code_def sell_code_def Let_def ignores_pending_checked)

lemma fill_ignores_pending: "is_fill c \<Longrightarrow> ignores_pending (call_code c)"
  by (cases c) (simp_all add: ignores_pending_checked fill_code_ignores_pending split: OrderSide.splits)

lemma other_pending_only: "\<not> is_fill c \<Longrightarrow> pending_only (call_code c)"
  by (cases c) (simp_all add: pending_only_checked)

lemma acct_fetch_add: "acct e = acct e' \<Longrightarrow> acct (fetch_add f d e) = acct (fetch_add f d e')"
  by (cases f) (simp_all add: acct_def)

lemma acct_fetch_pending [simp]: "acct (fetch_add FPending d e) = acct e"
  by (simp add: acct_def)

lemma run_code_acct:
  "ignores_pending code \<Longrightarrow> acct e = acct e' \<Longrightarrow>
    map_option (acct \<circ> snd) (run_code code e) = map_option (acct \<circ> snd) (run_code code e')"
proof (induction code arbitrary: e e')
  case (Load f rest)
  then have "get_field f e = get_field f e'" by (cases f) (auto simp: acct_def)
  then show ?case using Load.IH [of "rest (get_field f e')" e e'] Load.prems by simp
next
  case (FetchAdd f d rest)
  show ?case using FetchAdd.IH [of "fetch_add f d e" "fetch_add f d e'"] acct_fetch_add [of e e' f d] FetchAdd.prems by simp
qed simp_all

text \<open>The accounting of a key, and the fills of a run in the order in which their calls took hold of an entry.\<close>

definition account :: "u64 \<Rightarrow> Fill list \<Rightarrow> Entry \<Rightarrow> Entry option" where
  "account k fills e = run_list fill_step (filter (\<lambda>fill. fill_key fill = k) fills) e"

primrec event_fills :: "pos_event \<Rightarrow> Fill list" where
  "event_fills Quiet = []"
| "event_fills (Finished c r) = (case (c, r) of (Filling fill, Some v) \<Rightarrow> [fill] | _ \<Rightarrow> [])"

definition finished_fills :: "pos_event list \<Rightarrow> Fill list" where
  "finished_fills es = concat (map event_fills es)"

text \<open>The fill a thread is at work on, and where its accounting will end.\<close>

definition open_fills :: "pos_thread \<Rightarrow> Fill list" where
  "open_fills th = (case th of Working c j added code \<Rightarrow> (case c of Filling fill \<Rightarrow> [fill] | _ \<Rightarrow> []) | _ \<Rightarrow> [])"

definition outcome_of :: "pos_thread \<Rightarrow> u64 \<Rightarrow> Entry \<Rightarrow> (i64 \<times> i64 \<times> i64) option" where
  "outcome_of th k e = (case th of
     Working c j added code \<Rightarrow> if is_fill c \<and> call_key c = k then map_option (acct \<circ> snd) (run_code code e) else Some (acct e)
   | _ \<Rightarrow> Some (acct e))"

primrec calls_ok :: "pos_thread \<Rightarrow> bool" where
  "calls_ok Resting \<longleftrightarrow> True"
| "calls_ok (Probing c i) \<longleftrightarrow> True"
| "calls_ok (Claiming c i) \<longleftrightarrow> True"
| "calls_ok (Working c j added code) \<longleftrightarrow> (if is_fill c then ignores_pending code else pending_only code)"

primrec fills_in :: "pos_thread \<Rightarrow> bool" where
  "fills_in Resting \<longleftrightarrow> False"
| "fills_in (Probing c i) \<longleftrightarrow> is_fill c"
| "fills_in (Claiming c i) \<longleftrightarrow> is_fill c"
| "fills_in (Working c j added code) \<longleftrightarrow> is_fill c"

lemma access_position:
  assumes "pm_inv pm" and "thread_ok pm th" and "access th pm = Some (e, th', pm')" and "valid_key k"
  shows "position pm' k = (case th of
    Working c j added (FetchAdd f d rest) \<Rightarrow> if call_key c = k then fetch_add f d (position pm k) else position pm k
  | _ \<Rightarrow> position pm k)"
proof (cases th)
  case (Probing c i)
  then show ?thesis using assms(3) by (auto simp: Let_def split: if_splits)
next
  case (Claiming c i)
  show ?thesis
  proof (cases "e_key (pm_table pm ! slot_of c i) = kEmptySlot")
    case True
    then show ?thesis
      using assms(2,3) claim_slot(4) [OF assms(1) _ _ True assms(4)] Claiming by (auto simp: Let_def)
  next
    case False
    then show ?thesis using assms(3) Claiming by (auto simp: Let_def split: if_splits)
  qed
next
  case (Working c j added code)
  show ?thesis
  proof (cases code)
    case (FetchAdd f d rest)
    then show ?thesis
      using Working assms(2,3) add_to_slot(4) [OF assms(1) _ _ assms(4), where f = f and d = d] by auto
  qed (use Working assms(3) in auto)
qed (use assms(3) in simp)

lemma access_calls:
  assumes "calls_ok th" and "access th pm = Some (e, th', pm')"
  shows "calls_ok th'" and "fills_in th' \<Longrightarrow> fills_in th" and "\<not> fills_in th \<Longrightarrow> event_fills e = []"
proof -
  have "calls_ok th' \<and> (fills_in th' \<longrightarrow> fills_in th) \<and> (\<not> fills_in th \<longrightarrow> event_fills e = [])"
    using assms
    by (cases th) (auto simp: Let_def fill_ignores_pending other_pending_only split: if_splits code.splits pos_call.splits)
  then show "calls_ok th'" and "fills_in th' \<Longrightarrow> fills_in th" and "\<not> fills_in th \<Longrightarrow> event_fills e = []" by blast+
qed

lemma account_snoc:
  "account k (fills @ [fill]) e = Option.bind (account k fills e) (\<lambda>e. if fill_key fill = k then fill_step fill e else Some e)"
  by (cases "account k fills e") (auto simp: account_def run_list_append split: option.splits)

text \<open>The thread that books fills takes hold of an entry: its accounting will end where the fill's does.\<close>

lemma sim_enter:
  assumes "map_option acct (account k fills e0) = Some (acct e)"
  shows "map_option acct (account k (fills @ open_fills (Working c j [] (call_code c))) e0) =
    outcome_of (Working c j [] (call_code c)) k e"
proof (cases c)
  case (Filling fill)
  from assms obtain eA where eA: "account k fills e0 = Some eA" "acct eA = acct e" by auto
  have "map_option acct (fill_step fill eA) = map_option (acct \<circ> snd) (run_code (call_code (Filling fill)) eA)"
    by (simp add: run_fill_code [symmetric] option.map_comp del: call_code.simps)
  also have "\<dots> = map_option (acct \<circ> snd) (run_code (call_code (Filling fill)) e)"
    by (rule run_code_acct [OF fill_ignores_pending eA(2)]) simp
  finally show ?thesis
    using Filling eA by (simp add: open_fills_def outcome_of_def account_snoc del: call_code.simps)
qed (use assms in \<open>simp_all add: open_fills_def outcome_of_def\<close>)

lemma event_fills_None [simp]: "event_fills (Finished c None) = []"
  by (cases c) simp_all

lemma access_probing:
  assumes "access th pm = Some (e, th', pm')" and "th = Probing c i \<or> th = Claiming c i"
  shows "(\<exists>j. th' = Working c j [] (call_code c) \<and> e = Quiet) \<or>
    (th' = Claiming c i \<or> th' = Probing c (Suc i) \<or> th' = Resting) \<and> event_fills e = []"
  using assms by (auto simp: Let_def split: if_splits pos_call.splits)

lemma probing_outcome:
  assumes "th = Probing c i \<or> th = Claiming c i \<or> th = Resting"
  shows "open_fills th = []" and "outcome_of th k e = Some (acct e)"
  using assms by (auto simp: open_fills_def outcome_of_def)

lemma access_sim:
  assumes inv: "pm_inv pm" and th: "thread_ok pm th" "calls_ok th" and a: "access th pm = Some (e, th', pm')" and k: "valid_key k"
    and sim: "map_option acct (account k (fills @ open_fills th) e0) = outcome_of th k (position pm k)"
  shows "map_option acct (account k (fills @ event_fills e @ open_fills th') e0) = outcome_of th' k (position pm' k)"
proof -
  note pos = access_position [OF inv th(1) a k]
  have probe: ?thesis if p: "th = Probing c i \<or> th = Claiming c i" for c i
  proof -
    have same: "position pm' k = position pm k" using pos p by auto
    have o: "open_fills th = []" "outcome_of th k (position pm k) = Some (acct (position pm k))"
      using probing_outcome [of th c i] p by auto
    then have acc: "map_option acct (account k fills e0) = Some (acct (position pm k))" using sim by simp
    from access_probing [OF a p] show ?thesis
    proof (elim disjE exE conjE)
      fix j assume "th' = Working c j [] (call_code c)" "e = Quiet"
      then show ?thesis using sim_enter [OF acc, of c j] same by simp
    qed (use acc same probing_outcome in simp_all)
  qed
  show ?thesis
  proof (cases th)
    case (Working c j added code)
    note work = Working
    have pm: "acct (fetch_add f d (position pm k)) = acct (position pm k)" if "code = FetchAdd f d rest" "\<not> is_fill c" for f d rest
      using th(2) work that by (simp add: acct_def)
    have get: "get_field f (pm_table pm ! j) = get_field f (position pm k)" if "call_key c = k" for f
      using th(1) work that by (simp add: position_def)
    show ?thesis
    proof (cases code)
      case (Return r)
      then have e: "e = Finished c (Some r)" "th' = Resting" "pm' = pm" using a work by auto
      have "event_fills e = open_fills th" using work e by (cases c) (simp_all add: open_fills_def)
      moreover have "outcome_of th k (position pm k) = Some (acct (position pm k))" using work Return by (simp add: outcome_of_def)
      ultimately show ?thesis using sim e probing_outcome [of Resting] by simp
    next
      case (Load f rest)
      then have e: "e = Quiet" "th' = Working c j added (rest (get_field f (pm_table pm ! j)))" "pm' = pm" using a work by auto
      have "outcome_of th' k (position pm k) = outcome_of th k (position pm k)" using work Load e get [of f] by (simp add: outcome_of_def)
      then show ?thesis using sim e work by (simp add: open_fills_def)
    next
      case (FetchAdd f d rest)
      then have e: "e = Quiet" "th' = Working c j (added @ [(f, d)]) rest" using a work by auto
      have p: "position pm' k = (if call_key c = k then fetch_add f d (position pm k) else position pm k)"
        using pos work FetchAdd by simp
      have "outcome_of th' k (position pm' k) = outcome_of th k (position pm k)"
        using p pm [OF FetchAdd] unfolding work FetchAdd e by (simp add: outcome_of_def)
      then show ?thesis using sim e work by (simp add: open_fills_def)
    qed (use a work in simp)
  qed (use a probe in auto)
qed

text \<open>A step of another thread, which books no fill, leaves the accounting alone.\<close>

lemma access_other:
  assumes "pm_inv pm" and "thread_ok pm th" and "calls_ok th" and "\<not> fills_in th"
    and "access th pm = Some (e, th', pm')" and "valid_key k" and "calls_ok th0"
  shows "outcome_of th0 k (position pm' k) = outcome_of th0 k (position pm k)"
proof -
  have "acct (position pm' k) = acct (position pm k)"
    using access_position [OF assms(1,2,5,6)] assms(3,4) by (auto simp: acct_def split: pos_thread.splits code.splits)
  then have "map_option (acct \<circ> snd) (run_code code (position pm' k)) = map_option (acct \<circ> snd) (run_code code (position pm k))"
    "acct (position pm' k) = acct (position pm k)" if "ignores_pending code" for code
    using run_code_acct that by blast+
  then show ?thesis
    using assms(7) \<open>acct (position pm' k) = acct (position pm k)\<close> by (cases th0) (simp_all add: outcome_of_def)
qed

definition fills_by :: "nat \<Rightarrow> nat \<Rightarrow> pos_call \<Rightarrow> bool" where
  "fills_by t0 t c \<longleftrightarrow> is_fill c \<longrightarrow> t = t0"

definition accounted :: "nat \<Rightarrow> PositionManager \<Rightarrow> pos_event list \<Rightarrow> pos_system \<Rightarrow> bool" where
  "accounted t0 pm0 es s \<longleftrightarrow>
     (\<forall>t < length (ps_threads s). calls_ok (ps_threads s ! t) \<and> (fills_in (ps_threads s ! t) \<longrightarrow> t = t0)) \<and>
     (\<forall>k. valid_key k \<longrightarrow>
       map_option acct (account k (finished_fills es @ open_fills (ps_threads s ! t0)) (position pm0 k)) =
       outcome_of (ps_threads s ! t0) k (position (ps_pm s) k))"

lemma accounted_exec:
  assumes s: "sys_ok s" and acc: "accounted t0 pm0 es s" and t0: "t0 < length (ps_threads s)"
    and a: "good_call (fills_by t0) a" "pos_exec a s = Some (e, s')"
  shows "accounted t0 pm0 (es @ [e]) s'"
proof (cases a)
  case (Begin t c)
  then have e: "t < length (ps_threads s)" "ps_threads s ! t = Resting" "e = Quiet"
    "s' = s\<lparr>ps_threads := (ps_threads s)[t := Probing c 0]\<rparr>" using a(2) by (auto split: if_splits pos_thread.splits)
  have p: "calls_ok (Probing c 0)" "fills_in (Probing c 0) \<longrightarrow> t = t0" using a(1) Begin by (simp_all add: fills_by_def)
  have "\<forall>u < length (ps_threads s'). calls_ok (ps_threads s' ! u) \<and> (fills_in (ps_threads s' ! u) \<longrightarrow> u = t0)"
    using acc e(1,4) p by (simp add: accounted_def nth_list_update)
  moreover have "open_fills (ps_threads s' ! t0) = open_fills (ps_threads s ! t0)"
    "outcome_of (ps_threads s' ! t0) = outcome_of (ps_threads s ! t0)"
    using e t0 by (cases "t = t0"; simp add: outcome_of_def open_fills_def fun_eq_iff)+
  ultimately show ?thesis using acc e(3,4) by (simp add: accounted_def finished_fills_def)
next
  case (Step t)
  then obtain th pm' where th: "t < length (ps_threads s)" "access (ps_threads s ! t) (ps_pm s) = Some (e, th, pm')"
    "s' = s\<lparr>ps_pm := pm', ps_threads := (ps_threads s)[t := th]\<rparr>" using a(2) by (auto split: if_splits)
  have ok: "pm_inv (ps_pm s)" "thread_ok (ps_pm s) (ps_threads s ! t)" "calls_ok (ps_threads s ! t)" "calls_ok (ps_threads s ! t0)"
    using s th(1) t0 acc by (simp_all add: sys_ok_def accounted_def)
  note calls = access_calls [OF ok(3) th(2)]
  have "\<forall>u < length (ps_threads s'). calls_ok (ps_threads s' ! u) \<and> (fills_in (ps_threads s' ! u) \<longrightarrow> u = t0)"
    using acc th(1,3) calls by (auto simp: accounted_def nth_list_update)
  moreover have "map_option acct (account k (finished_fills (es @ [e]) @ open_fills (ps_threads s' ! t0)) (position pm0 k)) =
      outcome_of (ps_threads s' ! t0) k (position (ps_pm s') k)" if k: "valid_key k" for k
  proof (cases "t = t0")
    case True
    have "map_option acct (account k (finished_fills es @ open_fills (ps_threads s ! t)) (position pm0 k)) =
        outcome_of (ps_threads s ! t) k (position (ps_pm s) k)"
      using acc k True by (simp add: accounted_def)
    from access_sim [OF ok(1-3) th(2) k this] show ?thesis using True th by (simp add: finished_fills_def)
  next
    case False
    then have f: "\<not> fills_in (ps_threads s ! t)" using acc th(1) by (auto simp: accounted_def)
    show ?thesis
      using access_other [OF ok(1-3) f th(2) k ok(4)] acc k False th calls(3) [OF f]
      by (simp add: accounted_def finished_fills_def)
  qed
  ultimately show ?thesis by (simp add: accounted_def)
qed

lemma reach_accounted:
  assumes "pos_reach (fills_by t0) pm0 n es s" and "pm_inv pm0" and "t0 < n"
  shows "accounted t0 pm0 es s \<and> length (ps_threads s) = n"
  using assms
proof (induction rule: pos_reach.induct)
  case pos_start
  then show ?case
    by (simp add: accounted_def finished_fills_def account_def open_fills_def outcome_of_def)
next
  case (pos_step es s a e s')
  have "sys_ok s" using reach_ok pos_step by blast
  then show ?case
    using accounted_exec [of s t0 pm0 es a e s'] sys_ok_exec(2) [of s "fills_by t0" a e s'] pos_step by simp
qed

text \<open>C8. Fills are accounted as if nothing else ran: when one thread books all fills, while any number of others register,
  send, cancel and read, then between its calls the filled quantity, the cost basis and the realised profit of
  every symbol are exactly those of its finished fills taken one after another.\<close>

theorem fills_accounted_in_order:
  assumes "pos_reach (fills_by t0) pm0 n es s" and "pm_inv pm0" and "t0 < n" and "valid_key k"
    and "ps_threads s ! t0 = Resting"
  shows "\<exists>e. run_list fill_step (filter (\<lambda>fill. fill_key fill = k) (finished_fills es)) (position pm0 k) = Some e \<and>
    e_filled (position (ps_pm s) k) = e_filled e \<and> e_cost_basis_total (position (ps_pm s) k) = e_cost_basis_total e \<and>
    e_realized_pnl (position (ps_pm s) k) = e_realized_pnl e"
proof -
  have "map_option acct (account k (finished_fills es @ open_fills Resting) (position pm0 k)) =
      outcome_of Resting k (position (ps_pm s) k)"
    using reach_accounted [OF assms(1-3)] assms(4,5) by (simp add: accounted_def)
  then show ?thesis by (auto simp: open_fills_def outcome_of_def account_def acct_def)
qed

section \<open>Reading the exposure while fills are booked\<close>

primrec acting :: "pos_action \<Rightarrow> nat" where
  "acting (Begin t c) = t"
| "acting (Step t) = t"

lemma pos_run_others:
  assumes "pos_run as s = Some (es, s')" and "\<forall>a \<in> set as. acting a \<noteq> t"
  shows "ps_threads s' ! t = ps_threads s ! t" and "length (ps_threads s') = length (ps_threads s)"
proof -
  have "ps_threads s' ! t = ps_threads s ! t \<and> length (ps_threads s') = length (ps_threads s)" using assms
  proof (induction as arbitrary: s es)
    case (Cons a as)
    then obtain e s1 es1 where 1: "pos_exec a s = Some (e, s1)" "pos_run as s1 = Some (es1, s')" by (auto simp: bind_eq_Some_conv)
    have "ps_threads s1 ! t = ps_threads s ! t \<and> length (ps_threads s1) = length (ps_threads s)"
      using 1(1) Cons.prems(2) by (cases a) (auto split: if_splits pos_thread.splits)
    then show ?case using Cons.IH [OF 1(2)] Cons.prems(2) by simp
  qed simp
  then show "ps_threads s' ! t = ps_threads s ! t" and "length (ps_threads s') = length (ps_threads s)" by blast+
qed

text \<open>A thread that reads adds nothing.\<close>

lemma reading_off: "paid f k (Working (Reading symb) j [] code) = 0"
  by (simp add: paid_def)

lemma others_paid_sum:
  assumes "\<forall>u < length ths. u \<noteq> t \<longrightarrow> off k (ths ! u)" and "t < length ths \<Longrightarrow> paid f k (ths ! t) = 0"
  shows "sum_list (map (paid f k) ths) = 0"
proof -
  have "paid f k (ths ! u) = 0" if "u < length ths" for u using assms off_paid that by (cases "u = t") auto
  then have "\<forall>th \<in> set ths. paid f k th = 0" by (auto simp: in_set_conv_nth)
  then show ?thesis by (induction ths) simp_all
qed

text \<open>C39. The exposure is read in two loads, and the fills booked between them are missed. Take any interleaving in which a thread has
  found its entry for \<open>getTotalExposure\<close>, loads the filled quantity, then lets the others run as they like, then
  loads the pending quantity and returns. If fills of \<open>m\<close> shares (bought less sold) of its symbol were booked in between, and no other
  thread is half-way through a call on this entry at the two loads, it returns the exposure of the moment of its second
  load less \<open>m\<close>, and a risk check that uses this value can let the exposure pass the limit by \<open>m\<close> shares.\<close>

theorem exposure_read_torn:
  assumes "pos_reach may pm0 n es s" and "pm_inv pm0" and "t < length (ps_threads s)"
    and "ps_threads s ! t = Working (Reading symb) j [] (call_code (Reading symb))"
    and "pos_run (Step t # as) s = Some (es1, s1)" and "\<forall>a \<in> set as. good_call may a \<and> acting a \<noteq> t"
    and "pos_run [Step t, Step t] s1 = Some ([Quiet, Finished (Reading symb) (Some v)], s2)"
    and "\<forall>u < length (ps_threads s). u \<noteq> t \<longrightarrow> off (symbolToKey symb) (ps_threads s ! u) \<and> off (symbolToKey symb) (ps_threads s1 ! u)"
    and "m = finished_sum call_filled (symbolToKey symb) es1" and "in_i64 (getFilledPosition symb (ps_pm s) + m)"
  shows "v = getFilledPosition symb (ps_pm s) + getPendingPosition symb (ps_pm s1) \<and>
    getTotalExposure symb (ps_pm s1) = chk_i64 (v + m)"
proof -
  let ?k = "symbolToKey symb" and ?w = "\<lambda>x. Working (Reading symb) j [] (Load FPending (\<lambda>pending. checked (i64_add x pending) Return))"
  have ok: "sys_ok s" using reach_ok assms(1,2) .
  then have "thread_ok (ps_pm s) (ps_threads s ! t)" using assms(3) by (simp add: sys_ok_def)
  then have k: "valid_key ?k" "find_entry ?k (ps_pm s) = Some j" using assms(4) by simp_all
  let ?x = "e_filled (position (ps_pm s) ?k)"
  define s0 where "s0 = s\<lparr>ps_threads := (ps_threads s)[t := ?w ?x]\<rparr>"
  have first: "pos_exec (Step t) s = Some (Quiet, s0)" using assms(3,4) k(2) by (simp add: s0_def position_def)
  then obtain es0 where run: "pos_run as s0 = Some (es0, s1)" "es1 = Quiet # es0" using assms(5) by (auto simp: bind_eq_Some_conv)
  have ok0: "sys_ok s0" using sys_ok_exec(1) [OF ok _ first] by simp
  have g: "\<forall>a \<in> set as. good_call may a" "\<forall>a \<in> set as. acting a \<noteq> t" using assms(6) by simp_all
  note R = pos_run_ok [OF run(1) ok0 g(1)] and O = pos_run_others [OF run(1) g(2)]
  have t1: "ps_threads s1 ! t = ?w ?x" "t < length (ps_threads s1)" "length (ps_threads s1) = length (ps_threads s)" using O assms(3) by (simp_all add: s0_def)
  have "thread_ok (ps_pm s1) (ps_threads s1 ! t)" using R(1) t1(2) by (simp add: sys_ok_def)
  then have "find_entry ?k (ps_pm s1) = Some j" using t1(1) by simp
  then have v: "i64_add ?x (e_pending (position (ps_pm s1) ?k)) = Some v"
    using assms(7) t1(1,2) by (auto simp: position_def checked_def bind_eq_Some_conv split: option.splits)
  have p0: "sum_list (map (paid FFilled ?k) (ps_threads s0)) = 0"
    by (rule others_paid_sum [of _ t]) (use assms(3,8) in \<open>simp_all add: s0_def reading_off\<close>)
  have p1: "sum_list (map (paid FFilled ?k) (ps_threads s1)) = 0"
    by (rule others_paid_sum [of _ t]) (use assms(8) t1 in \<open>simp_all add: reading_off\<close>)
  have "sum_list (map (settled FFilled ?k) es0) = m" by (simp add: assms(9) run(2) finished_sum_def settled_finished finished_effect_def)
  then have f1: "e_filled (position (ps_pm s1) ?k) = wrap_i64 (?x + m)" using R(3) [OF k(1), of FFilled] p0 p1 by (simp add: s0_def)
  have pm: "pm_inv (ps_pm s)" "pm_inv (ps_pm s1)" using ok R(1) by (simp_all add: sys_ok_def)
  have get: "getFilledPosition symb (ps_pm s) = ?x" "getPendingPosition symb (ps_pm s1) = e_pending (position (ps_pm s1) ?k)"
    "getTotalExposure symb (ps_pm s1) = i64_add (e_filled (position (ps_pm s1) ?k)) (e_pending (position (ps_pm s1) ?k))"
    by (simp_all add: getters_position)
  have "e_filled (position (ps_pm s1) ?k) = ?x + m" using f1 assms(10) get(1) by simp
  moreover have "v = ?x + e_pending (position (ps_pm s1) ?k)" using v by (simp add: i64_add_def)
  ultimately show ?thesis by (simp add: get i64_add_def algebra_simps)
qed

section \<open>A race\<close>

text \<open>With 100 shares on order, the reader is past its first load when their fill arrives, and takes its second load after it.\<close>

definition race_fills :: "pos_action list" where
  "race_fills = [Begin 0 (Filling race_fill), Step 0, Step 0, Step 0, Step 0, Step 0, Step 0]"

definition race_read :: "pos_action list" where
  "race_read = [Begin 1 (Reading ''AAPL''), Step 1] @ (Step 1 # race_fills) @ [Step 1, Step 1]"

definition race_start :: pos_system where
  "race_start = \<lparr>ps_pm = holding (aapl 0 100 0), ps_threads = [Resting, Resting]\<rparr>"

definition race_found :: pos_system where
  "race_found = race_start\<lparr>ps_threads := [Resting, Working (Reading ''AAPL'') home_slot [] (call_code (Reading ''AAPL''))]\<rparr>"

definition race_filled :: pos_system where
  "race_filled = \<lparr>ps_pm = holding (aapl 100 0 150000000),
     ps_threads = [Resting, Working (Reading ''AAPL'') home_slot [] (Load FPending (\<lambda>pending. checked (i64_add 0 pending) Return))]\<rparr>"

definition race_events :: "pos_event list" where
  "race_events = replicate 7 Quiet @ [Finished (Filling race_fill) (Some 0)]"

lemmas race_simps = race_start_def race_found_def race_filled_def race_fills_def race_events_def home_slot_def [symmetric] holding_simps
  race_fill_call race_buy_code aapl_def kMaxSymbols_def checked_def i64_add_def chk_i64_def in_i64_def wrap_i64_def eval_nat_numeral

lemma race_runs:
  "pos_run [Begin 1 (Reading ''AAPL''), Step 1] race_start = Some ([Quiet, Quiet], race_found)"
  "pos_run (Step 1 # race_fills) race_found = Some (race_events, race_filled)"
  "pos_run [Step 1, Step 1] race_filled = Some ([Quiet, Finished (Reading ''AAPL'') (Some 0)],
     \<lparr>ps_pm = holding (aapl 100 0 150000000), ps_threads = [Resting, Resting]\<rparr>)"
  by (simp_all add: race_simps Let_def del: call_key.simps(4) call_code.simps(4) cong: if_cong)

lemma race_good: "\<forall>a \<in> set race_read. good_call (fills_by 0) a"
proof -
  have "valid_key (symbolToKey ''AAPL'')" by code_simp
  then show ?thesis
    using race_fill_call(1) by (simp add: race_read_def race_fills_def fills_by_def del: call_key.simps(4))
qed

lemma race_begin: "pos_reach (fills_by 0) (holding (aapl 0 100 0)) 2 [] race_start"
  using pos_start [of "fills_by 0" "holding (aapl 0 100 0)" 2] by (simp add: race_start_def numeral_2_eq_2)

lemma race_sums:
  "finished_sum call_filled (symbolToKey ''AAPL'') race_events = 100" "finished_sum call_pending (symbolToKey ''AAPL'') race_events = - 100"
proof -
  have "call_filled (Filling race_fill) = 100" "call_pending (Filling race_fill) = - 100" by (simp_all add: race_fill_def signed_qty_def)
  then show "finished_sum call_filled (symbolToKey ''AAPL'') race_events = 100" "finished_sum call_pending (symbolToKey ''AAPL'') race_events = - 100"
    using race_fill_call(1)
    by (simp_all add: finished_sum_def finished_effect_def race_events_def sum_list_replicate del: call_key.simps(4) call_filled.simps(4) call_pending.simps(4))
qed

lemma race_reach:
  "pos_reach (fills_by 0) (holding (aapl 0 100 0)) 2 [Quiet, Quiet] race_found"
  "pos_reach (fills_by 0) (holding (aapl 0 100 0)) 2 ([Quiet, Quiet] @ race_events @ [Quiet, Finished (Reading ''AAPL'') (Some 0)])
     \<lparr>ps_pm = holding (aapl 100 0 150000000), ps_threads = [Resting, Resting]\<rparr>"
proof -
  show r: "pos_reach (fills_by 0) (holding (aapl 0 100 0)) 2 [Quiet, Quiet] race_found"
    using pos_run_reach [OF race_runs(1) race_begin] race_good by (simp add: race_read_def)
  have "pos_reach (fills_by 0) (holding (aapl 0 100 0)) 2 ([Quiet, Quiet] @ race_events) race_filled"
    by (rule pos_run_reach [OF race_runs(2) r]) (use race_good in \<open>simp add: race_read_def\<close>)
  from pos_run_reach [OF race_runs(3) this] show "pos_reach (fills_by 0) (holding (aapl 0 100 0)) 2 ([Quiet, Quiet] @ race_events @ [Quiet, Finished (Reading ''AAPL'') (Some 0)])
     \<lparr>ps_pm = holding (aapl 100 0 150000000), ps_threads = [Resting, Resting]\<rparr>" by simp
qed

lemma holding_inv:
  assumes "in_i64 f" and "in_i64 p" and "in_i64 c"
  shows "pm_inv (holding (aapl f p c))" and "position (holding (aapl f p c)) (symbolToKey ''AAPL'') = aapl f p c"
proof -
  let ?c = "Reading ''AAPL''"
  have v: "valid_key (symbolToKey ''AAPL'')" by code_simp
  have free: "e_key (pm_table new_PositionManager ! slot_of ?c 0) = kEmptySlot"
    by (simp add: new_PositionManager_def empty_Entry_def)
  have p: "passed ?c 0 new_PositionManager" "0 < kMaxSymbols" using v by (simp_all add: passed_def kMaxSymbols_def)
  define pm where "pm = set_entry (slot_of ?c 0) ((pm_table new_PositionManager ! slot_of ?c 0)\<lparr>e_key := call_key ?c\<rparr>) new_PositionManager"
  note C = claim_slot [OF pm_inv_new p free, folded pm_def]
  have h: "holding (aapl f p c) = pm\<lparr>pm_table := (pm_table pm)[home_slot := aapl f p c]\<rparr>"
    by (simp add: holding_def pm_def set_entry_def home_slot_def)
  have ok: "e_key (aapl f p c) = symbolToKey ''AAPL''" "entry_ok (aapl f p c)"
    using assms v by (simp_all add: aapl_def entry_ok_def)
  have fe: "find_entry (symbolToKey ''AAPL'') pm = Some home_slot" using C(3) by (simp add: home_slot_def)
  show "pm_inv (holding (aapl f p c))" "position (holding (aapl f p c)) (symbolToKey ''AAPL'') = aapl f p c"
    using set_slot_laws(1,2) [OF C(1) fe v ok] v unfolding h by simp_all
qed

lemma race_start_inv: "pm_inv (holding (aapl 0 100 0))" "valid_key (symbolToKey ''AAPL'')"
  using holding_inv(1) [of 0 100 0] by (simp add: in_i64_def) code_simp

theorem one_entry_per_symbol_witness:
  "pos_reach (fills_by 0) (holding (aapl 0 100 0)) 2 [Quiet, Quiet] race_found \<and>
   pos_run (Step 1 # race_fills) race_found = Some (race_events, race_filled) \<and> e_key (pm_table (ps_pm race_found) ! home_slot) \<noteq> kEmptySlot \<and>
   e_key (pm_table (ps_pm race_filled) ! home_slot) = e_key (pm_table (ps_pm race_found) ! home_slot)"
proof -
  have k: "e_key (pm_table (ps_pm race_found) ! home_slot) \<noteq> kEmptySlot"
    using race_start_inv(2) by (simp add: race_found_def race_start_def holding_simps aapl_def)
  from one_entry_per_symbol [OF race_reach(1) race_start_inv(1) race_runs(2)] show ?thesis
    using race_reach(1) race_runs(2) k home_slot_less race_good by (simp add: race_read_def)
qed

theorem no_lost_update_witness:
  "\<exists>es s. pos_reach (fills_by 0) (holding (aapl 0 100 0)) 2 es s \<and> es \<noteq> [] \<and>
    e_filled (position (ps_pm s) (symbolToKey ''AAPL'')) = 100 \<and> e_pending (position (ps_pm s) (symbolToKey ''AAPL'')) = 0"
proof -
  let ?es = "[Quiet, Quiet] @ race_events @ [Quiet, Finished (Reading ''AAPL'') (Some 0)]"
  have p: "position (holding (aapl 0 100 0)) (symbolToKey ''AAPL'') = aapl 0 100 0" by (rule holding_inv) (simp_all add: in_i64_def)
  have "finished_sum f k ?es = finished_sum f k race_events + finished_effect f k (Finished (Reading ''AAPL'') (Some 0))" for f k
    by (simp add: finished_sum_def finished_effect_def)
  then have m: "finished_sum call_filled (symbolToKey ''AAPL'') ?es = 100" "finished_sum call_pending (symbolToKey ''AAPL'') ?es = - 100"
    using race_sums by (simp_all add: finished_effect_def)
  have "e_filled (aapl 0 100 0) = 0" "e_pending (aapl 0 100 0) = 100" by (simp_all add: aapl_def)
  then show ?thesis
    using no_lost_update [OF race_reach(2) race_start_inv] race_reach(2) m p
    by (intro exI [of _ ?es] exI [of _ "\<lparr>ps_pm = holding (aapl 100 0 150000000), ps_threads = [Resting, Resting]\<rparr>"])
      (simp add: off_def in_i64_def)
qed

theorem fills_accounted_in_order_witness:
  "\<exists>es s e. pos_reach (fills_by 0) (holding (aapl 0 100 0)) 2 es s \<and> finished_fills es = [race_fill] \<and>
    run_list fill_step [race_fill] (aapl 0 100 0) = Some e \<and>
    e_cost_basis_total (position (ps_pm s) (symbolToKey ''AAPL'')) = e_cost_basis_total e"
proof -
  let ?s = "\<lparr>ps_pm = holding (aapl 100 0 150000000), ps_threads = [Resting, Resting]\<rparr>"
  obtain es where r: "pos_reach (fills_by 0) (holding (aapl 0 100 0)) 2 es ?s" "finished_fills es = [race_fill]"
    using race_reach(2) by (auto simp: finished_fills_def race_events_def)
  have p: "position (holding (aapl 0 100 0)) (symbolToKey ''AAPL'') = aapl 0 100 0" by (rule holding_inv) (simp_all add: in_i64_def)
  have k: "fill_key race_fill = symbolToKey ''AAPL''" using race_fill_call(1) by simp
  from fills_accounted_in_order [OF r(1) race_start_inv(1) _ race_start_inv(2)] r(2) p k
  show ?thesis by (intro exI [of _ es] exI [of _ ?s]) (auto simp: r(1))
qed

text \<open>The exposure is 100 shares before and after the fill; the reader returns 0.\<close>

theorem exposure_read_torn_witness:
  "pos_reach (fills_by 0) (holding (aapl 0 100 0)) 2 [Quiet, Quiet] race_found \<and> getTotalExposure ''AAPL'' (ps_pm race_found) = Some 100 \<and>
   getTotalExposure ''AAPL'' (ps_pm race_filled) = Some 100 \<and>
   (\<exists>s. pos_run [Step 1, Step 1] race_filled = Some ([Quiet, Finished (Reading ''AAPL'') (Some 0)], s))"
proof -
  have x: "getTotalExposure ''AAPL'' (ps_pm race_found) = Some 100"
    by (simp add: race_found_def race_start_def holding_exposure aapl_def i64_add_def chk_i64_def in_i64_def)
  have f: "getFilledPosition ''AAPL'' (ps_pm race_found) = 0"
    using holding_inv(2) [of 0 100 0] by (simp add: race_found_def race_start_def getters_position in_i64_def) (simp add: aapl_def)
  have "getTotalExposure ''AAPL'' (ps_pm race_filled) = chk_i64 (0 + 100)"
    by (rule exposure_read_torn [OF race_reach(1) race_start_inv(1) _ _ race_runs(2) _ race_runs(3) _ race_sums(1) [symmetric], THEN conjunct2])
      (use race_good f in \<open>auto simp: race_found_def race_filled_def race_read_def race_fills_def off_def less_Suc_eq in_i64_def simp del: call_code.simps call_key.simps(4)\<close>)
  then show ?thesis using race_reach(1) x race_runs(3) by (simp add: chk_i64_def in_i64_def)
qed

end
