(* ===== verification/Session_Time.thy ===== *)
theory Session_Time
  imports Text_Numbers
begin

text \<open>
  \<open>nowIso8601\<close> (\<open>src/AlpacaFillListener.cpp\<close>): the start of a session as text, from which the reconciliation
  asks the broker for orders. \<open>gmtime_r\<close> and \<open>strftime\<close> are the C library's: the Gregorian calendar in UTC, and
  the conversions \<open>%Y\<close>, \<open>%m\<close>, \<open>%d\<close>, \<open>%H\<close>, \<open>%M\<close>, \<open>%S\<close>. The clock reading, in seconds since 1970, is an argument.
\<close>

section \<open>The calendar\<close>

definition leap_year :: "nat \<Rightarrow> bool" where
  "leap_year y \<longleftrightarrow> y mod 4 = 0 \<and> (y mod 100 \<noteq> 0 \<or> y mod 400 = 0)"

definition year_days :: "nat \<Rightarrow> nat" where
  "year_days y = (if leap_year y then 366 else 365)"

definition month_lengths :: "nat \<Rightarrow> nat list" where
  "month_lengths y = [31, if leap_year y then 29 else 28, 31, 30, 31, 30, 31, 31, 30, 31, 30, 31]"

lemma year_days_pos [simp]: "0 < year_days y"
  by (simp add: year_days_def)

text \<open>The year and the day of the year, from a number of days since the beginning of year \<open>y\<close>.\<close>

function split_year :: "nat \<Rightarrow> nat \<Rightarrow> nat \<times> nat" where
  "split_year y d = (if d < year_days y then (y, d) else split_year (Suc y) (d - year_days y))"
  by pat_completeness auto
termination
proof (relation "measure snd")
  fix y d assume "\<not> d < year_days y"
  moreover have "0 < year_days y" by simp
  ultimately show "((Suc y, d - year_days y), (y, d)) \<in> measure snd" by (simp only: in_measure snd_conv)
qed simp

declare split_year.simps [simp del]

text \<open>The month, counted from 1, and the day of the month, counted from 1.\<close>

fun split_month :: "nat \<Rightarrow> nat list \<Rightarrow> nat \<Rightarrow> nat \<times> nat" where
  "split_month m (l # ls) d = (if d < l then (m, Suc d) else split_month (Suc m) ls (d - l))"
| "split_month m [] d = (m, Suc d)"

record tm =
  tm_year :: nat
  tm_mon :: nat
  tm_mday :: nat
  tm_hour :: nat
  tm_min :: nat
  tm_sec :: nat

definition gmtime :: "nat \<Rightarrow> tm" where
  "gmtime t =
     (let (y, yday) = split_year 1970 (t div 86400);
          (mon, mday) = split_month 1 (month_lengths y) yday;
          s = t mod 86400
      in \<lparr>tm_year = y, tm_mon = mon, tm_mday = mday, tm_hour = s div 3600, tm_min = s div 60 mod 60, tm_sec = s mod 60\<rparr>)"

definition two_digits :: "nat \<Rightarrow> string" where
  "two_digits n = [digit_char (n div 10 mod 10), digit_char (n mod 10)]"

definition strftime :: "tm \<Rightarrow> string" where
  "strftime tm = nat_to_string (tm_year tm) @ ''-'' @ two_digits (tm_mon tm) @ ''-'' @ two_digits (tm_mday tm) @ ''T'' @
     two_digits (tm_hour tm) @ '':'' @ two_digits (tm_min tm) @ '':'' @ two_digits (tm_sec tm) @ ''Z''"

text \<open>The buffer has 32 bytes: when the text and its terminator do not fit, it stays empty.\<close>

definition nowIso8601 :: "nat \<Rightarrow> string" where
  "nowIso8601 t = (let s = strftime (gmtime t) in if length s < 32 then s else [])"

section \<open>Reading it back\<close>

definition days_before :: "nat \<Rightarrow> nat" where
  "days_before y = sum year_days {1970..<y}"

definition civil_days :: "nat \<Rightarrow> nat \<Rightarrow> nat \<Rightarrow> nat" where
  "civil_days y m d = days_before y + sum_list (take (m - 1) (month_lengths y)) + (d - 1)"

definition field_at :: "nat \<Rightarrow> nat \<Rightarrow> string \<Rightarrow> nat" where
  "field_at pos n s = digits_val (take n (drop pos s))"

definition iso_seconds :: "string \<Rightarrow> nat" where
  "iso_seconds s = civil_days (field_at 0 4 s) (field_at 5 2 s) (field_at 8 2 s) * 86400 +
     field_at 11 2 s * 3600 + field_at 14 2 s * 60 + field_at 17 2 s"

lemma split_year_spec:
  assumes "1970 \<le> y" and "split_year y d = (y', d')"
  shows "days_before y + d = days_before y' + d' \<and> d' < year_days y' \<and> y \<le> y'"
  using assms
proof (induction y d arbitrary: y' d' rule: split_year.induct)
  case (1 y d)
  show ?case
  proof (cases "d < year_days y")
    case True
    then show ?thesis using 1 by (simp add: split_year.simps [of y d])
  next
    case False
    have "split_year (Suc y) (d - year_days y) = (y', d')" using 1(3) False by (simp add: split_year.simps [of y d])
    from 1(1) [OF False _ this] 1(2) have "days_before (Suc y) + (d - year_days y) = days_before y' + d' \<and> d' < year_days y' \<and> Suc y \<le> y'"
      by simp
    moreover have "days_before (Suc y) = days_before y + year_days y"
      using 1(2) by (simp add: days_before_def sum.atLeastLessThan_Suc)
    ultimately show ?thesis using False by linarith
  qed
qed

lemma split_month_spec:
  assumes "split_month m ls d = (m', d')" and "d < sum_list ls"
  shows "m \<le> m' \<and> m' < m + length ls \<and> 1 \<le> d' \<and> d' \<le> ls ! (m' - m) \<and> sum_list (take (m' - m) ls) + (d' - 1) = d"
  using assms
proof (induction m ls d rule: split_month.induct)
  case (1 m l ls d)
  show ?case
  proof (cases "d < l")
    case True
    then show ?thesis using 1(2) by auto
  next
    case False
    have "split_month (Suc m) ls (d - l) = (m', d')" "d - l < sum_list ls" using 1(2,3) False by auto
    from 1(1) [OF False this] have "Suc m \<le> m' \<and> m' < Suc m + length ls \<and> 1 \<le> d' \<and> d' \<le> ls ! (m' - Suc m) \<and>
        sum_list (take (m' - Suc m) ls) + (d' - 1) = d - l" .
    moreover from this have "m' - m = Suc (m' - Suc m)" by auto
    ultimately show ?thesis using False by auto
  qed
qed simp

lemma sum_month_lengths: "sum_list (month_lengths y) = year_days y"
  by (simp add: month_lengths_def year_days_def)

lemma two_digits_val: "n < 100 \<Longrightarrow> digits_val (two_digits n) = n"
  by (simp add: two_digits_def digits_val_def digit_char_props)

lemma length_two_digits [simp]: "length (two_digits n) = 2"
  by (simp add: two_digits_def)

lemma length_year:
  assumes "1000 \<le> y" and "y < 10000"
  shows "length (nat_to_string y) = 4"
proof -
  have 1: "\<not> y < 10" "\<not> y div 10 < 10" "\<not> y div 10 div 10 < 10" "y div 10 div 10 div 10 < 10" using assms by linarith+
  show ?thesis
    by (subst nat_to_string.simps, subst nat_to_string.simps, subst nat_to_string.simps, subst nat_to_string.simps) (simp add: 1)
qed


text \<open>The days before a year in closed form; 477 leap days lie before 1970.\<close>

lemma days_before_closed:
  "days_before (1970 + n) + 477 + (1969 + n) div 100 = 365 * n + (1969 + n) div 4 + (1969 + n) div 400"
proof (induction n)
  case (Suc n)
  have "days_before (Suc (1970 + n)) = days_before (1970 + n) + year_days (1970 + n)"
    unfolding days_before_def by (rule sum.atLeastLessThan_Suc) simp
  moreover define x where "x = 1969 + n"
  ultimately have d: "days_before (Suc (1970 + n)) = days_before (1970 + n) + year_days (Suc x)" by simp
  have div: "Suc x div k = x div k + (if Suc x mod k = 0 then 1 else 0)" for k by (simp add: div_Suc)
  have dvd: "Suc x mod 100 = 0 \<Longrightarrow> Suc x mod 4 = 0" "Suc x mod 400 = 0 \<Longrightarrow> Suc x mod 100 = 0" by presburger+
  have carry: "D' + 477 + Q1 = 365 * Suc n + Q2 + Q3" if "D' = D + Y" "Y + a = 365 + b + c" "D + 477 + q1 = 365 * n + q2 + q3"
      "Q1 = q1 + a" "Q2 = q2 + b" "Q3 = q3 + c" for D D' Y Q1 Q2 Q3 q1 q2 q3 a b c :: nat using that by simp
  have y: "year_days (Suc x) + (if Suc x mod 100 = 0 then 1 else 0) =
      365 + (if Suc x mod 4 = 0 then 1 else 0) + (if Suc x mod 400 = 0 then 1 else 0)"
    using dvd by (simp add: year_days_def leap_year_def)
  have ih: "days_before (1970 + n) + 477 + x div 100 = 365 * n + x div 4 + x div 400" using Suc by (simp add: x_def)
  have "1970 + Suc n = Suc (1970 + n)" "1969 + Suc n = Suc x" by (simp_all add: x_def)
  then show ?case using carry [OF d y ih div div div] by (simp only:)
qed (simp add: days_before_def)

lemma days_before_10000: "days_before 10000 = 2932897"
  using days_before_closed [of 8030] by simp

text \<open>C37. The session start reads back: for every second from 1970 up to the end of the year 9999, the text \<open>nowIso8601\<close> makes of
  it has the 20 characters of an ISO 8601 instant and denotes exactly that second, leap years included.\<close>

theorem session_start_roundtrip:
  assumes "t < 253402300800"
  shows "length (nowIso8601 t) = 20 \<and> iso_seconds (nowIso8601 t) = t"
proof -
  obtain y yd where y: "split_year 1970 (t div 86400) = (y, yd)" by fastforce
  obtain m d where m: "split_month 1 (month_lengths y) yd = (m, d)" by fastforce
  have ys: "days_before y + yd = t div 86400" "yd < year_days y" "1970 \<le> y"
    using split_year_spec [OF _ y] by (simp_all add: days_before_def)
  have "y < 10000"
  proof (rule ccontr)
    assume "\<not> y < 10000"
    then have "days_before 10000 \<le> days_before y" unfolding days_before_def by (intro sum_mono2) auto
    moreover have "t div 86400 < 2932897" using assms by (simp add: less_mult_imp_div_less)
    ultimately show False using ys(1) days_before_10000 by linarith
  qed
  then have ly: "length (nat_to_string y) = 4" using length_year ys(3) by simp
  have ms: "1 \<le> m" "m < 13" "1 \<le> d" "d \<le> month_lengths y ! (m - 1)" "sum_list (take (m - 1) (month_lengths y)) + (d - 1) = yd"
    using split_month_spec [OF m] ys(2) by (simp_all add: sum_month_lengths) (simp_all add: month_lengths_def)
  have "\<forall>l \<in> set (month_lengths y). l \<le> 31" by (simp add: month_lengths_def)
  moreover have "m - 1 < length (month_lengths y)" using ms(2) by (simp add: month_lengths_def)
  ultimately have d: "d < 100" using ms(4) nth_mem by fastforce
  let ?s = "t mod 86400"
  have h: "?s div 3600 < 100" "?s div 60 mod 60 < 100" "?s mod 60 < 100" by (simp_all add: less_mult_imp_div_less)
  have shape: "nowIso8601 t = nat_to_string y @ ''-'' @ two_digits m @ ''-'' @ two_digits d @ ''T'' @
      two_digits (?s div 3600) @ '':'' @ two_digits (?s div 60 mod 60) @ '':'' @ two_digits (?s mod 60) @ ''Z''"
    by (simp add: nowIso8601_def strftime_def gmtime_def y m [simplified] Let_def ly)
  have "iso_seconds (nowIso8601 t) = civil_days y m d * 86400 + (?s div 3600) * 3600 + (?s div 60 mod 60) * 60 + ?s mod 60"
    unfolding shape iso_seconds_def field_at_def by (simp add: ly two_digits_val h d ms(2) less_trans [OF ms(2)])
  moreover have "civil_days y m d = t div 86400" using ms(5) ys(1) by (simp add: civil_days_def)
  moreover have "(?s div 3600) * 3600 + (?s div 60 mod 60) * 60 + ?s mod 60 = ?s"
  proof -
    have "?s div 3600 = ?s div 60 div 60" by (simp add: div_mult2_eq [symmetric])
    moreover have "?s div 60 div 60 * 60 + ?s div 60 mod 60 = ?s div 60" "?s div 60 * 60 + ?s mod 60 = ?s"
      by (simp_all only: div_mult_mod_eq)
    ultimately show ?thesis by linarith
  qed
  ultimately have "iso_seconds (nowIso8601 t) = t" using div_mult_mod_eq [of t 86400] by linarith
  then show ?thesis using ly by (simp add: shape)
qed

theorem session_start_roundtrip_witness:
  "nowIso8601 68212800 = ''1972-02-29T12:00:00Z'' \<and> iso_seconds ''1972-02-29T12:00:00Z'' = 68212800"
proof -
  have "nowIso8601 68212800 = ''1972-02-29T12:00:00Z''"
    by (simp add: nowIso8601_def strftime_def gmtime_def split_year.simps year_days_def leap_year_def month_lengths_def
        two_digits_def digit_char_def nat_to_string.simps char_of_def bit_0)
  then show ?thesis using session_start_roundtrip [of 68212800] by simp
qed

end
