(* ===== verification/Latency_Report.thy ===== *)
theory Latency_Report
  imports Latency_Tracker Text_Numbers
begin

text \<open>
  The report of \<open>LatencyTracker\<close> (\<open>dump\<close> and \<open>dumpOne\<close> of \<open>src/LatencyTracker.cpp\<close>): which metrics get a file, what the
  file and the log lines say, and how far a printed latency is from the recorded one. The statistics of a histogram
  are the library's, the record \<open>hdr_stats\<close>; \<open>is_open\<close> says whether the file could be opened.
\<close>

section \<open>Fixed-point output\<close>

text \<open>Division by a positive constant.\<close>

fun fp_div :: "fp_format \<Rightarrow> fp \<Rightarrow> rat \<Rightarrow> fp" where
  "fp_div F (Fin a) c = fp_round F (a / c)"
| "fp_div F x c = x"

fun fp_to_i64 :: "fp \<Rightarrow> i64 option" where
  "fp_to_i64 (Fin r) = chk_i64 (trunc_rat r)"
| "fp_to_i64 x = None"

text \<open>\<open>std::fixed\<close> with \<open>std::setprecision(p)\<close>: the exact value, rounded to \<open>p\<close> decimals.\<close>

definition fixed_digits :: "nat \<Rightarrow> nat \<Rightarrow> string" where
  "fixed_digits p n =
     (let frac = nat_to_string (n mod 10 ^ p)
      in nat_to_string (n div 10 ^ p) @ ''.'' @ replicate (p - length frac) CHR ''0'' @ frac)"

fun fixed_text :: "nat \<Rightarrow> fp \<Rightarrow> string" where
  "fixed_text p (Fin r) = (if r < 0 then ''-'' else []) @ fixed_digits p (nat (round_even (\<bar>r\<bar> * 10 ^ p)))"
| "fixed_text p PInf = ''inf''"
| "fixed_text p NInf = ''-inf''"
| "fixed_text p NaN = ''nan''"

text \<open>The lambda \<open>fmt\<close>.\<close>

definition fmt :: "i64 \<Rightarrow> string" where
  "fmt nanos =
     (if nanos < 1000 then int_to_string nanos @ ''ns''
      else if nanos < 1000000 then fixed_text 2 (fp_div binary64 (fp_of_int binary64 nanos) 1000) @ ''us''
      else if nanos < 1000000000 then fixed_text 2 (fp_div binary64 (fp_of_int binary64 nanos) 1000000) @ ''ms''
      else fixed_text 3 (fp_div binary64 (fp_of_int binary64 nanos) 1000000000) @ ''s'')"

section \<open>The report\<close>

definition kMetricNames :: "string list" where
  "kMetricNames = [''end_to_end'', ''zmq_transport'', ''strategy_risk'', ''mpsc_queue'', ''fill_round_trip'']"

definition kMetricDescriptions :: "string list" where
  "kMetricDescriptions = [''End-to-end hot path (WebSocket recv -> pre-REST call)'', ''ZMQ transport (pre-publish -> post-receive)'',
     ''Strategy + Risk check (post-ZMQ recv -> pre-queue push)'', ''MPSC queue (push -> pop)'',
     ''Fill round-trip [cold] (post-REST return -> fill received)'']"

record 'h hdr_stats =
  hdr_min :: "'h \<Rightarrow> i64"
  hdr_max :: "'h \<Rightarrow> i64"
  hdr_mean :: "'h \<Rightarrow> fp"

record report =
  rp_log :: "string list"
  rp_files :: "(string \<times> string) list"

definition log_info :: "string \<Rightarrow> report \<Rightarrow> report" where
  "log_info line r = r\<lparr>rp_log := rp_log r @ [line]\<rparr>"

definition report_path :: "string \<Rightarrow> LatencyMetric \<Rightarrow> string" where
  "report_path output_dir metric = output_dir @ ''/latency_'' @ kMetricNames ! metric_index metric @ ''.txt''"

definition newline :: char where
  "newline = CHR 0x0A"

text \<open>\<^const>\<open>None\<close>: the mean is not in the range of \<open>int64_t\<close>, and converting it is undefined.\<close>

definition dumpOne :: "'h hdr_api \<Rightarrow> 'h hdr_stats \<Rightarrow> (string \<Rightarrow> bool) \<Rightarrow> LatencyMetric \<Rightarrow> string \<Rightarrow> 'h LatencyTracker \<Rightarrow> report \<Rightarrow> report option" where
  "dumpOne H S is_open metric output_dir lt r =
     (let h = lt_histograms lt ! metric_index metric;
          desc = kMetricDescriptions ! metric_index metric;
          total = int_to_string (hdr_total_count H h)
      in if hdr_total_count H h = 0 then Some (log_info (''=== '' @ desc @ '' === (no samples recorded)'') r)
         else do {
           mean \<leftarrow> fp_to_i64 (hdr_mean S h);
           let pct = (\<lambda>p. fmt (hdr_value_at_percentile H h (fp_round binary64 p)));
           let r = log_info (''=== '' @ desc @ '' === samples='' @ total) r;
           let r = log_info (''  Min='' @ fmt (hdr_min S h) @ '' Mean='' @ fmt mean @ '' p50='' @ pct 50 @ '' p90='' @ pct 90 @
                     '' p99='' @ pct 99 @ '' p99.9='' @ pct (999 / 10) @ '' Max='' @ fmt (hdr_max S h)) r;
           let filepath = report_path output_dir metric;
           (if \<not> is_open filepath then Some r
            else Some (log_info (''  Written: '' @ filepath) (r\<lparr>rp_files := rp_files r @
              [(filepath, desc @ [newline] @ ''Samples: '' @ total @ [newline, newline] @
                ''Min:     '' @ fmt (hdr_min S h) @ [newline] @ ''Mean:    '' @ fmt mean @ [newline] @
                ''p50:     '' @ pct 50 @ [newline] @ ''p90:     '' @ pct 90 @ [newline] @
                ''p99:     '' @ pct 99 @ [newline] @ ''p99.9:   '' @ pct (999 / 10) @ [newline] @
                ''Max:     '' @ fmt (hdr_max S h) @ [newline])]\<rparr>)))
         })"

definition reported_metrics :: "LatencyMetric list" where
  "reported_metrics = [EndToEnd, ZmqTransport, StrategyRisk, MpscQueue, FillRoundTrip]"

definition lt_dump :: "'h hdr_api \<Rightarrow> 'h hdr_stats \<Rightarrow> (string \<Rightarrow> bool) \<Rightarrow> string \<Rightarrow> 'h LatencyTracker \<Rightarrow> report \<Rightarrow> report option" where
  "lt_dump H S is_open output_dir lt r = do {
     r \<leftarrow> run_list (\<lambda>metric. dumpOne H S is_open metric output_dir lt) reported_metrics
       (log_info (replicate 40 CHR ''='' @ '' LATENCY REPORT '' @ replicate 40 CHR ''='') r);
     Some (log_info (replicate 88 CHR ''='') r)
   }"

section \<open>Properties\<close>

lemma fixed_near:
  assumes n: "1 \<le> nanos" "nanos \<le> 2 ^ 50" and c: "c = 2 * h * 10 ^ p" "1 \<le> h" "c \<le> 1000000000"
  obtains n where "fixed_text p (fp_div binary64 (fp_of_int binary64 nanos) (of_int c)) = fixed_digits p n"
    and "\<bar>2 * h * int n - nanos\<bar> \<le> h"
proof -
  let ?r = "of_int nanos / of_int c :: rat"
  have c0: "1 \<le> c" using c(1,2) by (simp add: mult_le_0_iff) (smt (verit) mult_pos_pos zero_less_power)
  have cr: "1 \<le> (of_int c :: rat)" "(of_int c :: rat) \<le> 1000000000" using c0 c(3) by simp_all
  have nr: "1 \<le> (of_int nanos :: rat)" "(of_int nanos :: rat) \<le> 1125899906842624"
    using n of_int_le_iff [of nanos "2 ^ 50", where ?'a = rat] by simp_all
  have exact: "fp_of_int binary64 nanos = Fin (of_int nanos)"
    using n by (simp add: fp_of_int_def del: fp_formats) (rule fp_round_exact; simp)
  have p30: "pow2 (- 30) = 1 / 1073741824" "pow2 60 = 1152921504606846976" "pow2 (- 53) = 1 / 9007199254740992" by (simp_all add: pow2_def)
  have "1 / 1000000000 \<le> ?r" "?r \<le> of_int nanos / 1" using cr nr by (intro frac_le; simp)+
  then have lo: "pow2 (- 1022) \<le> \<bar>?r\<bar>" "\<bar>?r\<bar> \<le> pow2 1000"
    using pow2_mono [of "- 1022" "- 30"] pow2_mono [of 60 1000] nr p30 by linarith+
  obtain s where s: "fp_round binary64 ?r = Fin s" "\<bar>s - ?r\<bar> \<le> \<bar>?r\<bar> * pow2 (- 53)" by (rule binary64_round_rel [OF lo])
  have "\<bar>s - ?r\<bar> * of_int c \<le> \<bar>?r\<bar> * pow2 (- 53) * of_int c" using s(2) cr by (intro mult_right_mono) auto
  moreover have e: "\<bar>s * of_int c - of_int nanos\<bar> = \<bar>s - ?r\<bar> * of_int c"
  proof -
    have "s * of_int c - of_int nanos = (s - ?r) * of_int c" using cr by (simp add: left_diff_distrib)
    then show ?thesis using cr by (simp add: abs_mult)
  qed
  ultimately have err: "\<bar>s * of_int c - of_int nanos\<bar> \<le> of_int nanos / 9007199254740992"
    unfolding e using cr nr p30 by simp
  define k where "k = round_even (s * 10 ^ p)"
  have "0 < s * of_int c" using err nr by linarith
  then have s0: "0 < s" using cr by (simp add: zero_less_mult_iff)
  have kerr: "\<bar>of_int k - s * 10 ^ p\<bar> \<le> 1 / 2" using round_even_err by (simp add: k_def)
  moreover have "0 \<le> s * 10 ^ p" using s0 by simp
  ultimately have "- 1 < (of_int k :: rat)" by linarith
  then have k0: "0 \<le> k" by simp
  have h: "0 < (of_int (2 * h) :: rat)" using c(2) by simp
  have "\<bar>of_int (2 * h) * of_int k - s * of_int c\<bar> = of_int (2 * h) * \<bar>of_int k - s * 10 ^ p\<bar>"
    using h by (simp add: c(1) abs_mult_pos' algebra_simps)
  also have "\<dots> \<le> of_int (2 * h) * (1 / 2)" using kerr h by (intro mult_left_mono) simp_all
  finally have "\<bar>of_int (2 * h) * of_int k - s * of_int c\<bar> \<le> of_int h" by simp
  then have "\<bar>of_int (2 * h) * of_int k - of_int nanos\<bar> < (of_int h + 1 :: rat)" using err nr by linarith
  then have "of_int \<bar>2 * h * k - nanos\<bar> < (of_int (h + 1) :: rat)" by simp
  then have "\<bar>2 * h * k - nanos\<bar> \<le> h" by (simp only: of_int_less_iff)
  then show thesis
    using k0 s0 exact s(1) by (intro that [of "nat k"]) (simp_all add: k_def)
qed

text \<open>C38. A printed latency is the recorded one to within half of its last digit: nanoseconds are exact, and a latency up to the largest
  trackable one is printed in microseconds, milliseconds or seconds with two or three decimals, each time
  as the number of hundredths or thousandths nearest to it, the division and the rounding of \<open>double\<close> included.\<close>

theorem fmt_nearest:
  "(nanos < 1000 \<longrightarrow> fmt nanos = int_to_string nanos @ ''ns'') \<and>
   (1000 \<le> nanos \<and> nanos < 1000000 \<longrightarrow> (\<exists>n. fmt nanos = fixed_digits 2 n @ ''us'' \<and> \<bar>10 * int n - nanos\<bar> \<le> 5)) \<and>
   (1000000 \<le> nanos \<and> nanos < 1000000000 \<longrightarrow> (\<exists>n. fmt nanos = fixed_digits 2 n @ ''ms'' \<and> \<bar>10000 * int n - nanos\<bar> \<le> 5000)) \<and>
   (1000000000 \<le> nanos \<and> nanos \<le> kHighestTrackable \<longrightarrow>
     (\<exists>n. fmt nanos = fixed_digits 3 n @ ''s'' \<and> \<bar>1000000 * int n - nanos\<bar> \<le> 500000))"
proof (intro conjI impI)
  assume "nanos < 1000"
  then show "fmt nanos = int_to_string nanos @ ''ns''" by (simp add: fmt_def)
next
  assume r: "1000 \<le> nanos \<and> nanos < 1000000"
  have f: "fmt nanos = fixed_text 2 (fp_div binary64 (fp_of_int binary64 nanos) (of_int 1000)) @ ''us''"
    using r by (simp add: fmt_def del: fixed_text.simps fp_div.simps fp_formats)
  have b: "1 \<le> nanos" "nanos \<le> 2 ^ 50" using r by (simp_all)
  show "\<exists>n. fmt nanos = fixed_digits 2 n @ ''us'' \<and> \<bar>10 * int n - nanos\<bar> \<le> 5"
    unfolding f by (rule fixed_near [OF b, of 1000 5 2]) auto
next
  assume r: "1000000 \<le> nanos \<and> nanos < 1000000000"
  have f: "fmt nanos = fixed_text 2 (fp_div binary64 (fp_of_int binary64 nanos) (of_int 1000000)) @ ''ms''"
    using r by (simp add: fmt_def del: fixed_text.simps fp_div.simps fp_formats)
  have b: "1 \<le> nanos" "nanos \<le> 2 ^ 50" using r by (simp_all)
  show "\<exists>n. fmt nanos = fixed_digits 2 n @ ''ms'' \<and> \<bar>10000 * int n - nanos\<bar> \<le> 5000"
    unfolding f by (rule fixed_near [OF b, of 1000000 5000 2]) auto
next
  assume r: "1000000000 \<le> nanos \<and> nanos \<le> kHighestTrackable"
  have f: "fmt nanos = fixed_text 3 (fp_div binary64 (fp_of_int binary64 nanos) (of_int 1000000000)) @ ''s''"
    using r by (simp add: fmt_def del: fixed_text.simps fp_div.simps fp_formats)
  have b: "1 \<le> nanos" "nanos \<le> 2 ^ 50" using r by (simp_all add: kHighestTrackable_def)
  show "\<exists>n. fmt nanos = fixed_digits 3 n @ ''s'' \<and> \<bar>1000000 * int n - nanos\<bar> \<le> 500000"
    unfolding f by (rule fixed_near [OF b, of 1000000000 500000 3]) auto
qed

theorem fmt_nearest_witness: "\<exists>n. fmt 1499999 = fixed_digits 2 n @ ''ms'' \<and> \<bar>10000 * int n - 1499999\<bar> \<le> 5000"
  using fmt_nearest [of 1499999] by simp

text \<open>What one metric adds to the report.\<close>

lemma dumpOne_files:
  assumes "\<exists>v. fp_to_i64 (hdr_mean S (lt_histograms lt ! metric_index metric)) = Some v"
  shows "\<exists>r'. dumpOne H S is_open metric dir lt r = Some r' \<and> map fst (rp_files r') = map fst (rp_files r) @
    (if hdr_total_count H (lt_histograms lt ! metric_index metric) \<noteq> 0 \<and> is_open (report_path dir metric) then [report_path dir metric] else [])"
  using assms by (auto simp: dumpOne_def log_info_def Let_def)

lemma dumps_files:
  assumes "\<forall>metric \<in> set ms. \<exists>v. fp_to_i64 (hdr_mean S (lt_histograms lt ! metric_index metric)) = Some v"
  shows "\<exists>r'. run_list (\<lambda>metric. dumpOne H S is_open metric dir lt) ms r = Some r' \<and> map fst (rp_files r') = map fst (rp_files r) @
    map (report_path dir) (filter (\<lambda>metric. hdr_total_count H (lt_histograms lt ! metric_index metric) \<noteq> 0 \<and> is_open (report_path dir metric)) ms)"
  using assms
proof (induction ms arbitrary: r)
  case (Cons m ms)
  obtain r1 where r1: "dumpOne H S is_open m dir lt r = Some r1" "map fst (rp_files r1) = map fst (rp_files r) @
      (if hdr_total_count H (lt_histograms lt ! metric_index m) \<noteq> 0 \<and> is_open (report_path dir m) then [report_path dir m] else [])"
    using dumpOne_files [of S lt m H is_open dir r] Cons.prems by auto
  then show ?case using Cons.IH [of r1] Cons.prems by auto
qed simp

text \<open>The report is complete: when every histogram's mean is a number in the range of \<open>int64_t\<close>, \<open>dump\<close> returns, and it has written one
  file for each of the five metrics that has samples and whose file could be opened, in the order of the
  metrics, each under a name of its own, and none for the others.\<close>

theorem report_complete:
  assumes "lt_inv lt" and "\<forall>h \<in> set (lt_histograms lt). \<exists>v. fp_to_i64 (hdr_mean S h) = Some v"
  shows "\<exists>r. lt_dump H S is_open dir lt \<lparr>rp_log = [], rp_files = []\<rparr> = Some r \<and>
    map fst (rp_files r) = map (report_path dir) (filter (\<lambda>metric. lt_count H metric lt \<noteq> 0 \<and> is_open (report_path dir metric))
      [EndToEnd, ZmqTransport, StrategyRisk, MpscQueue, FillRoundTrip]) \<and> distinct (map fst (rp_files r))"
proof -
  let ?f = "\<lambda>metric. hdr_total_count H (lt_histograms lt ! metric_index metric) \<noteq> 0 \<and> is_open (report_path dir metric)"
  have m: "metric_index metric < kMetricCount" if "metric \<in> set reported_metrics" for metric
    using that by (auto simp: reported_metrics_def kMetricCount_def)
  have "\<forall>metric \<in> set reported_metrics. \<exists>v. fp_to_i64 (hdr_mean S (lt_histograms lt ! metric_index metric)) = Some v"
    using m assms by (auto simp: lt_inv_def)
  from dumps_files [OF this] obtain r where r: "run_list (\<lambda>metric. dumpOne H S is_open metric dir lt) reported_metrics
      (log_info (replicate 40 CHR ''='' @ '' LATENCY REPORT '' @ replicate 40 CHR ''='') \<lparr>rp_log = [], rp_files = []\<rparr>) = Some r"
    "map fst (rp_files r) = map (report_path dir) (filter ?f reported_metrics)" by (fastforce simp: log_info_def)
  have "distinct (map (report_path dir) reported_metrics)" by (simp add: reported_metrics_def report_path_def kMetricNames_def)
  then have "distinct (map (report_path dir) (filter ?f reported_metrics))" by (rule distinct_map_filter)
  moreover have "filter ?f reported_metrics = filter (\<lambda>metric. lt_count H metric lt \<noteq> 0 \<and> is_open (report_path dir metric)) reported_metrics"
  proof (rule filter_cong [OF refl])
    fix x assume "x \<in> set reported_metrics"
    from m [OF this] show "?f x \<longleftrightarrow> lt_count H x lt \<noteq> 0 \<and> is_open (report_path dir x)" by (simp add: lt_count_def)
  qed
  ultimately show ?thesis using r by (simp add: lt_dump_def log_info_def reported_metrics_def del: filter.simps)
qed

definition demo_stats :: "int list hdr_stats" where
  "demo_stats = \<lparr>hdr_min = (\<lambda>h. if h = [] then 0 else Min (set h)), hdr_max = (\<lambda>h. if h = [] then 0 else Max (set h)),
     hdr_mean = (\<lambda>h. if h = [] then Fin 0 else Fin (of_int (sum_list h div int (length h))))\<rparr>"

theorem report_complete_witness:
  "\<exists>r. lt_dump demo_hdr demo_stats (\<lambda>_. True) ''.'' \<lparr>lt_histograms = [[50000, 100000], [], [], [700], []], lt_submit_timestamps = Map.empty\<rparr>
      \<lparr>rp_log = [], rp_files = []\<rparr> = Some r \<and> map fst (rp_files r) = [''./latency_end_to_end.txt'', ''./latency_mpsc_queue.txt'']"
proof -
  let ?lt = "\<lparr>lt_histograms = [[50000, 100000], [], [], [700], []], lt_submit_timestamps = Map.empty\<rparr>"
  have h: "lt_inv ?lt" "\<forall>h \<in> set (lt_histograms ?lt). \<exists>v. fp_to_i64 (hdr_mean demo_stats h) = Some v"
    by (simp_all add: lt_inv_def kMetricCount_def demo_stats_def chk_i64_def in_i64_def trunc_rat_def)
  have f: "filter (\<lambda>metric. lt_count demo_hdr metric ?lt \<noteq> 0 \<and> True) [EndToEnd, ZmqTransport, StrategyRisk, MpscQueue, FillRoundTrip] =
      [EndToEnd, MpscQueue]"
    by (simp add: lt_count_def demo_hdr_def kMetricCount_def)
  from report_complete [OF h, of demo_hdr "\<lambda>_. True" "''.''", unfolded f] obtain r where
    "lt_dump demo_hdr demo_stats (\<lambda>_. True) ''.'' ?lt \<lparr>rp_log = [], rp_files = []\<rparr> = Some r"
    "map fst (rp_files r) = map (report_path ''.'') [EndToEnd, MpscQueue]" by blast
  then show ?thesis by (intro exI [of _ r]) (simp add: report_path_def kMetricNames_def)
qed

end
