(* ===== verification/Runtime_Support.thy ===== *)
theory Runtime_Support
  imports Trading_Types
begin

text \<open>
  Logging (\<open>include/Logging.hpp\<close>, \<open>src/Logging.cpp\<close>) and the clock (\<open>nowNanos\<close> of \<open>include/Utils.hpp\<close>, on Linux). The registry
  of the logging library is a parameter, the record \<open>spdlog_api\<close>, with its documented laws as the locale
  \<open>logger_registry\<close>; what a logger does with a line is outside the model.
\<close>

section \<open>Loggers\<close>

datatype log_level = Trace | Debug | Info | Warn | Err | Critical | Off

text \<open>A logger on a sink; an asynchronous one hands its lines to the thread pool.\<close>

record 'k logger =
  lg_name :: string
  lg_sink :: 'k
  lg_async :: bool
  lg_level :: log_level

text \<open>\<open>register_logger\<close> throws when the name is taken.\<close>

record ('g, 'k) spdlog_api =
  sp_drop :: "string \<Rightarrow> 'g \<Rightarrow> 'g"
  sp_register :: "'k logger \<Rightarrow> 'g \<Rightarrow> 'g option"
  sp_get :: "string \<Rightarrow> 'g \<Rightarrow> 'k logger option"
  sp_set_default :: "'k logger option \<Rightarrow> 'g \<Rightarrow> 'g"
  sp_default :: "'g \<Rightarrow> 'k logger option"
  sp_init_thread_pool :: "nat \<Rightarrow> nat \<Rightarrow> 'g \<Rightarrow> 'g"
  sp_shutdown :: "'g \<Rightarrow> 'g"

definition kLoggerNames :: "string list" where
  "kLoggerNames = [''engine'', ''gateway'', ''fills'', ''rest'', ''market'', ''zmq'', ''system'', ''latency'']"

text \<open>One turn of either loop: drop the name, then register a new logger under it.\<close>

definition add_logger :: "('g, 'k) spdlog_api \<Rightarrow> bool \<Rightarrow> 'k \<Rightarrow> string \<Rightarrow> 'g \<Rightarrow> 'g option" where
  "add_logger A is_async sink name g =
     sp_register A \<lparr>lg_name = name, lg_sink = sink, lg_async = is_async, lg_level = Trace\<rparr> (sp_drop A name g)"

text \<open>\<open>console\<close> is a new console sink with the pattern of the engine.\<close>

definition logging_init :: "('g, 'k) spdlog_api \<Rightarrow> 'k \<Rightarrow> 'k option \<Rightarrow> 'g \<Rightarrow> 'g option" where
  "logging_init A console sink g = do {
     g \<leftarrow> (case sink of
             Some sink \<Rightarrow> run_list (add_logger A False sink) kLoggerNames g
           | None \<Rightarrow> run_list (add_logger A True console) kLoggerNames (sp_init_thread_pool A 8192 1 g));
     Some (sp_set_default A (sp_get A ''system'' g) g)
   }"

definition logging_shutdown :: "('g, 'k) spdlog_api \<Rightarrow> 'g \<Rightarrow> 'g" where
  "logging_shutdown A g = sp_shutdown A g"

locale logger_registry =
  fixes A :: "('g, 'k) spdlog_api"
  assumes get_drop: "sp_get A n (sp_drop A m g) = (if n = m then None else sp_get A n g)"
    and register_free: "sp_get A (lg_name l) g = None \<Longrightarrow> sp_register A l g \<noteq> None"
    and get_register: "sp_register A l g = Some g' \<Longrightarrow> sp_get A n g' = (if n = lg_name l then Some l else sp_get A n g)"
    and get_pool: "sp_get A n (sp_init_thread_pool A q t g) = sp_get A n g"
    and get_default: "sp_get A n (sp_set_default A d g) = sp_get A n g"
    and default_set: "sp_default A (sp_set_default A d g) = d"
begin

lemma add_logger_get:
  "\<exists>g'. add_logger A is_async sink name g = Some g' \<and>
    (\<forall>n. sp_get A n g' = (if n = name then Some \<lparr>lg_name = name, lg_sink = sink, lg_async = is_async, lg_level = Trace\<rparr> else sp_get A n g))"
proof -
  let ?l = "\<lparr>lg_name = name, lg_sink = sink, lg_async = is_async, lg_level = Trace\<rparr>"
  obtain g' where "sp_register A ?l (sp_drop A name g) = Some g'" using register_free [of ?l "sp_drop A name g"] get_drop by auto
  then show ?thesis using get_register get_drop by (auto simp: add_logger_def)
qed

lemma add_loggers_get:
  "\<exists>g'. run_list (add_logger A is_async sink) names g = Some g' \<and>
    (\<forall>n. sp_get A n g' = (if n \<in> set names then Some \<lparr>lg_name = n, lg_sink = sink, lg_async = is_async, lg_level = Trace\<rparr> else sp_get A n g))"
proof (induction names arbitrary: g)
  case (Cons name names)
  obtain g1 where g1: "add_logger A is_async sink name g = Some g1"
    "\<forall>n. sp_get A n g1 = (if n = name then Some \<lparr>lg_name = name, lg_sink = sink, lg_async = is_async, lg_level = Trace\<rparr> else sp_get A n g)"
    using add_logger_get by blast
  then show ?case using Cons.IH [of g1] by auto
qed simp

lemma logging_init_get:
  "\<exists>g'. logging_init A console sink g = Some g' \<and>
    (\<forall>n. sp_get A n g' = (if n \<in> set kLoggerNames
       then Some \<lparr>lg_name = n, lg_sink = (case sink of None \<Rightarrow> console | Some k \<Rightarrow> k), lg_async = (sink = None), lg_level = Trace\<rparr>
       else sp_get A n g)) \<and>
    sp_default A g' = sp_get A ''system'' g'"
proof (cases sink)
  case None
  then show ?thesis using add_loggers_get [of True console kLoggerNames "sp_init_thread_pool A 8192 1 g"] get_pool get_default default_set
    by (auto simp: logging_init_def)
next
  case (Some k)
  then show ?thesis using add_loggers_get [of False k kLoggerNames g] get_default default_set by (auto simp: logging_init_def)
qed

end

text \<open>The registry as the library documents it: names to loggers, and the default logger.\<close>

type_synonym 'k registry = "(string \<rightharpoonup> 'k logger) \<times> 'k logger option"

definition map_registry :: "('k registry, 'k) spdlog_api" where
  "map_registry = \<lparr>sp_drop = (\<lambda>n (m, d). (m(n := None), d)),
     sp_register = (\<lambda>l (m, d). if m (lg_name l) = None then Some (m(lg_name l \<mapsto> l), d) else None),
     sp_get = (\<lambda>n (m, d). m n), sp_set_default = (\<lambda>l (m, d). (m, l)), sp_default = snd,
     sp_init_thread_pool = (\<lambda>_ _ g. g), sp_shutdown = (\<lambda>_. (Map.empty, None))\<rparr>"

interpretation registry: logger_registry map_registry
  by unfold_locales (auto simp: map_registry_def split: prod.splits if_splits)

section \<open>The clock\<close>

text \<open>The reading of \<open>clock_gettime\<close>.\<close>

record timespec =
  tv_sec :: u64
  tv_nsec :: u64

definition nowNanos :: "timespec \<Rightarrow> u64" where
  "nowNanos ts = tv_sec ts * 1000000000 + tv_nsec ts"

section \<open>Properties\<close>

text \<open>No component gets a null logger: whatever was registered before, \<open>init\<close> returns, and afterwards each of the
  names the components look up (\<open>engine\<close>, \<open>gateway\<close>, \<open>fills\<close>, \<open>rest\<close>, \<open>market\<close>, \<open>zmq\<close>, \<open>system\<close>, \<open>latency\<close>) has a logger of that name
  at trace level on the sink of the call, the default logger is \<open>system\<close>, and other loggers are untouched.\<close>

theorem loggers_available:
  assumes "logger_registry A"
  shows "\<exists>g'. logging_init A console sink g = Some g' \<and>
    (\<forall>n \<in> {''engine'', ''gateway'', ''fills'', ''rest'', ''market'', ''zmq'', ''system'', ''latency''}.
       \<exists>l. sp_get A n g' = Some l \<and> lg_name l = n \<and> lg_level l = Trace \<and> lg_sink l = (case sink of None \<Rightarrow> console | Some k \<Rightarrow> k)) \<and>
    (\<forall>n. n \<notin> set kLoggerNames \<longrightarrow> sp_get A n g' = sp_get A n g) \<and> sp_default A g' = sp_get A ''system'' g'"
proof -
  obtain g' where g': "logging_init A console sink g = Some g'" "sp_default A g' = sp_get A ''system'' g'"
    "\<forall>n. sp_get A n g' = (if n \<in> set kLoggerNames
       then Some \<lparr>lg_name = n, lg_sink = (case sink of None \<Rightarrow> console | Some k \<Rightarrow> k), lg_async = (sink = None), lg_level = Trace\<rparr>
       else sp_get A n g)" using logger_registry.logging_init_get [OF assms, of console sink g] by blast
  have "{''engine'', ''gateway'', ''fills'', ''rest'', ''market'', ''zmq'', ''system'', ''latency''} = set kLoggerNames"
    by (simp add: kLoggerNames_def)
  then show ?thesis using g' by simp
qed

theorem loggers_available_witness:
  "\<exists>g'. logging_init map_registry ''console'' None ([''fills'' \<mapsto> \<lparr>lg_name = ''fills'', lg_sink = ''old'', lg_async = False, lg_level = Off\<rparr>], None) = Some g' \<and>
    (\<exists>l. sp_get map_registry ''fills'' g' = Some l \<and> lg_sink l = ''console'' \<and> lg_level l = Trace)"
  using loggers_available [OF registry.logger_registry_axioms, of "''console''" None
    "([''fills'' \<mapsto> \<lparr>lg_name = ''fills'', lg_sink = ''old'', lg_async = False, lg_level = Off\<rparr>], None)"] by auto

text \<open>The clock does not wrap: as long as the seconds since boot are below 18 446 744 073 (some 584 years) and the
  nanoseconds below a second, the reading is the exact number of nanoseconds, so a later time is a larger reading.\<close>

theorem clock_exact:
  assumes "unat (tv_sec ts) < 18446744073" and "unat (tv_nsec ts) < 1000000000"
  shows "unat (nowNanos ts) = unat (tv_sec ts) * 1000000000 + unat (tv_nsec ts)"
proof -
  have m: "unat (tv_sec ts * 1000000000) = unat (tv_sec ts) * 1000000000"
    using assms(1) by (subst unat_mult_lem [THEN iffD1]) simp_all
  then have "unat (tv_sec ts * 1000000000) + unat (tv_nsec ts) < 2 ^ 64" using assms by simp
  then show ?thesis using m unat_add_lem [of "tv_sec ts * 1000000000" "tv_nsec ts"] by (simp add: nowNanos_def)
qed

theorem clock_exact_witness: "unat (nowNanos \<lparr>tv_sec = 2, tv_nsec = 5\<rparr>) = 2000000005"
  using clock_exact [of "\<lparr>tv_sec = 2, tv_nsec = 5\<rparr>"] by simp

end
