(* ===== verification/Fair_Shutdown.thy ===== *)
theory Fair_Shutdown
  imports Engine_Shutdown
begin

text \<open>
  The shutdown of a \<open>TradingEngine\<close> (\<open>src/TradingEngine.cpp\<close>) along infinite behaviours: if no thread that can move is
  passed over forever, the engine is destroyed once its running flag is cleared, in whatever phase \<open>run\<close> is
  then and whatever the other threads do in between.
\<close>

section \<open>Behaviours\<close>

text \<open>An infinite sequence of states with the action taken in each, \<^const>\<open>None\<close> when nothing happens.\<close>

definition behaves :: "life_env \<Rightarrow> ('r, 'm, 'h, 'z, 'j) engine_env \<Rightarrow> (nat \<Rightarrow> ('r, 'm, 'h, 'z) lifecycle) \<Rightarrow> (nat \<Rightarrow> life_action option) \<Rightarrow> bool" where
  "behaves V X \<sigma> \<alpha> \<longleftrightarrow> (\<forall>n. case \<alpha> n of
     None \<Rightarrow> \<sigma> (Suc n) = \<sigma> n
   | Some a \<Rightarrow> good_life a \<and> life_exec V X a (\<sigma> n) = Some (\<sigma> (Suc n)))"

text \<open>An action of a kind that stays enabled is taken.\<close>

definition weakly_fair :: "(life_action \<Rightarrow> bool) \<Rightarrow> (('r, 'm, 'h, 'z) lifecycle \<Rightarrow> bool) \<Rightarrow> (nat \<Rightarrow> ('r, 'm, 'h, 'z) lifecycle) \<Rightarrow> (nat \<Rightarrow> life_action option) \<Rightarrow> bool" where
  "weakly_fair kind ready \<sigma> \<alpha> \<longleftrightarrow> (\<forall>n. (\<forall>m \<ge> n. ready (\<sigma> m)) \<longrightarrow> (\<exists>m \<ge> n. \<exists>a. \<alpha> m = Some a \<and> kind a))"

primrec is_main :: "life_action \<Rightarrow> bool" where
  "is_main (Main ok) \<longleftrightarrow> True"
| "is_main (Turn a) \<longleftrightarrow> False"
| "is_main (End t) \<longleftrightarrow> False"

definition is_gateway_turn :: "life_action \<Rightarrow> bool" where
  "is_gateway_turn a \<longleftrightarrow> (\<exists>stamps. a = Turn (GatewayTurn stamps))"

text \<open>The scheduler and the loops of the threads: the main thread moves on when its step is not blocked, a thread whose
  function can return returns, and the gateway's loop goes on polling its queue.\<close>

definition fair_threads :: "life_env \<Rightarrow> (nat \<Rightarrow> ('r, 'm, 'h, 'z) lifecycle) \<Rightarrow> (nat \<Rightarrow> life_action option) \<Rightarrow> bool" where
  "fair_threads V \<sigma> \<alpha> \<longleftrightarrow>
     weakly_fair is_main (\<lambda>s. \<forall>ok. main_step V ok s \<noteq> None) \<sigma> \<alpha> \<and>
     (\<forall>t. weakly_fair (\<lambda>a. a = End t) (\<lambda>s. lf_threads s t = Running \<and> can_end t s) \<sigma> \<alpha>) \<and>
     weakly_fair is_gateway_turn (\<lambda>s. lf_threads s GatewayThread = Running) \<sigma> \<alpha>"

lemma behaves_step:
  assumes "behaves V X \<sigma> \<alpha>"
  obtains "\<alpha> n = None" and "\<sigma> (Suc n) = \<sigma> n" | a where "\<alpha> n = Some a" and "good_life a" and "life_exec V X a (\<sigma> n) = Some (\<sigma> (Suc n))"
proof -
  have n: "case \<alpha> n of None \<Rightarrow> \<sigma> (Suc n) = \<sigma> n | Some a \<Rightarrow> good_life a \<and> life_exec V X a (\<sigma> n) = Some (\<sigma> (Suc n))"
    using assms unfolding behaves_def by blast
  show thesis by (cases "\<alpha> n") (use n that in \<open>simp_all del: life_exec.simps\<close>)
qed

lemma behaves_lives:
  assumes "behaves V X \<sigma> \<alpha>" and "\<sigma> 0 = constructed E0"
  shows "lives V X E0 (\<sigma> n)"
proof (induction n)
  case 0
  then show ?case using assms(2) lives.born by simp
next
  case (Suc n)
  then show ?case using lives.act by (cases rule: behaves_step [OF assms(1), of n]) auto
qed

section \<open>Steps of the other threads\<close>

text \<open>What stays while the main thread does not move.\<close>

lemma other_step:
  assumes a: "\<not> is_main a" and ex: "life_exec V X a s = Some s'"
  shows "lf_pc s' = lf_pc s" and "length (te_strategies (lf_engine s')) = length (te_strategies (lf_engine s))"
    and "te_symbols (lf_engine s') = te_symbols (lf_engine s)" and "te_is_running (lf_engine s') \<Longrightarrow> te_is_running (lf_engine s)"
    and "lf_threads s' t = lf_threads s t \<or> lf_threads s t = Running \<and> lf_threads s' t = Ended"
    and "lf_source_stopped s' = lf_source_stopped s" and "lf_listener_stopped s' = lf_listener_stopped s"
proof -
  consider b where "a = Turn b" "thread_step X b s = Some s'" | u where "a = End u" "lf_threads s u = Running" "s' = s\<lparr>lf_threads := (lf_threads s)(u := Ended)\<rparr>"
    using a ex by (cases a) (auto split: if_splits)
  then have "lf_pc s' = lf_pc s \<and> length (te_strategies (lf_engine s')) = length (te_strategies (lf_engine s)) \<and>
      te_symbols (lf_engine s') = te_symbols (lf_engine s) \<and> (te_is_running (lf_engine s') \<longrightarrow> te_is_running (lf_engine s)) \<and>
      (lf_threads s' t = lf_threads s t \<or> lf_threads s t = Running \<and> lf_threads s' t = Ended) \<and>
      lf_source_stopped s' = lf_source_stopped s \<and> lf_listener_stopped s' = lf_listener_stopped s"
  proof cases
    case 1
    from 1(2) show ?thesis
    proof (cases rule: thread_stepE)
      case (2 E)
      then show ?thesis using turn_exec_frame [OF 2(1)] by auto
    qed simp
  qed auto
  then show "lf_pc s' = lf_pc s" "length (te_strategies (lf_engine s')) = length (te_strategies (lf_engine s))"
    "te_symbols (lf_engine s') = te_symbols (lf_engine s)" "te_is_running (lf_engine s') \<Longrightarrow> te_is_running (lf_engine s)"
    "lf_threads s' t = lf_threads s t \<or> lf_threads s t = Running \<and> lf_threads s' t = Ended"
    "lf_source_stopped s' = lf_source_stopped s" "lf_listener_stopped s' = lf_listener_stopped s" by blast+
qed

definition same_point :: "('r, 'm, 'h, 'z) lifecycle \<Rightarrow> ('r, 'm, 'h, 'z) lifecycle \<Rightarrow> bool" where
  "same_point s s' \<longleftrightarrow> lf_pc s' = lf_pc s \<and> todo s' = todo s \<and> waits_for s' = waits_for s \<and>
     (te_is_running (lf_engine s') \<longrightarrow> te_is_running (lf_engine s)) \<and> (\<forall>t. lf_threads s t \<noteq> Running \<longrightarrow> lf_threads s' t = lf_threads s t) \<and>
     lf_source_stopped s' = lf_source_stopped s \<and> lf_listener_stopped s' = lf_listener_stopped s"

lemma other_step_point:
  assumes "\<not> is_main a" and "life_exec V X a s = Some s'"
  shows "same_point s s'"
  using other_step [OF assms] by (auto simp: same_point_def todo_def waits_for_def split: life_pc.splits)

lemma same_point_refl: "same_point s s"
  by (simp add: same_point_def)

lemma same_point_trans: "same_point s s1 \<Longrightarrow> same_point s1 s2 \<Longrightarrow> same_point s s2"
  by (auto simp: same_point_def)

lemma point_until_main:
  assumes b: "behaves V X \<sigma> \<alpha>" and "\<forall>k. n \<le> k \<and> k < m \<longrightarrow> (\<forall>a. \<alpha> k = Some a \<longrightarrow> \<not> is_main a)" and "n \<le> m"
  shows "same_point (\<sigma> n) (\<sigma> m)"
  using assms(3,2)
proof (induction m rule: nat_induct_at_least)
  case (Suc m)
  have "same_point (\<sigma> m) (\<sigma> (Suc m))"
    using Suc.prems Suc.hyps by (cases rule: behaves_step [OF b, of m]) (auto intro: other_step_point same_point_refl simp del: life_exec.simps)
  moreover have "same_point (\<sigma> n) (\<sigma> m)" by (rule Suc.IH) (use Suc.prems less_SucI in blast)
  ultimately show ?case by (rule same_point_trans [rotated])
qed (rule same_point_refl)

section \<open>Every join ends\<close>

lemma thread_ends:
  assumes b: "behaves V X \<sigma> \<alpha>" and f: "fair_threads V \<sigma> \<alpha>" and quiet: "\<forall>k \<ge> n. \<forall>a. \<alpha> k = Some a \<longrightarrow> \<not> is_main a"
    and can: "\<forall>m \<ge> n. can_end t (\<sigma> m)"
  shows "\<exists>m \<ge> n. lf_threads (\<sigma> m) t \<noteq> Running"
proof (rule ccontr)
  assume "\<not> ?thesis"
  then have r: "\<forall>m \<ge> n. lf_threads (\<sigma> m) t = Running" by blast
  then obtain m where m: "m \<ge> n" "\<alpha> m = Some (End t)"
    using f can unfolding fair_threads_def weakly_fair_def by blast
  then have "life_exec V X (End t) (\<sigma> m) = Some (\<sigma> (Suc m))" by (cases rule: behaves_step [OF b, of m]) auto
  then have "\<sigma> (Suc m) = (\<sigma> m)\<lparr>lf_threads := (lf_threads (\<sigma> m))(t := Ended)\<rparr>" by (auto split: if_splits)
  then have "lf_threads (\<sigma> (Suc m)) t = Ended" by simp
  then show False using r m(1) by (metis le_SucI thread_status.distinct(5))
qed

text \<open>While the main thread waits for the gateway, no other thread is left, and the queue can only shrink.\<close>

lemma drains_step:
  assumes inv: "life_inv s" and pc: "lf_pc s = JoinGateway r" and q: "queue_rep (te_queue (lf_engine s)) xs"
    and a: "\<not> is_main a" and ex: "life_exec V X a s = Some s'"
  shows "queue_rep (te_queue (lf_engine s')) (if is_gateway_turn a then tl xs else xs)"
proof -
  have alive: "lf_threads s t = Running \<Longrightarrow> t = GatewayThread" for t using inv pc by (auto simp: life_inv_def)
  show ?thesis
  proof (cases a)
    case (Turn b)
    show ?thesis
    proof (cases b)
      case (GatewayTurn stamps)
      obtain E where E: "engine_exec X (GatewayTurn stamps) (lf_engine s) = Some E" "s' = s\<lparr>lf_engine := E\<rparr>"
        using ex Turn GatewayTurn by (auto simp: thread_step_def turn_exec_def simp del: engine_exec.simps split: if_splits)
      have "queue_rep (te_queue E) (tl xs)"
        using E(1) wait_and_pop_refines [OF q, of "Some (te_is_running (lf_engine s))"] q
        by (cases xs) (auto simp: put_gateway_def split: if_splits)
      then show ?thesis using E(2) Turn GatewayTurn by (simp add: is_gateway_turn_def)
    next
      case Signal
      then show ?thesis using ex Turn q by (auto simp: thread_step_def turn_exec_def stop_def is_gateway_turn_def split: if_splits)
    qed (use ex Turn alive in \<open>auto simp: thread_step_def split: if_splits\<close>)
  qed (use ex a q in \<open>auto simp: is_gateway_turn_def split: if_splits\<close>)
qed

lemma gateway_ends:
  assumes b: "behaves V X \<sigma> \<alpha>" and f: "fair_threads V \<sigma> \<alpha>" and quiet: "\<forall>k \<ge> n. \<forall>a. \<alpha> k = Some a \<longrightarrow> \<not> is_main a"
    and inv: "\<forall>m \<ge> n. life_inv (\<sigma> m)" and pc: "\<forall>m \<ge> n. lf_pc (\<sigma> m) = JoinGateway r"
  shows "\<exists>m \<ge> n. lf_threads (\<sigma> m) GatewayThread \<noteq> Running"
proof (rule ccontr)
  assume "\<not> ?thesis"
  then have r: "\<forall>m \<ge> n. lf_threads (\<sigma> m) GatewayThread = Running" by blast
  define Q where "Q m xs \<longleftrightarrow> queue_rep (te_queue (lf_engine (\<sigma> m))) xs" for m xs
  have step: "Q (Suc m) (if \<exists>a. \<alpha> m = Some a \<and> is_gateway_turn a then tl xs else xs)" if "m \<ge> n" "Q m xs" for m xs
  proof (cases rule: behaves_step [OF b, of m])
    case (2 a)
    then show ?thesis using drains_step [OF _ _ _ _ 2(3), of r xs] that quiet inv pc unfolding Q_def by simp
  qed (use that in \<open>simp add: Q_def\<close>)
  have popped: "\<exists>k \<ge> m. Q k xs" if "m \<ge> n" "Q m (x # xs)" "\<exists>a. \<alpha> (m + d) = Some a \<and> is_gateway_turn a" for m d x xs
    using that
  proof (induction d arbitrary: m)
    case 0
    then show ?case using step [OF 0(1,2)] by (intro exI [of _ "Suc m"]) simp
  next
    case (Suc d)
    show ?case
    proof (cases "\<exists>a. \<alpha> m = Some a \<and> is_gateway_turn a")
      case True
      then show ?thesis using step [OF Suc.prems(1,2)] by (intro exI [of _ "Suc m"]) simp
    next
      case False
      then have "Q (Suc m) (x # xs)" using step [OF Suc.prems(1,2)] by (simp only: simp_thms if_False)
      then show ?thesis using Suc.IH [of "Suc m"] Suc.prems(1,3) by (auto dest: Suc_leD)
    qed
  qed
  have drained: "\<exists>k \<ge> m. Q k []" if "m \<ge> n" "Q m xs" for m xs
    using that
  proof (induction xs arbitrary: m)
    case (Cons x xs)
    have "\<forall>k \<ge> m. lf_threads (\<sigma> k) GatewayThread = Running" using r Cons.prems(1) by simp
    then have "\<exists>g \<ge> m. \<exists>a. \<alpha> g = Some a \<and> is_gateway_turn a" using f unfolding fair_threads_def weakly_fair_def by blast
    then obtain g where g: "m \<le> g" "\<exists>a. \<alpha> g = Some a \<and> is_gateway_turn a" by blast
    then obtain k where k: "k \<ge> m" "Q k xs" using popped [OF Cons.prems, of "g - m"] by auto
    then show ?case using Cons.IH [of k] Cons.prems(1) by (meson le_trans)
  qed auto
  have "life_inv (\<sigma> n)" using inv by simp
  then obtain xs where "Q n xs" by (auto simp: life_inv_def engine_inv_def Q_def)
  then obtain k where k: "k \<ge> n" "Q k []" using drained by blast
  have empty: "Q m []" if "m \<ge> k" for m
    using that
  proof (induction m rule: nat_induct_at_least)
    case (Suc m)
    then show ?case using step [OF le_trans [OF k(1)], of m "[]"] by (simp cong: if_cong)
  qed (rule k(2))
  have "can_end GatewayThread (\<sigma> m)" if "m \<ge> k" for m
  proof -
    have "\<not> te_is_running (lf_engine (\<sigma> m))" using inv pc that k(1) by (auto simp: life_inv_def control_ok_def starting_def)
    then show ?thesis using try_pop_refines [OF empty [OF that, unfolded Q_def]] by simp
  qed
  then show False using thread_ends [OF b f, of k GatewayThread] quiet k(1) r by (meson le_trans)
qed

text \<open>The main thread never waits forever.\<close>

lemma main_moves:
  fixes \<sigma> :: "nat \<Rightarrow> ('a, 'b, 'c, 'd) lifecycle"
  assumes b: "behaves V X \<sigma> \<alpha>" and f: "fair_threads V \<sigma> \<alpha>" and inv: "\<forall>m \<ge> n. life_inv (\<sigma> m)" and live: "\<forall>m \<ge> n. lf_pc (\<sigma> m) \<noteq> Destroyed"
  shows "\<exists>m \<ge> n. \<exists>a. \<alpha> m = Some a \<and> is_main a"
proof (rule ccontr)
  assume "\<not> ?thesis"
  then have quiet: "\<forall>k \<ge> n. \<forall>a. \<alpha> k = Some a \<longrightarrow> \<not> is_main a" by blast
  have point: "same_point (\<sigma> k) (\<sigma> m)" if "n \<le> k" "k \<le> m" for k m
    by (rule point_until_main [OF b _ that(2)]) (use quiet that(1) le_trans in blast)
  have "\<exists>k \<ge> n. \<forall>t. waits_for (\<sigma> k) = Some t \<longrightarrow> lf_threads (\<sigma> k) t \<noteq> Running"
  proof (cases "waits_for (\<sigma> n)")
    case (Some t)
    have w: "waits_for (\<sigma> m) = Some t" if "m \<ge> n" for m using point [OF _ that] Some by (simp add: same_point_def)
    have "\<exists>k \<ge> n. lf_threads (\<sigma> k) t \<noteq> Running"
    proof (cases "t = GatewayThread")
      case True
      then obtain r where "lf_pc (\<sigma> n) = JoinGateway r" using Some by (auto simp: waits_for_def split: life_pc.splits if_splits)
      then have "lf_pc (\<sigma> m) = JoinGateway r" if "m \<ge> n" for m using point [OF order_refl that] by (simp add: same_point_def)
      then have "\<forall>m \<ge> n. lf_pc (\<sigma> m) = JoinGateway r" by blast
      from gateway_ends [OF b f quiet inv this] True show ?thesis by simp
    next
      case False
      have "can_end t s" if "life_inv s" "waits_for s = Some t" for s :: "('a, 'b, 'c, 'd) lifecycle"
        using that False by (auto simp: life_inv_def control_ok_def starting_def waits_for_def split: life_pc.splits if_splits)
      then show ?thesis using thread_ends [OF b f quiet, of t] inv w by blast
    qed
    then show ?thesis using w by (metis option.inject)
  qed auto
  then obtain k where k: "k \<ge> n" "\<forall>t. waits_for (\<sigma> k) = Some t \<longrightarrow> lf_threads (\<sigma> k) t \<noteq> Running" by blast
  have "main_step V ok (\<sigma> m) \<noteq> None" if "m \<ge> k" for m ok
    using point [OF k(1) that] k live that unfolding main_blocked by (auto simp: same_point_def)
  then obtain m where "m \<ge> k" "\<exists>a. \<alpha> m = Some a \<and> is_main a" using f unfolding fair_threads_def weakly_fair_def by blast
  then show False using quiet k(1) by (meson le_trans)
qed

lemma fair_destroyed:
  assumes b: "behaves V X \<sigma> \<alpha>" and f: "fair_threads V \<sigma> \<alpha>" and inv: "\<forall>m. life_inv (\<sigma> m)" and stopped: "\<not> te_is_running (lf_engine (\<sigma> n))"
  shows "\<exists>m \<ge> n. lf_pc (\<sigma> m) = Destroyed"
proof -
  have "\<forall>n. \<sigma> n = s \<longrightarrow> \<not> te_is_running (lf_engine (\<sigma> n)) \<longrightarrow> (\<exists>m \<ge> n. lf_pc (\<sigma> m) = Destroyed)" for s
  proof (induction s rule: wf_induct_rule [OF wf_measures [of "[\<lambda>s. phase (lf_pc s), todo]"]])
    case (1 s)
    show ?case
    proof (intro allI impI)
      fix n assume s: "\<sigma> n = s" "\<not> te_is_running (lf_engine (\<sigma> n))"
      show "\<exists>m \<ge> n. lf_pc (\<sigma> m) = Destroyed"
      proof (rule ccontr)
        assume live: "\<not> ?thesis"
        define P where "P m \<longleftrightarrow> m \<ge> n \<and> (\<exists>a. \<alpha> m = Some a \<and> is_main a)" for m
        have "\<exists>m. P m" using main_moves [OF b f, of n] inv live by (auto simp: P_def)
        then obtain m where m: "P m" "\<forall>k < m. \<not> P k" by (metis LeastI_ex not_less_Least)
        have p: "same_point (\<sigma> n) (\<sigma> m)" by (rule point_until_main [OF b]) (use m in \<open>auto simp: P_def\<close>)
        obtain a where "\<alpha> m = Some a" "is_main a" using m(1) by (auto simp: P_def)
        then obtain ok where "\<alpha> m = Some (Main ok)" by (cases a) auto
        then have ok: "main_step V ok (\<sigma> m) = Some (\<sigma> (Suc m))" by (cases rule: behaves_step [OF b, of m]) auto
        have "\<not> te_is_running (lf_engine (\<sigma> m))" using p s(2) by (auto simp: same_point_def)
        note r = main_rank [OF ok this]
        have "(\<sigma> (Suc m), s) \<in> measures [\<lambda>s. phase (lf_pc s), todo]" using r(1) p s(1) by (simp add: same_point_def)
        then obtain k where "k \<ge> Suc m" "lf_pc (\<sigma> k) = Destroyed" using 1 r(2) by blast
        then show False using live m(1) by (auto simp: P_def)
      qed
    qed
  qed
  then show ?thesis using stopped by blast
qed

section \<open>Property\<close>

text \<open>C4. The shutdown ends, on every fair behaviour: run the engine from its construction in any interleaving in which the main
  thread is not passed over forever while it can move, a thread whose function can return returns, and the
  gateway keeps polling its queue. Once the running flag is cleared, by a signal at any moment or by a failed start,
  the engine is eventually destroyed: every join of \<open>shutdown\<close> returns, however many orders are queued and
  whatever the exchange answers.\<close>

theorem fair_shutdown:
  assumes "new_TradingEngine H no_orders sink creds config rest recon = Inr E0"
    and "validateConfig config = None" and "in_i64 (rc_max_position_per_symbol (cfg_risk config))"
    and "\<forall>symb \<in> set (tc_symbols (cfg_trading config)). valid_key (symbolToKey symb)"
    and "length (tc_symbols (cfg_trading config)) \<le> kMaxSymbols"
    and "text_env X" and "\<sigma> 0 = constructed E0" and "behaves V X \<sigma> \<alpha>" and "fair_threads V \<sigma> \<alpha>"
    and "\<not> te_is_running (lf_engine (\<sigma> n))"
  shows "\<exists>m \<ge> n. lf_pc (\<sigma> m) = Destroyed"
proof -
  have "valid_config config" using assms(2) by (simp add: validateConfig_iff)
  note e = constructed_engine_inv [OF assms(1) this assms(3-5)]
  have "\<forall>m. life_inv (\<sigma> m)" using lives_inv [OF behaves_lives [OF assms(8,7)] assms(6) e(1,3)] by blast
  then show ?thesis using fair_destroyed [OF assms(8,9)] assms(10) by blast
qed

section \<open>A concrete behaviour\<close>

text \<open>A run that ends with the engine destroyed, followed by nothing, is a fair behaviour.\<close>

lemma ended_behaviour:
  assumes run: "run_list (life_exec V X) acts s0 = Some s" and good: "\<forall>a \<in> set acts. good_life a" and s: "lf_pc s = Destroyed" "life_inv s"
  shows "\<exists>\<sigma> \<alpha>. \<sigma> 0 = s0 \<and> behaves V X \<sigma> \<alpha> \<and> fair_threads V \<sigma> \<alpha> \<and> (\<forall>n. run_list (life_exec V X) (take n acts) s0 = Some (\<sigma> n)) \<and>
    (\<forall>n. \<alpha> n = (if n < length acts then Some (acts ! n) else None))"
proof -
  let ?run = "\<lambda>n. run_list (life_exec V X) (take n acts) s0"
  define \<sigma> where "\<sigma> n = the (?run n)" for n
  define \<alpha> where "\<alpha> n = (if n < length acts then Some (acts ! n) else None)" for n
  have \<sigma>: "?run n = Some (\<sigma> n)" for n
  proof -
    have "run_list (life_exec V X) (take n acts @ drop n acts) s0 = Some s" using run by simp
    then have "?run n \<noteq> None" unfolding run_list_append by (cases "?run n") (auto simp del: append_take_drop_id)
    then show ?thesis by (simp add: \<sigma>_def)
  qed
  have "case \<alpha> n of None \<Rightarrow> \<sigma> (Suc n) = \<sigma> n | Some a \<Rightarrow> good_life a \<and> life_exec V X a (\<sigma> n) = Some (\<sigma> (Suc n))" for n
  proof (cases "n < length acts")
    case True
    have "run_list (life_exec V X) (take n acts @ [acts ! n]) s0 = Some (\<sigma> (Suc n))" using \<sigma> [of "Suc n"] True by (simp add: take_Suc_conv_app_nth)
    then have "life_exec V X (acts ! n) (\<sigma> n) = Some (\<sigma> (Suc n))" using \<sigma> [of n] by (auto simp: run_list_append split: option.splits)
    then show ?thesis using True good by (simp add: \<alpha>_def del: life_exec.simps)
  qed (simp add: \<alpha>_def \<sigma>_def)
  then have b: "behaves V X \<sigma> \<alpha>" by (simp add: behaves_def)
  have "\<exists>m \<ge> n. \<sigma> m = s" for n by (rule exI [of _ "max n (length acts)"]) (simp add: \<sigma>_def run)
  then have idle: "weakly_fair kind ready \<sigma> \<alpha>" if "\<not> ready s" for kind ready using that unfolding weakly_fair_def by metis
  have off: "main_step V ok s = None" "lf_threads s t \<noteq> Running" for ok t using s by (auto simp: main_blocked life_inv_def)
  have "fair_threads V \<sigma> \<alpha>" unfolding fair_threads_def by (intro conjI allI; rule idle) (simp_all add: off)
  moreover have "\<sigma> 0 = s0" by (simp add: \<sigma>_def)
  ultimately show ?thesis using b \<sigma> \<alpha>_def by blast
qed

theorem fair_shutdown_witness:
  "\<exists>(E0 :: demo_engine) \<sigma> \<alpha> m. new_TradingEngine demo_hdr [] [] (Some ''k'', Some ''s'') one_symbol () None = Inr E0 \<and>
    \<sigma> 0 = constructed E0 \<and> behaves demo_life demo_engine_env \<sigma> \<alpha> \<and> fair_threads demo_life \<sigma> \<alpha> \<and>
    lf_pc (\<sigma> 7) = Looping \<and> lf_threads (\<sigma> 7) GatewayThread = Running \<and> \<not> te_is_running (lf_engine (\<sigma> 7)) \<and>
    7 \<le> m \<and> lf_pc (\<sigma> m) = Destroyed"
proof -
  obtain E0 :: demo_engine where E0: "new_TradingEngine demo_hdr [] [] (Some ''k'', Some ''s'') one_symbol () None = Inr E0"
    "te_is_running E0" "te_strategies E0 = []" "te_symbols E0 = [''AAPL'']" "te_queue E0 = new_Queue zero_Order" by (rule demo_new)
  let ?run = "run_list (life_exec demo_life demo_engine_env)"
  obtain s1 where s1: "?run (replicate 6 (Main True)) (constructed E0) = Some s1" "lf_pc s1 = Looping"
    "lf_engine s1 = E0\<lparr>te_strategies := [default_strategy]\<rparr>" "\<not> lf_shutdown_done s1" "lf_is_running_ptr s1"
    "lf_threads s1 = (\<lambda>_. NotJoinable)(ListenerThread := Running, SourceThread := Running, GatewayThread := Running, ConsumerThread 0 := Running)"
    using started_run [OF E0(2-4)] by blast
  let ?s2 = "s1\<lparr>lf_engine := stop (lf_engine s1)\<rparr>" and ?s3 = "s1\<lparr>lf_engine := stop (lf_engine s1), lf_threads := (lf_threads s1)(GatewayThread := Ended)\<rparr>"
  have sig: "life_exec demo_life demo_engine_env (Turn Signal) s1 = Some ?s2" using s1(5) by (simp add: thread_step_def turn_exec_def)
  have "try_pop (new_Queue zero_Order) = Some (None, new_Queue zero_Order)" using try_pop_refines [OF queue_rep_new] by simp
  then have g: "life_exec demo_life demo_engine_env (End GatewayThread) ?s2 = Some ?s3" using s1(3,6) E0(5) by (simp add: stop_def)
  obtain s where s: "?run wind_down ?s3 = Some s" "lf_pc s = Destroyed"
    using wind_down_run [of ?s3 demo_life demo_engine_env] s1 by (auto simp: stop_def)
  let ?acts = "replicate 6 (Main True) @ Turn Signal # End GatewayThread # wind_down"
  have run: "?run ?acts (constructed E0) = Some s" unfolding run_list_append s1(1) using sig g s(1) by (simp del: life_exec.simps)
  have good: "\<forall>a \<in> set ?acts. good_life a" by (simp add: wind_down_def)
  have "valid_config one_symbol" using one_symbol_valid(1) by (simp add: validateConfig_iff)
  note e = constructed_engine_inv [OF E0(1) this one_symbol_valid(2-4)]
  have "life_inv s" using lives_inv [OF lives_run [OF lives.born good run] demo_engine_text e(1,3)] .
  from ended_behaviour [OF run good s(2) this] obtain \<sigma> \<alpha> where b: "\<sigma> 0 = constructed E0" "behaves demo_life demo_engine_env \<sigma> \<alpha>"
    "fair_threads demo_life \<sigma> \<alpha>" "\<And>n. ?run (take n ?acts) (constructed E0) = Some (\<sigma> n)" by blast
  have "?run (replicate 6 (Main True) @ [Turn Signal]) (constructed E0) = Some (\<sigma> 7)" using b(4) [of 7] by (simp add: eval_nat_numeral)
  then have s7: "\<sigma> 7 = ?s2" unfolding run_list_append s1(1) using sig by (simp del: life_exec.simps)
  then have stopped: "\<not> te_is_running (lf_engine (\<sigma> 7))" by (simp add: stop_def)
  from fair_shutdown [OF E0(1) one_symbol_valid demo_engine_text b(1-3) stopped] obtain m where "7 \<le> m" "lf_pc (\<sigma> m) = Destroyed" by blast
  then show ?thesis using E0(1) b(1-3) stopped s7 s1(2,6)
    by (intro exI [of _ E0] exI [of _ \<sigma>] exI [of _ \<alpha>] exI [of _ m]) simp
qed

end
