(* ===== verification/Broker_Orders.thy ===== *)
theory Broker_Orders
  imports Trading_Engine
begin

text \<open>
  The orders of the engine as the broker sees them, beside the state of the fill listener
  (\<open>src/AlpacaFillListener.cpp\<close>): the open orders with what the engine has not been told about them, the ids of
  the closed ones, what is outstanding against the position table, and how the listener's two tables of order ids
  follow the reports of the broker, by message or, after a reconnect, by reconciliation.
\<close>

section \<open>Open orders\<close>

text \<open>\<open>oo_remaining\<close> is the part of the order the engine has not heard to be filled; the broker may have filled some of it.\<close>

record open_order =
  oo_symbol :: string
  oo_id :: string
  oo_total :: int
  oo_remaining :: int

abbreviation oo_key :: "open_order \<Rightarrow> u64" where
  "oo_key w \<equiv> symbolBufferToKey (oo_symbol w)"

abbreviation with_remaining :: "int \<Rightarrow> open_order \<Rightarrow> open_order" where
  "with_remaining r w \<equiv> w\<lparr>oo_remaining := r\<rparr>"

definition good_open :: "open_order \<Rightarrow> bool" where
  "good_open w \<longleftrightarrow> valid_key (oo_key w) \<and> 0 < oo_remaining w \<and> good_id (oo_id w) \<and> oo_id w \<noteq> []"

definition outstanding :: "u64 \<Rightarrow> Order list \<Rightarrow> open_order list \<Rightarrow> int" where
  "outstanding k xs ws = (\<Sum>ord\<leftarrow>filter (\<lambda>ord. ord_key ord = k) xs. ord_quantity ord) +
     (\<Sum>w\<leftarrow>filter (\<lambda>w. oo_key w = k) ws. oo_remaining w)"

lemma outstanding_simps [simp]:
  "outstanding k (xs @ ys) ws = outstanding k xs ws + outstanding k ys []"
  "outstanding k (ord # xs) ws = (if ord_key ord = k then ord_quantity ord else 0) + outstanding k xs ws"
  "outstanding k [] (ws @ vs) = outstanding k [] ws + outstanding k [] vs"
  "outstanding k [] (w # ws) = (if oo_key w = k then oo_remaining w else 0) + outstanding k [] ws"
  "outstanding k [] [] = 0"
  by (simp_all add: outstanding_def)

lemma outstanding_split: "outstanding k xs ws = outstanding k xs [] + outstanding k [] ws"
  by (simp add: outstanding_def)

lemma outstanding_nonneg:
  assumes "\<forall>ord \<in> set xs. 0 < ord_quantity ord" and "\<forall>w \<in> set ws. 0 \<le> oo_remaining w"
  shows "0 \<le> outstanding k xs ws"
proof -
  have "0 \<le> outstanding k xs []" using assms(1) by (induction xs) auto
  moreover have "0 \<le> outstanding k [] ws" using assms(2) by (induction ws) auto
  ultimately show ?thesis using outstanding_split [of k xs ws] by simp
qed

section \<open>The positions\<close>

text \<open>The position of a key, against the limit and what is outstanding.\<close>

definition holds_within :: "int \<Rightarrow> PositionManager \<Rightarrow> u64 \<Rightarrow> int \<Rightarrow> bool" where
  "holds_within m pm k n \<longleftrightarrow> 0 \<le> e_filled (position pm k) \<and> e_pending (position pm k) = n \<and> e_filled (position pm k) + n \<le> m"

definition books :: "int \<Rightarrow> string list \<Rightarrow> Order list \<Rightarrow> PositionManager \<Rightarrow> open_order list \<Rightarrow> bool" where
  "books m syms xs pm ws \<longleftrightarrow> in_i64 m \<and> pm_inv pm \<and> (\<forall>ord \<in> set xs. 0 < ord_quantity ord) \<and>
     (\<forall>symb \<in> set syms. valid_key (symbolToKey symb) \<and> tracked pm (symbolToKey symb) \<and>
        holds_within m pm (symbolToKey symb) (outstanding (symbolToKey symb) xs ws))"

lemma holds_within_op:
  assumes h: "holds_within m pm k n" and inv: "pm_inv pm" and k: "valid_key k" "tracked pm k"
    and op: "apply_op op pm = Some pm'" "valid_key (op_key op)" and m: "in_i64 m"
    and new: "n' = n + (if op_key op = k then op_pending op else 0)" "0 \<le> n'" "0 \<le> op_filled op"
    and lim: "op_key op = k \<Longrightarrow> e_filled (position pm k) + op_filled op + n' \<le> m"
  shows "holds_within m pm' k n'"
proof -
  let ?f = "e_filled (position pm k) + (if op_key op = k then op_filled op else 0)"
  have "0 \<le> ?f" "?f + n' \<le> m" using h new lim by (auto simp: holds_within_def)
  moreover from this have "in_i64 ?f" "in_i64 n'" using new(2) m by (auto simp: in_i64_def)
  ultimately show ?thesis
    using pm_book.step_filled [OF inv op(2) k op(1)] pm_book.step_pending [OF inv op(2) k op(1)] h new(1)
    by (simp add: holds_within_def)
qed

text \<open>An operation on the book that takes what it reports off the orders.\<close>

lemma books_op:
  assumes b: "books m syms xs pm ws" and op: "apply_op op pm = Some pm'" "valid_key (op_key op)" "0 \<le> op_filled op"
    and ys: "\<forall>ord \<in> set ys. 0 < ord_quantity ord" and vs: "\<forall>w \<in> set vs. 0 \<le> oo_remaining w"
    and off: "\<And>k. outstanding k ys vs = outstanding k xs ws + (if op_key op = k then op_pending op else 0)"
    and lim: "op_filled op + op_pending op \<le> 0 \<or> exposure pm (op_key op) + op_filled op + op_pending op \<le> m"
  shows "books m syms ys pm' vs"
proof -
  have inv: "pm_inv pm" and m: "in_i64 m" using b by (simp_all add: books_def)
  have "valid_key k \<and> tracked pm' k \<and> holds_within m pm' k (outstanding k ys vs)" if "k \<in> symbolToKey ` set syms" for k
  proof -
    have k: "valid_key k" "tracked pm k" "holds_within m pm k (outstanding k xs ws)" using b that by (auto simp: books_def)
    have "holds_within m pm' k (outstanding k ys vs)"
      by (rule holds_within_op [OF k(3) inv k(1,2) op(1,2) m off outstanding_nonneg [OF ys vs] op(3)])
        (use k(3) lim off [of k] in \<open>auto simp: holds_within_def exposure_def\<close>)
    then show ?thesis using k pm_book.step_tracks [OF inv op(2) k(1,2) op(1)] by blast
  qed
  then show ?thesis using m ys pm_book.step_inv [OF inv op(2,1)] by (auto simp: books_def)
qed

lemma books_fill:
  assumes b: "books m syms xs pm (us @ w # vs)" and good: "\<forall>v \<in> set (us @ w # vs). valid_key (oo_key v) \<and> 0 \<le> oo_remaining v"
    and q: "0 \<le> q" "q \<le> oo_remaining w"
    and run: "onFill \<lparr>fill_symbol = oo_symbol w, fill_executionId = e, fill_orderId = i, fill_side = Buy, fill_quantity = q, fill_price = p\<rparr> pm = Some pm'"
  shows "books m syms xs pm' (us @ with_remaining (oo_remaining w - q) w # vs)"
proof -
  let ?f = "\<lparr>fill_symbol = oo_symbol w, fill_executionId = e, fill_orderId = i, fill_side = Buy, fill_quantity = q, fill_price = p\<rparr>"
  have "apply_op (Filled ?f) pm = Some pm'" using run by simp
  then show ?thesis
    by (rule books_op [OF b])
      (use good q b in \<open>auto simp: books_def outstanding_split [of _ xs "us @ w # vs"] outstanding_split [of _ xs "us @ with_remaining r w # vs" for r]\<close>)
qed

lemma books_cancel:
  assumes b: "books m syms xs pm (us @ w # vs)" and good: "\<forall>v \<in> set (us @ w # vs). valid_key (oo_key v) \<and> 0 \<le> oo_remaining v"
    and o: "ord_key ord = oo_key w" "ord_side ord = Buy" "ord_quantity ord = oo_remaining w" and run: "onOrderCancelled ord pm = Some pm'"
  shows "books m syms xs pm' (us @ vs)"
proof -
  have "apply_op (Cancelled ord) pm = Some pm'" using run by simp
  then show ?thesis
    by (rule books_op [OF b])
      (use good o b in \<open>auto simp: books_def outstanding_split [of _ xs "us @ w # vs"] outstanding_split [of _ xs "us @ vs"]\<close>)
qed

lemma books_drop: "oo_remaining w = 0 \<Longrightarrow> books m syms xs pm (us @ w # vs) = books m syms xs pm (us @ vs)"
  using outstanding_split [of _ xs "us @ w # vs"] outstanding_split [of _ xs "us @ vs"] by (simp add: books_def)

section \<open>The tables of the listener\<close>

definition filled_ids :: "('r, 'm, 'h) FillListener \<Rightarrow> string list" where
  "filled_ids L = map (\<lambda>e. buf_view (fl_order_id e)) (fl_filled_entries L)"

definition completed_ids :: "('r, 'm, 'h) FillListener \<Rightarrow> string list" where
  "completed_ids L = map (\<lambda>e. buf_view (cl_order_id e)) (fl_completed_entries L)"

text \<open>As long as there have been no more orders than the tables hold, they say what the engine has heard of each open
  order, and which orders are closed.\<close>

definition tabled :: "('r, 'm, 'h) FillListener \<Rightarrow> open_order list \<Rightarrow> string list \<Rightarrow> bool" where
  "tabled L ws cs \<longleftrightarrow> (length ws + length cs \<le> kMaxTrackedOrders \<longrightarrow>
     distinct (filled_ids L) \<and> set (filled_ids L) \<subseteq> set (map oo_id ws @ cs) \<and> distinct (completed_ids L) \<and> set (completed_ids L) = set cs \<and>
     (\<forall>w \<in> set ws. findFilledQty (oo_id w) L = oo_total w - oo_remaining w))"

lemma tabled_cong:
  "fl_filled_entries L' = fl_filled_entries L \<Longrightarrow> fl_completed_entries L' = fl_completed_entries L \<Longrightarrow> tabled L' ws cs = tabled L ws cs"
  by (simp add: tabled_def filled_ids_def completed_ids_def findFilledQty_def)

lemma tabled_as:
  assumes "tabled L ws cs" and "length ws + length cs \<le> kMaxTrackedOrders \<Longrightarrow> fl_filled_entries L' = fl_filled_entries L"
    and "length ws + length cs \<le> kMaxTrackedOrders \<Longrightarrow> fl_completed_entries L' = fl_completed_entries L"
  shows "tabled L' ws cs"
  using assms tabled_cong [of L' L ws cs] by (auto simp: tabled_def)

lemma isCompleted_ids: "isCompleted i L \<longleftrightarrow> i \<in> set (completed_ids L)"
  by (auto simp: isCompleted_def completed_ids_def)

lemma upsert_ids:
  assumes "good_id i" and "room_for i L"
  shows "filled_ids (upsertFilledQty i q L) = (if i \<in> set (filled_ids L) then filled_ids L else filled_ids L @ [i])"
    and "completed_ids (upsertFilledQty i q L) = completed_ids L"
proof -
  show "filled_ids (upsertFilledQty i q L) = (if i \<in> set (filled_ids L) then filled_ids L else filled_ids L @ [i])"
  proof (cases "set_filled i q (fl_filled_entries L)")
    case None
    then have "i \<notin> set (filled_ids L)" by (auto simp: set_filled_None filled_ids_def)
    moreover have "length (fl_filled_entries L) < kMaxTrackedOrders" using assms(2) None by (auto simp: set_filled_None room_for_def)
    ultimately show ?thesis using None buf_view_copyOrderId [OF assms(1)] by (simp add: upsertFilledQty_def filled_ids_def)
  next
    case (Some es)
    have "map buf_view (map fl_order_id es) = map buf_view (map fl_order_id (fl_filled_entries L))" using set_filled_Some [OF Some] by simp
    moreover have "i \<in> set (filled_ids L)" using Some set_filled_None [of i q "fl_filled_entries L"] by (auto simp: filled_ids_def)
    ultimately show ?thesis using Some by (simp add: upsertFilledQty_def filled_ids_def comp_def)
  qed
qed (simp add: completed_ids_def)

lemma room_of_ids:
  assumes "distinct (filled_ids L)" and "set (filled_ids L) \<subseteq> set is" and "i \<in> set is" and "length is \<le> kMaxTrackedOrders"
  shows "room_for i L"
proof (cases "i \<in> set (filled_ids L)")
  case True
  then show ?thesis by (auto simp: room_for_def filled_ids_def)
next
  case False
  have "length (filled_ids L) = card (set (filled_ids L))" using assms(1) by (simp add: distinct_card)
  also have "\<dots> < card (set is)" using assms(2,3) False by (intro psubset_card_mono) auto
  also have "\<dots> \<le> kMaxTrackedOrders" using card_length [of "is"] assms(4) by simp
  finally show ?thesis by (simp add: room_for_def filled_ids_def)
qed

lemma tabled_upsert:
  assumes t: "tabled L (us @ w # vs) cs" and i: "good_id (oo_id w)" and d: "distinct (map oo_id (us @ w # vs))"
  shows "tabled (upsertFilledQty (oo_id w) (oo_total w - r) L) (us @ with_remaining r w # vs) cs"
  unfolding tabled_def
proof (intro impI)
  assume n: "length (us @ with_remaining r w # vs) + length cs \<le> kMaxTrackedOrders"
  let ?is = "map oo_id (us @ w # vs) @ cs"
  have t': "distinct (filled_ids L)" "set (filled_ids L) \<subseteq> set ?is" "distinct (completed_ids L)" "set (completed_ids L) = set cs"
    "\<forall>v \<in> set (us @ w # vs). findFilledQty (oo_id v) L = oo_total v - oo_remaining v" using t n by (simp_all add: tabled_def)
  have room: "room_for (oo_id w) L" by (rule room_of_ids [OF t'(1,2)]) (use n in simp_all)
  note u = upsert_ids [OF i room] findFilledQty_upsert_room(1) [OF i room]
  have "oo_id v \<noteq> oo_id w" if "v \<in> set us \<union> set vs" for v using d that by (auto simp: image_iff)
  then have "\<forall>v \<in> set (us @ with_remaining r w # vs). findFilledQty (oo_id v) (upsertFilledQty (oo_id w) (oo_total w - r) L) = oo_total v - oo_remaining v"
    using t'(5) by (auto simp: u(3))
  then show "distinct (filled_ids (upsertFilledQty (oo_id w) (oo_total w - r) L)) \<and>
      set (filled_ids (upsertFilledQty (oo_id w) (oo_total w - r) L)) \<subseteq> set (map oo_id (us @ with_remaining r w # vs) @ cs) \<and>
      distinct (completed_ids (upsertFilledQty (oo_id w) (oo_total w - r) L)) \<and> set (completed_ids (upsertFilledQty (oo_id w) (oo_total w - r) L)) = set cs \<and>
      (\<forall>v \<in> set (us @ with_remaining r w # vs). findFilledQty (oo_id v) (upsertFilledQty (oo_id w) (oo_total w - r) L) = oo_total v - oo_remaining v)"
    using t' by (auto simp: u(1,2))
qed

lemma tabled_close:
  assumes t: "tabled L (us @ w # vs) cs" and i: "good_id (oo_id w)" and d: "oo_id w \<notin> set cs"
  shows "tabled (markCompleted (oo_id w) L) (us @ vs) (oo_id w # cs)"
  unfolding tabled_def
proof (intro impI)
  assume n: "length (us @ vs) + length (oo_id w # cs) \<le> kMaxTrackedOrders"
  have t': "distinct (filled_ids L)" "set (filled_ids L) \<subseteq> set (map oo_id (us @ w # vs) @ cs)" "distinct (completed_ids L)" "set (completed_ids L) = set cs"
    "\<forall>v \<in> set (us @ w # vs). findFilledQty (oo_id v) L = oo_total v - oo_remaining v" using t n by (simp_all add: tabled_def)
  have "length (completed_ids L) = card (set cs)" using t'(3,4) by (metis distinct_card)
  then have "length (fl_completed_entries L) < kMaxTrackedOrders" using card_length [of cs] n by (simp add: completed_ids_def)
  moreover have "\<not> isCompleted (oo_id w) L" using d t'(4) by (simp add: isCompleted_ids)
  ultimately have "completed_ids (markCompleted (oo_id w) L) = completed_ids L @ [oo_id w]"
    using buf_view_copyOrderId [OF i] by (simp add: markCompleted_def completed_ids_def)
  moreover have "filled_ids (markCompleted (oo_id w) L) = filled_ids L" by (simp add: filled_ids_def)
  ultimately show "distinct (filled_ids (markCompleted (oo_id w) L)) \<and> set (filled_ids (markCompleted (oo_id w) L)) \<subseteq> set (map oo_id (us @ vs) @ oo_id w # cs) \<and>
      distinct (completed_ids (markCompleted (oo_id w) L)) \<and> set (completed_ids (markCompleted (oo_id w) L)) = set (oo_id w # cs) \<and>
      (\<forall>v \<in> set (us @ vs). findFilledQty (oo_id v) (markCompleted (oo_id w) L) = oo_total v - oo_remaining v)"
    using t' d by auto
qed

lemma tabled_open:
  assumes t: "tabled L ws cs" and w: "oo_id w \<notin> set (map oo_id ws @ cs)" "oo_total w = oo_remaining w"
  shows "tabled L (ws @ [w]) cs"
  unfolding tabled_def
proof (intro impI)
  assume "length (ws @ [w]) + length cs \<le> kMaxTrackedOrders"
  then have t': "distinct (filled_ids L)" "set (filled_ids L) \<subseteq> set (map oo_id ws @ cs)" "distinct (completed_ids L)" "set (completed_ids L) = set cs"
    "\<forall>v \<in> set ws. findFilledQty (oo_id v) L = oo_total v - oo_remaining v" using t by (simp_all add: tabled_def)
  have "find_filled i es = 0" if "\<forall>e \<in> set es. i \<noteq> buf_view (fl_order_id e)" for i es using that by (induction es) auto
  moreover have "oo_id w \<notin> set (filled_ids L)" using w(1) t'(2) by blast
  ultimately have "findFilledQty (oo_id w) L = 0" by (simp add: findFilledQty_def filled_ids_def image_iff)
  then show "distinct (filled_ids L) \<and> set (filled_ids L) \<subseteq> set (map oo_id (ws @ [w]) @ cs) \<and> distinct (completed_ids L) \<and>
      set (completed_ids L) = set cs \<and> (\<forall>v \<in> set (ws @ [w]). findFilledQty (oo_id v) L = oo_total v - oo_remaining v)"
    using t' w(2) by auto
qed

section \<open>Reports of the broker\<close>

text \<open>The whole accounting: positions and tables, for the orders in the queue and at the broker.\<close>

definition accounts :: "int \<Rightarrow> string list \<Rightarrow> Order list \<Rightarrow> ('r, 'm, 'h) FillListener \<Rightarrow> open_order list \<Rightarrow> string list \<Rightarrow> bool" where
  "accounts m syms xs L ws cs \<longleftrightarrow> books m syms xs (fl_pm L) ws \<and> (\<forall>w \<in> set ws. good_open w) \<and> distinct (map oo_id ws @ cs) \<and> tabled L ws cs"

lemma accountsD:
  assumes "accounts m syms xs L ws cs"
  shows "books m syms xs (fl_pm L) ws" and "\<forall>w \<in> set ws. valid_key (oo_key w) \<and> 0 \<le> oo_remaining w" and "\<forall>w \<in> set ws. good_open w"
    and "distinct (map oo_id ws @ cs)" and "tabled L ws cs"
  using assms by (auto simp: accounts_def good_open_def intro: less_imp_le)

lemma accounts_cong:
  assumes "fl_pm L' = fl_pm L" "fl_filled_entries L' = fl_filled_entries L" "fl_completed_entries L' = fl_completed_entries L"
  shows "accounts m syms xs L' ws cs = accounts m syms xs L ws cs"
  using assms tabled_cong [OF assms(2,3)] by (simp add: accounts_def)

text \<open>A fill of an open order, booked and entered in the table; an order that is filled is closed.\<close>

lemma accounts_fill:
  assumes a: "accounts m syms xs L (us @ w # vs) cs" and q: "0 < q" "q < oo_remaining w"
    and run: "onFill \<lparr>fill_symbol = oo_symbol w, fill_executionId = 0, fill_orderId = 0, fill_side = Buy, fill_quantity = q, fill_price = p\<rparr> (fl_pm L) = Some pm'"
    and L': "fl_pm L' = pm'" "length (us @ w # vs) + length cs \<le> kMaxTrackedOrders \<Longrightarrow>
      fl_filled_entries L' = fl_filled_entries (upsertFilledQty (oo_id w) (oo_total w - (oo_remaining w - q)) L)"
      "fl_completed_entries L' = fl_completed_entries L"
  shows "accounts m syms xs L' (us @ with_remaining (oo_remaining w - q) w # vs) cs"
proof -
  note d = accountsD [OF a]
  have "books m syms xs pm' (us @ with_remaining (oo_remaining w - q) w # vs)"
    by (rule books_fill [OF d(1,2) _ _ run]) (use q in simp_all)
  moreover have "tabled (upsertFilledQty (oo_id w) (oo_total w - (oo_remaining w - q)) L) (us @ with_remaining (oo_remaining w - q) w # vs) cs"
    by (rule tabled_upsert [OF d(5)]) (use d(3,4) in \<open>auto simp: good_open_def\<close>)
  then have "tabled L' (us @ with_remaining (oo_remaining w - q) w # vs) cs"
    by (rule tabled_as) (use L'(2,3) in simp_all)
  ultimately show ?thesis using d(3,4) q L'(1) by (auto simp: accounts_def good_open_def)
qed

lemma accounts_filled:
  assumes a: "accounts m syms xs L (us @ w # vs) cs"
    and run: "onFill \<lparr>fill_symbol = oo_symbol w, fill_executionId = 0, fill_orderId = 0, fill_side = Buy, fill_quantity = oo_remaining w, fill_price = p\<rparr> (fl_pm L) = Some pm'"
    and L': "fl_pm L' = pm'" "length (us @ w # vs) + length cs \<le> kMaxTrackedOrders \<Longrightarrow>
      fl_filled_entries L' = fl_filled_entries (upsertFilledQty (oo_id w) (oo_total w) L)"
      "fl_completed_entries L' = fl_completed_entries (markCompleted (oo_id w) L)"
  shows "accounts m syms xs L' (us @ vs) (oo_id w # cs)"
proof -
  note d = accountsD [OF a]
  have "books m syms xs pm' (us @ with_remaining (oo_remaining w - oo_remaining w) w # vs)"
    by (rule books_fill [OF d(1,2) _ _ run]) (use d(2) in simp_all)
  then have b: "books m syms xs pm' (us @ vs)" by (simp add: books_drop)
  let ?U = "upsertFilledQty (oo_id w) (oo_total w - 0) L"
  have "tabled ?U (us @ with_remaining 0 w # vs) cs" by (rule tabled_upsert [OF d(5)]) (use d(3,4) in \<open>auto simp: good_open_def\<close>)
  then have "tabled (markCompleted (oo_id w) ?U) (us @ vs) (oo_id w # cs)"
    using tabled_close [of ?U us "with_remaining 0 w" vs cs] d(3,4) by (auto simp: good_open_def)
  then have "tabled L' (us @ vs) (oo_id w # cs)" by (rule tabled_as) (use L'(2,3) in simp_all)
  then show ?thesis using b d(3,4) L'(1) by (auto simp: accounts_def)
qed

text \<open>A cancellation of what remains of it.\<close>

lemma accounts_cancel:
  assumes a: "accounts m syms xs L (us @ w # vs) cs"
    and run: "onOrderCancelled (zero_Order\<lparr>ord_symbol := oo_symbol w, ord_quantity := oo_remaining w, ord_side := Buy\<rparr>) (fl_pm L) = Some pm'"
    and L': "fl_pm L' = pm'" "fl_filled_entries L' = fl_filled_entries L" "fl_completed_entries L' = fl_completed_entries (markCompleted (oo_id w) L)"
  shows "accounts m syms xs L' (us @ vs) (oo_id w # cs)"
proof -
  note d = accountsD [OF a]
  have b: "books m syms xs pm' (us @ vs)"
    by (rule books_cancel [OF d(1,2) _ _ _ run]) simp_all
  have "tabled (markCompleted (oo_id w) L) (us @ vs) (oo_id w # cs)"
    by (rule tabled_close [OF d(5)]) (use d(3,4) in \<open>auto simp: good_open_def\<close>)
  then have "tabled L' (us @ vs) (oo_id w # cs)" using tabled_cong [of L' "markCompleted (oo_id w) L"] L'(2,3) by simp
  then show ?thesis using b d(3,4) L'(1) by (auto simp: accounts_def)
qed

section \<open>Reconciliation\<close>

text \<open>A record of the broker's order list that is true of an open order: it has at least the fills that were reported, and its status
  is \<open>filled\<close> exactly when all of it is.\<close>

definition record_of :: "AlpacaOrderStatus \<Rightarrow> open_order \<Rightarrow> bool" where
  "record_of ao w \<longleftrightarrow> os_id ao = oo_id w \<and> copySymbol (os_symbol ao) = oo_symbol w \<and> os_side ao = ''buy'' \<and> os_qty ao = oo_total w \<and>
     oo_total w - oo_remaining w \<le> os_filled_qty ao \<and> os_filled_qty ao \<le> oo_total w \<and> (os_status ao = ''filled'' \<longleftrightarrow> os_filled_qty ao = oo_total w)"

text \<open>A list of records the broker may answer with: records of open orders and of closed ones, one order
  always with the same record.\<close>

definition truthful :: "AlpacaOrderStatus list \<Rightarrow> open_order list \<Rightarrow> string list \<Rightarrow> bool" where
  "truthful aos ws cs \<longleftrightarrow> (\<forall>ao \<in> set aos. os_id ao = [] \<or> os_id ao \<in> set cs \<or> (\<exists>w \<in> set ws. record_of ao w)) \<and>
     (\<forall>ao \<in> set aos. \<forall>bo \<in> set aos. os_id ao = os_id bo \<longrightarrow> ao = bo)"

definition record_open :: "AlpacaOrderStatus \<Rightarrow> open_order \<Rightarrow> open_order list" where
  "record_open ao w =
     (if os_id ao \<noteq> oo_id w then [w]
      else if is_cancel_status (os_status ao) then []
      else if is_fill_status (os_status ao)
      then (if os_filled_qty ao = oo_total w then [] else [with_remaining (oo_total w - os_filled_qty ao) w])
      else [w])"

definition after_record :: "AlpacaOrderStatus \<Rightarrow> open_order list \<times> string list \<Rightarrow> open_order list \<times> string list" where
  "after_record ao s = (case s of (ws, cs) \<Rightarrow> (concat (map (record_open ao) ws), map oo_id (filter (\<lambda>w. record_open ao w = []) ws) @ cs))"

lemma after_record_other:
  assumes "\<forall>w \<in> set ws. oo_id w \<noteq> os_id ao"
  shows "after_record ao (ws, cs) = (ws, cs)"
proof -
  have "concat (map (record_open ao) ws) = ws" using assms by (induction ws) (auto simp: record_open_def)
  moreover have "filter (\<lambda>w. record_open ao w = []) ws = []" using assms by (auto simp: record_open_def filter_empty_conv)
  ultimately show ?thesis by (simp add: after_record_def)
qed

lemma after_record_split:
  assumes "distinct (map oo_id (us @ w # vs))" and "os_id ao = oo_id w"
  shows "after_record ao (us @ w # vs, cs) = (us @ record_open ao w @ vs, (if record_open ao w = [] then [oo_id w] else []) @ cs)"
proof -
  have "\<forall>v \<in> set us \<union> set vs. oo_id v \<noteq> os_id ao" using assms by (auto simp: image_iff)
  then have "after_record ao (us, []) = (us, [])" "after_record ao (vs, []) = (vs, [])" by (auto intro!: after_record_other)
  then show ?thesis by (auto simp: after_record_def)
qed

lemma reconcileFill_accounts:
  assumes a: "accounts m syms xs L (us @ w # vs) cs" and n: "length (us @ w # vs) + length cs \<le> kMaxTrackedOrders"
    and r: "record_of ao w" "is_fill_status (os_status ao)" and run: "reconcileFill M ao Buy L = Some (c, L')"
  shows "accounts m syms xs L' (us @ record_open ao w @ vs) ((if record_open ao w = [] then [oo_id w] else []) @ cs)"
proof -
  let ?F = "os_filled_qty ao"
  have i: "os_id ao = oo_id w" "copySymbol (os_symbol ao) = oo_symbol w" using r(1) by (simp_all add: record_of_def)
  have w: "0 < oo_remaining w" "good_id (oo_id w)" using accountsD(3) [OF a] by (simp_all add: good_open_def)
  have f: "findFilledQty (oo_id w) L = oo_total w - oo_remaining w" using accountsD(5) [OF a] n by (simp add: tabled_def)
  have nc: "\<not> is_cancel_status (os_status ao)" using status_disjoint [OF r(2)] .
  show ?thesis
  proof (cases "?F = oo_total w - oo_remaining w")
    case True
    then have "L' = L" using reconcileFill_SomeD [OF run] f i by auto
    moreover have "record_open ao w = [w]" using True i r(2) nc w(1) by (simp add: record_open_def)
    ultimately show ?thesis using a by simp
  next
    case False
    then have F: "oo_total w - oo_remaining w < ?F" using r(1) by (simp add: record_of_def)
    define q where "q = ?F - (oo_total w - oo_remaining w)"
    obtain L0 where L0: "book_fill (oo_symbol w) Buy q (os_filled_avg_price ao) L = Some L0"
      and L': "L' = (if os_status ao = ''filled''
        then complete_in_tracker M (oo_symbol w) Buy (oo_id w) (markCompleted (oo_id w) (upsertFilledQty (oo_id w) ?F L0))
        else upsertFilledQty (oo_id w) ?F L0)"
      using reconcileFill_SomeD [OF run] F f i by (auto simp: q_def)
    obtain pm where pm: "L0 = L\<lparr>fl_pm := pm\<rparr>" "onFill \<lparr>fill_symbol = oo_symbol w, fill_executionId = 0, fill_orderId = 0, fill_side = Buy,
        fill_quantity = q, fill_price = os_filled_avg_price ao\<rparr> (fl_pm L) = Some pm" using book_frame(1) [OF L0] by blast
    have u: "fl_filled_entries (upsertFilledQty (oo_id w) z L0) = fl_filled_entries (upsertFilledQty (oo_id w) z L)" for z
      by (simp add: pm(1) upsertFilledQty_def Let_def split: option.splits)
    have k: "fl_completed_entries (markCompleted (oo_id w) L0) = fl_completed_entries (markCompleted (oo_id w) L)"
      by (simp add: pm(1) markCompleted_def isCompleted_def Let_def)
    show ?thesis
    proof (cases "?F = oo_total w")
      case True
      then have ro: "record_open ao w = []" "q = oo_remaining w" "os_status ao = ''filled''"
        using i r nc by (simp_all add: record_open_def q_def record_of_def)
      have "accounts m syms xs L' (us @ vs) (oo_id w # cs)"
        by (rule accounts_filled [OF a pm(2) [unfolded ro(2)]]) (simp_all add: L' ro(3) u k True, simp add: pm(1))
      then show ?thesis by (simp add: ro(1))
    next
      case False
      then have ro: "record_open ao w = [with_remaining (oo_remaining w - q) w]" "os_status ao \<noteq> ''filled''" "q < oo_remaining w"
        using i r nc by (simp_all add: record_open_def q_def record_of_def)
      have t: "oo_total w - (oo_remaining w - q) = ?F" by (simp add: q_def)
      have "accounts m syms xs L' (us @ with_remaining (oo_remaining w - q) w # vs) cs"
        by (rule accounts_fill [OF a _ ro(3) pm(2)]) (use F in \<open>simp_all add: L' ro(2) u t q_def\<close>, simp_all add: pm(1))
      then show ?thesis by (simp add: ro(1))
    qed
  qed
qed

lemma reconcileCancel_accounts:
  assumes a: "accounts m syms xs L (us @ w # vs) cs" and n: "length (us @ w # vs) + length cs \<le> kMaxTrackedOrders"
    and r: "record_of ao w" "is_cancel_status (os_status ao)" and run: "reconcileCancel M ao Buy L = Some (c, L')"
  shows "accounts m syms xs L' (us @ vs) (oo_id w # cs)"
proof -
  let ?F = "os_filled_qty ao" and ?w = "with_remaining (oo_total w - os_filled_qty ao) w"
  have i: "os_id ao = oo_id w" "copySymbol (os_symbol ao) = oo_symbol w" "os_qty ao = oo_total w" using r(1) by (simp_all add: record_of_def)
  have f: "findFilledQty (oo_id w) L = oo_total w - oo_remaining w" using accountsD(5) [OF a] n by (simp add: tabled_def)
  have "os_status ao \<noteq> ''filled''" using r(2) by (auto simp: is_cancel_status_def)
  then have F: "oo_total w - oo_remaining w \<le> ?F" "?F < oo_total w" using r(1) by (auto simp: record_of_def)
  obtain L1 L2 where L1: "if oo_total w - oo_remaining w < ?F
      then \<exists>L0. book_fill (oo_symbol w) Buy (?F - (oo_total w - oo_remaining w)) (os_filled_avg_price ao) L = Some L0 \<and> L1 = upsertFilledQty (oo_id w) ?F L0
      else L1 = L"
    and L2: "book_cancel (oo_symbol w) Buy (oo_total w - ?F) L1 = Some L2"
    and L': "L' = complete_in_tracker M (oo_symbol w) Buy (oo_id w) (markCompleted (oo_id w) L2)"
    using reconcileCancel_SomeD [OF run, unfolded i f] F by auto
  have one: "accounts m syms xs L1 (us @ ?w # vs) cs"
  proof (cases "oo_total w - oo_remaining w < ?F")
    case False
    then have "?w = w" "L1 = L" using F L1 by simp_all
    then show ?thesis using a by simp
  next
    case True
    define q where "q = ?F - (oo_total w - oo_remaining w)"
    have t: "oo_remaining w - q = oo_total w - ?F" "oo_total w - (oo_remaining w - q) = ?F" by (simp_all add: q_def)
    obtain L0 where L0: "book_fill (oo_symbol w) Buy q (os_filled_avg_price ao) L = Some L0" "L1 = upsertFilledQty (oo_id w) ?F L0"
      using L1 True by (auto simp: q_def)
    obtain pm where pm: "L0 = L\<lparr>fl_pm := pm\<rparr>" "onFill \<lparr>fill_symbol = oo_symbol w, fill_executionId = 0, fill_orderId = 0, fill_side = Buy,
        fill_quantity = q, fill_price = os_filled_avg_price ao\<rparr> (fl_pm L) = Some pm" using book_frame(1) [OF L0(1)] by blast
    have u: "fl_filled_entries (upsertFilledQty (oo_id w) z L0) = fl_filled_entries (upsertFilledQty (oo_id w) z L)" for z
      by (simp add: pm(1) upsertFilledQty_def Let_def split: option.splits)
    have "accounts m syms xs L1 (us @ with_remaining (oo_remaining w - q) w # vs) cs"
      by (rule accounts_fill [OF a _ _ pm(2)]) (use True F in \<open>simp_all add: L0(2) u t q_def\<close>, simp_all add: pm(1))
    then show ?thesis by (simp add: t)
  qed
  obtain pm where pm: "L2 = L1\<lparr>fl_pm := pm\<rparr>"
    "onOrderCancelled (zero_Order\<lparr>ord_symbol := oo_symbol w, ord_quantity := oo_total w - ?F, ord_side := Buy\<rparr>) (fl_pm L1) = Some pm"
    using book_frame(2) [OF L2] by blast
  have k: "fl_completed_entries (markCompleted (oo_id w) L2) = fl_completed_entries (markCompleted (oo_id w) L1)"
    by (simp add: pm(1) markCompleted_def isCompleted_def Let_def)
  have "accounts m syms xs L' (us @ vs) (oo_id ?w # cs)"
    by (rule accounts_cancel [OF one]) (use pm(2) in \<open>simp_all add: L' k\<close>, simp_all add: pm(1))
  then show ?thesis by simp
qed

text \<open>One record, then a list of them.\<close>

lemma reconcile_accounts:
  assumes a: "accounts m syms xs L ws cs" and n: "length ws + length cs \<le> kMaxTrackedOrders"
    and ao: "os_id ao = [] \<or> os_id ao \<in> set cs \<or> (\<exists>w \<in> set ws. record_of ao w)" and run: "reconcile_order M ao L = Some L'"
  shows "case after_record ao (ws, cs) of (ws', cs') \<Rightarrow> accounts m syms xs L' ws' cs'"
proof (cases "\<exists>w \<in> set ws. record_of ao w")
  case False
  then have "os_id ao = [] \<or> isCompleted (os_id ao) L" using ao accountsD(5) [OF a] n by (auto simp: tabled_def isCompleted_ids)
  then have "L' = L" using run by (auto simp: reconcile_order_def)
  moreover have "\<forall>w \<in> set ws. oo_id w \<noteq> os_id ao" using ao False accountsD(3,4) [OF a] by (auto simp: good_open_def)
  ultimately show ?thesis using a after_record_other [of ws ao cs] by simp
next
  case True
  then obtain us w vs where w: "ws = us @ w # vs" "record_of ao w" by (metis split_list)
  have i: "os_id ao = oo_id w" and side: "parseSide (os_side ao) = Some Buy" using w(2) by (simp_all add: record_of_def parseSide_def)
  have d: "distinct (map oo_id (us @ w # vs))" "oo_id w \<notin> set cs" "oo_id w \<noteq> []" using accountsD(3,4) [OF a] w(1) by (auto simp: good_open_def)
  have nc: "\<not> isCompleted (oo_id w) L" using accountsD(5) [OF a] n d(2) by (simp add: tabled_def isCompleted_ids)
  note split = after_record_split [OF d(1) i, of cs]
  consider (fill) "is_fill_status (os_status ao)" | (cancel) "is_cancel_status (os_status ao)"
    | (other) "\<not> is_fill_status (os_status ao)" "\<not> is_cancel_status (os_status ao)" by blast
  then show ?thesis
  proof cases
    case fill
    then obtain c where "reconcileFill M ao Buy L = Some (c, L')" using run side nc d(3) i by (auto simp: reconcile_order_def)
    from reconcileFill_accounts [OF a [unfolded w(1)] n [unfolded w(1)] w(2) fill this] show ?thesis by (simp add: w(1) split)
  next
    case cancel
    then have "\<not> is_fill_status (os_status ao)" using status_disjoint by blast
    then obtain c where "reconcileCancel M ao Buy L = Some (c, L')" using run side nc d(3) i cancel by (auto simp: reconcile_order_def)
    from reconcileCancel_accounts [OF a [unfolded w(1)] n [unfolded w(1)] w(2) cancel this] show ?thesis
      using cancel i by (simp add: w(1) split record_open_def)
  next
    case other
    then have "L' = L" using run side nc d(3) i by (auto simp: reconcile_order_def)
    then show ?thesis using a other i by (simp add: w(1) split record_open_def)
  qed
qed

lemma after_record_count:
  assumes "after_record ao (ws, cs) = (ws', cs')"
  shows "length ws' + length cs' = length ws + length cs"
proof -
  have one: "length (record_open ao w) = (if record_open ao w = [] then 0 else 1)" for w by (simp add: record_open_def)
  have "length (concat (map (record_open ao) ws)) + length (filter (\<lambda>w. record_open ao w = []) ws) = length ws"
    by (induction ws) (simp_all add: one)
  then show ?thesis using assms by (auto simp: after_record_def)
qed

lemma truthful_after:
  assumes t: "truthful (ao # aos) ws cs" and s: "after_record ao (ws, cs) = (ws', cs')"
  shows "truthful aos ws' cs'"
proof -
  have ws': "set ws' = (\<Union>w \<in> set ws. set (record_open ao w))" and cs': "set cs' = oo_id ` {w \<in> set ws. record_open ao w = []} \<union> set cs"
    using s by (auto simp: after_record_def)
  have "os_id bo = [] \<or> os_id bo \<in> set cs' \<or> (\<exists>v \<in> set ws'. record_of bo v)" if "bo \<in> set aos" for bo
  proof -
    have same: "os_id ao = os_id bo \<Longrightarrow> bo = ao" using t that by (auto simp: truthful_def)
    consider "os_id bo = []" | "os_id bo \<in> set cs" | w where "w \<in> set ws" "record_of bo w" using t \<open>bo \<in> set aos\<close> by (auto simp: truthful_def)
    then show ?thesis
    proof cases
      case 3
      have "oo_id w \<in> set cs'" if "record_open ao w = []" using that 3(1) by (auto simp: cs')
      moreover have "\<exists>v \<in> set ws'. record_of bo v" if ne: "record_open ao w \<noteq> []"
      proof -
        obtain v where v: "record_open ao w = [v]" using ne by (auto simp: record_open_def split: if_splits)
        have "record_of bo v" using v 3(2) same by (auto simp: record_open_def record_of_def split: if_splits)
        moreover have "v \<in> set ws'" unfolding ws' using v 3(1) by force
        ultimately show ?thesis by blast
      qed
      ultimately show ?thesis using 3(2) by (auto simp: record_of_def)
    qed (auto simp: cs')
  qed
  then show ?thesis using t by (auto simp: truthful_def)
qed

lemma records_accounts:
  assumes "run_list (reconcile_order M) aos L = Some L'" and "accounts m syms xs L ws cs" and "length ws + length cs \<le> kMaxTrackedOrders"
    and "truthful aos ws cs"
  shows "case fold after_record aos (ws, cs) of (ws', cs') \<Rightarrow> accounts m syms xs L' ws' cs'"
  using assms
proof (induction aos arbitrary: L ws cs)
  case (Cons ao aos)
  obtain L1 where L1: "reconcile_order M ao L = Some L1" "run_list (reconcile_order M) aos L1 = Some L'"
    using Cons.prems(1) by (auto split: option.splits)
  obtain ws1 cs1 where s: "after_record ao (ws, cs) = (ws1, cs1)" by fastforce
  have "accounts m syms xs L1 ws1 cs1"
    using reconcile_accounts [OF Cons.prems(2,3) _ L1(1)] Cons.prems(4) s by (simp add: truthful_def)
  from Cons.IH [OF L1(2) this _ truthful_after [OF Cons.prems(4) s]] after_record_count [OF s] Cons.prems(3) show ?case by (simp add: s)
qed simp

text \<open>The records the pages of one reconciliation bring.\<close>

fun listed :: "nat \<Rightarrow> 'r IRestClient \<Rightarrow> string \<Rightarrow> 'r \<Rightarrow> AlpacaOrderStatus list" where
  "listed 0 R cursor client = []"
| "listed (Suc pages) R cursor client =
     (case rest_queryOrders R ''all'' cursor client of
        (Returned (Inr page), client) \<Rightarrow>
          page @ (if length page < kPageSize \<or> page = [] \<or> os_created_at (last page) = [] then []
                  else listed pages R (os_created_at (last page)) client)
      | _ \<Rightarrow> [])"

lemma reconcile_pages_listed:
  "reconcile_pages n R M cursor client L = Some (threw, client', L') \<Longrightarrow> run_list (reconcile_order M) (listed n R cursor client) L = Some L'"
proof (induction n arbitrary: cursor client L)
  case (Suc n)
  obtain r c where rc: "rest_queryOrders R ''all'' cursor client = (r, c)" by fastforce
  consider "r = Threw" | e where "r = Returned (Inl e)" | page where "r = Returned (Inr page)" by (metis outcome.exhaust sum.exhaust)
  then show ?case
  proof cases
    case 3
    then obtain L1 where L1: "reconcile_page M page L = Some L1" using Suc.prems rc by (auto simp: bind_eq_Some_conv)
    then have r1: "run_list (reconcile_order M) page L = Some L1" by (simp add: reconcile_page_def)
    show ?thesis
    proof (cases "length page < kPageSize \<or> page = [] \<or> os_created_at (last page) = []")
      case True
      then have "L' = L1" using Suc.prems rc 3 L1 by (auto simp: Let_def split: if_splits)
      then show ?thesis using True rc 3 r1 by auto
    next
      case False
      then have "reconcile_pages n R M (os_created_at (last page)) c L1 = Some (threw, client', L')"
        using Suc.prems rc 3 L1 by (simp add: Let_def)
      from Suc.IH [OF this] show ?thesis using False rc 3 r1 by (simp add: run_list_append)
    qed
  qed (use Suc.prems rc in auto)
qed simp

end
