(* ===== verification/Position_Limit.thy ===== *)
theory Position_Limit
  imports Broker_Orders Engine_Shutdown
begin

text \<open>
  The position limit of the engine in a closed loop with the broker, an operation of a component at a time. The threads of \<open>Trading_Engine\<close> are run beside
  the orders of \<open>Broker_Orders\<close>: an acknowledged order becomes open, a fill message the engine reads takes its
  quantity off the order it names, a cancellation closes the order, and a reconciliation after a reconnect makes up
  for the messages that were lost. What is proved is the reason the risk check exists: shares held plus
  shares reserved never exceed \<open>max_position_per_symbol\<close>, and the reserved quantity is exactly what is queued or not yet
  reported. Outside the loop are a fill between the two loads of a risk check and a fill that is delivered after
  a reconciliation has counted it; \<open>Position_Threads\<close> and \<open>Fill_Reconciliation\<close> have their effects.
\<close>

section \<open>The engine and the broker\<close>

text \<open>The broker's id of an order the gateway handles, \<^const>\<open>None\<close> when it is not placed: \<^const>\<open>placed\<close> on the state in which
  \<^const>\<open>handle_order\<close> executes it.\<close>

definition submitted :: "('r, 'm, 'h) gateway_env \<Rightarrow> u64 \<times> u64 \<Rightarrow> Order \<Rightarrow> ('r, 'm, 'h) Gateway \<Rightarrow> string option" where
  "submitted E stamps ord gw =
     (let n = gw_order_id_counter gw + 1;
          gw = gw\<lparr>gw_order_id_counter := n\<rparr>;
          ord = ord\<lparr>ord_id := n\<rparr>;
          gw = gw\<lparr>gw_latency := map_option (\<lambda>lt.
                 lt_record (env_hdr E) EndToEnd (fst stamps - ord_arrivedAt ord)
                   (lt_record (env_hdr E) MpscQueue (fst stamps - ord_queuedAt ord) lt)) (gw_latency gw)\<rparr>
      in placed E ord gw)"

abbreviation gateway_env_of :: "('r, 'm, 'h, 'z, 'j) engine_env \<Rightarrow> ('r, 'm, 'h) gateway_env" where
  "gateway_env_of X \<equiv> \<lparr>env_rest = ee_rest X, env_slots = ee_slots X, env_hdr = ee_hdr X\<rparr>"

definition opened :: "('r, 'm, 'h, 'z, 'j) engine_env \<Rightarrow> u64 \<times> u64 \<Rightarrow> ('r, 'm, 'h, 'z) TradingEngine \<Rightarrow> open_order list" where
  "opened X stamps E =
     (case wait_and_pop_turn (Some (te_is_running E)) (te_queue E) of
        Some (Popped ord, q) \<Rightarrow>
          (case submitted (gateway_env_of X) stamps ord (gateway_of E) of
             Some i \<Rightarrow> [\<lparr>oo_symbol = ord_symbol ord, oo_id = i, oo_total = ord_quantity ord, oo_remaining = ord_quantity ord\<rparr>]
           | None \<Rightarrow> [])
      | _ \<Rightarrow> [])"

text \<open>What a message of the trade stream reports, and whether it makes the listener reconcile.\<close>

definition is_stream :: "'j json_api \<Rightarrow> 'j \<Rightarrow> string \<Rightarrow> bool" where
  "is_stream J parsed name \<longleftrightarrow> js_contains J parsed ''stream'' \<and> js_equals J (js_at J parsed ''stream'') name"

definition message_update :: "'j json_api \<Rightarrow> ws_message \<Rightarrow> TradeUpdate option" where
  "message_update J msg =
     (case msg of
        Message json \<Rightarrow>
          (case js_parse_or_throw J json of
             None \<Rightarrow> Some Monostate
           | Some parsed \<Rightarrow> if is_stream J parsed ''authorization'' \<or> is_stream J parsed ''listening'' then Some Monostate
                          else parseTradingUpdate J parsed)
      | _ \<Rightarrow> Some Monostate)"

definition reconciles :: "'j json_api \<Rightarrow> ws_message \<Rightarrow> ('r, 'm, 'h) FillListener \<Rightarrow> bool" where
  "reconciles J msg L \<longleftrightarrow> fl_has_connected L \<and> fl_client L \<noteq> None \<and>
     (\<exists>json parsed. msg = Message json \<and> js_parse_or_throw J json = Some parsed \<and> is_stream J parsed ''authorization'' \<and>
        js_contains J parsed ''data'' \<and> js_contains J (js_at J parsed ''data'') ''status'' \<and>
        js_equals J (js_at J (js_at J parsed ''data'') ''status'') ''authorized'')"

text \<open>A report on an open order: the broker fills no more than is left of it, calls the last fill \<open>fill\<close> and the others
  \<open>partial_fill\<close>, and cancels all that is left.\<close>

definition fill_of :: "FillEvent \<Rightarrow> open_order \<Rightarrow> bool" where
  "fill_of fe w \<longleftrightarrow> fe_symbol fe = oo_symbol w \<and> buf_view (fe_alpaca_order_id fe) = oo_id w \<and> fe_side fe = Buy \<and> 0 < fe_quantity fe \<and>
     (if fe_is_partial fe then fe_quantity fe < oo_remaining w else fe_quantity fe = oo_remaining w)"

definition cancel_of :: "CancelEvent \<Rightarrow> open_order \<Rightarrow> bool" where
  "cancel_of ce w \<longleftrightarrow> ce_symbol ce = oo_symbol w \<and> buf_view (ce_alpaca_order_id ce) = oo_id w \<and> ce_side ce = Buy \<and>
     ce_quantity ce = oo_remaining w"

text \<open>The broker gives every order an id of its own.\<close>

definition fresh_ids :: "open_order list \<Rightarrow> open_order list \<Rightarrow> string list \<Rightarrow> bool" where
  "fresh_ids new ws cs \<longleftrightarrow> (\<forall>w \<in> set new. good_id (oo_id w) \<and> oo_id w \<noteq> [] \<and> oo_id w \<notin> set (map oo_id ws @ cs))"

text \<open>The engine, its open orders and the ids of its closed orders. Every step of the engine is one of \<^const>\<open>engine_exec\<close>, a
  consumer's turn may end after the flag was cleared (\<^const>\<open>turn_exec\<close>). A stopped engine does not read messages. A
  fill or cancellation on the stream is news of an open order, and counts against what the engine has not heard of it. A
  reconciliation finds records that are true of the orders (\<^const>\<open>truthful\<close>), and no more orders than the tables hold.\<close>

inductive trades :: "('r, 'm, 'h, 'z, 'j) engine_env \<Rightarrow> ('r, 'm, 'h, 'z) TradingEngine \<Rightarrow> ('r, 'm, 'h, 'z) TradingEngine \<Rightarrow>
    open_order list \<Rightarrow> string list \<Rightarrow> bool"
  for X :: "('r, 'm, 'h, 'z, 'j) engine_env" and E0 :: "('r, 'm, 'h, 'z) TradingEngine"
where
  first: "trades X E0 E0 [] []"
| consumer: "trades X E0 E ws cs \<Longrightarrow> good_action (ConsumerTurn i tu) \<Longrightarrow> turn_exec X (ConsumerTurn i tu) E = Some E' \<Longrightarrow> trades X E0 E' ws cs"
| gateway: "trades X E0 E ws cs \<Longrightarrow> fresh_ids (opened X stamps E) ws cs \<Longrightarrow> engine_exec X (GatewayTurn stamps) E = Some E' \<Longrightarrow>
    trades X E0 E' (ws @ opened X stamps E) cs"
| partial: "trades X E0 E (us @ w # vs) cs \<Longrightarrow> te_is_running E \<Longrightarrow> message_update (ee_json X) msg = Some (FillUpdate fe) \<Longrightarrow> fill_of fe w \<Longrightarrow>
    fe_is_partial fe \<Longrightarrow> engine_exec X (FillMessage now now_iso msg) E = Some E' \<Longrightarrow>
    trades X E0 E' (us @ with_remaining (oo_remaining w - fe_quantity fe) w # vs) cs"
| filled: "trades X E0 E (us @ w # vs) cs \<Longrightarrow> te_is_running E \<Longrightarrow> message_update (ee_json X) msg = Some (FillUpdate fe) \<Longrightarrow> fill_of fe w \<Longrightarrow>
    \<not> fe_is_partial fe \<Longrightarrow> engine_exec X (FillMessage now now_iso msg) E = Some E' \<Longrightarrow> trades X E0 E' (us @ vs) (oo_id w # cs)"
| cancel: "trades X E0 E (us @ w # vs) cs \<Longrightarrow> te_is_running E \<Longrightarrow> message_update (ee_json X) msg = Some (CancelUpdate ce) \<Longrightarrow> cancel_of ce w \<Longrightarrow>
    engine_exec X (FillMessage now now_iso msg) E = Some E' \<Longrightarrow> trades X E0 E' (us @ vs) (oo_id w # cs)"
| reconnect: "trades X E0 E ws cs \<Longrightarrow> te_is_running E \<Longrightarrow> reconciles (ee_json X) msg (te_listener E) \<Longrightarrow> fl_client (te_listener E) = Some client \<Longrightarrow>
    aos = listed (ee_pages X) (ee_rest X) (fl_session_start_iso (te_listener E)) client \<Longrightarrow> truthful aos ws cs \<Longrightarrow>
    length ws + length cs \<le> kMaxTrackedOrders \<Longrightarrow> engine_exec X (FillMessage now now_iso msg) E = Some E' \<Longrightarrow>
    fold after_record aos (ws, cs) = (ws', cs') \<Longrightarrow> trades X E0 E' ws' cs'"
| quiet: "trades X E0 E ws cs \<Longrightarrow> \<not> te_is_running E \<or> message_update (ee_json X) msg = Some Monostate \<and> \<not> reconciles (ee_json X) msg (te_listener E) \<Longrightarrow>
    engine_exec X (FillMessage now now_iso msg) E = Some E' \<Longrightarrow> trades X E0 E' ws cs"
| market: "trades X E0 E ws cs \<Longrightarrow> engine_exec X (MarketMessage now msg) E = Some E' \<Longrightarrow> trades X E0 E' ws cs"
| signal: "trades X E0 E ws cs \<Longrightarrow> engine_exec X Signal E = Some E' \<Longrightarrow> trades X E0 E' ws cs"

section \<open>The steps\<close>

lemma handle_order_submitted:
  assumes "handle_order X stamps ord gw = Some gw'"
  shows "case submitted X stamps ord gw of
      None \<Rightarrow> onOrderCancelled ord (gw_pm gw) = Some (gw_pm gw')
    | Some i \<Rightarrow> gw_pm gw' = gw_pm gw \<and>
        gw_tracker gw' = map_option (recordOrder (env_slots X) \<lparr>sk_value = ord_symbol ord\<rparr> (ord_side ord) i) (gw_tracker gw)"
proof -
  obtain g n where g: "executeOrder X (snd stamps) (ord\<lparr>ord_id := n\<rparr>) g = Some gw'" "gw_pm g = gw_pm gw" "gw_tracker g = gw_tracker gw"
    "submitted X stamps ord gw = placed X (ord\<lparr>ord_id := n\<rparr>) g"
    using assms by (cases stamps) (auto simp: handle_order_def submitted_def Let_def)
  show ?thesis
  proof (cases "placed X (ord\<lparr>ord_id := n\<rparr>) g")
    case None
    obtain rest where "executeOrder X (snd stamps) (ord\<lparr>ord_id := n\<rparr>) g =
        map_option (\<lambda>pm. g\<lparr>gw_rest := rest, gw_pm := pm\<rparr>) (onOrderCancelled (ord\<lparr>ord_id := n\<rparr>) (gw_pm g))"
      using executeOrder_not_placed [OF None] by blast
    then show ?thesis using g None by (cases "onOrderCancelled ord (gw_pm gw)") auto
  next
    case (Some i)
    then show ?thesis using executeOrder_placed [OF Some, of "snd stamps"] g by auto
  qed
qed

lemma submitted_handled: "submitted X stamps ord gw = Some i \<Longrightarrow> \<exists>gw'. handle_order X stamps ord gw = Some gw'"
  by (cases stamps) (auto simp: submitted_def handle_order_def Let_def dest: executeOrder_placed)

text \<open>A turn of a consumer either leaves positions and queue alone, or reserves and queues one approved buy order.\<close>

lemma consumer_exec_cases:
  assumes run: "engine_exec X (ConsumerTurn i tu) E = Some E'" and inv: "engine_inv E" and q: "queue_rep (te_queue E) xs"
    and good: "\<forall>e. event_in tu = Some e \<longrightarrow> good_symbol (ev_symbol e)"
  obtains (idle) "te_pm E' = te_pm E" and "queue_rep (te_queue E') xs"
    | (sent) ord where "good_queued ord" and "ord_quantity ord = sm_order_quantity (te_strategies E ! i)"
      and "onOrderSent ord (te_pm E) = Some (te_pm E')" and "queue_rep (te_queue E') (xs @ [ord])"
      and "exposure (te_pm E) (ord_key ord) + ord_quantity ord \<le> rm_max_position_per_symbol (te_risk E)"
proof -
  obtain C where C: "consumer_turn onMarketEvent (OrderQueuePusher (ee_alloc X)) (ee_hdr X) tu (consumer_of i E) = Some C"
    and i: "i < length (te_strategies E)" and E': "E' = put_consumer i C E" using run by (auto split: if_splits)
  have pm: "te_pm E' = the (snd (mc_objects C))" "te_queue E' = mc_orders C" by (simp_all add: E' put_consumer_def)
  have st: "strategy_ok (te_strategies E ! i)" using inv i by (simp add: engine_inv_def)
  have risk: "risk_inv (te_risk E, Some (te_cooldown E), te_pm E)" using inv by (simp add: engine_inv_def risk_inv_def)
  note c = consumer_of_def
  show thesis
  proof (cases "event_in tu")
    case None
    then have "C = consumer_of i E" using C by (simp add: consumer_turn_event)
    then show thesis using q pm by (intro idle) (simp_all add: c)
  next
    case (Some e)
    then have ev: "consume_event onMarketEvent (OrderQueuePusher (ee_alloc X)) (ee_hdr X) (tu_clock tu) e (consumer_of i E) = Some C"
      using C by (simp add: consumer_turn_event)
    have e: "good_symbol (ev_symbol e)" using good Some by blast
    have o: "good_request (tc_risk (tu_clock tu), ord) \<and> ord_symbol ord = ev_symbol e \<and> ord_side ord = Buy \<and>
        ord_quantity ord = sm_order_quantity (te_strategies E ! i)"
      if "fst (onMarketEvent e (te_strategies E ! i)) = Some ord" for ord
      using smm.on_event_order [OF st that] e that
      by (auto simp: good_request_def good_symbol_def onMarketEvent_def Let_def split: if_splits)
    from ev show thesis
    proof (cases rule: consume_event_cases)
      case no_order
      then show thesis using q pm by (intro idle) (simp_all add: c)
    next
      case (rejected ord objs)
      then have "snd objs = Some (te_pm E)" using onNewOrder_cases [OF risk] o by (cases objs) (fastforce simp: c)
      then show thesis using rejected q pm by (intro idle) (simp_all add: c)
    next
      case (queued ord objs)
      let ?ord = "stamped ord e (tu_clock tu)"
      have ord: "fst (onMarketEvent e (te_strategies E ! i)) = Some ord" using queued(1) by (simp add: c)
      obtain cd p where objs: "objs = (cd, Some p)" "onOrderSent ord (te_pm E) = Some p"
        "exposure (te_pm E) (ord_key ord) + ord_quantity ord \<le> rm_max_position_per_symbol (te_risk E)"
        using onNewOrder_cases [OF risk conjunct1 [OF o [OF ord]]] queued(2) o [OF ord] by (cases objs) (fastforce simp: c)
      have "queue_rep (mc_orders C) (xs @ [?ord])" using OrderQueuePusher_rep [OF _ queued(4)] q by (simp add: c stamped_def)
      then show thesis using objs queued(3) o [OF ord] e pm
        by (intro sent [of ?ord]) (simp_all add: good_queued_def onOrderSent_stamped)
    qed
  qed
qed

lemma consumer_exec_strategies:
  assumes "engine_exec X (ConsumerTurn i tu) E = Some E'" and "\<forall>st \<in> set (te_strategies E). 0 < sm_order_quantity st"
  shows "i < length (te_strategies E)" and "\<forall>st \<in> set (te_strategies E'). 0 < sm_order_quantity st"
proof -
  obtain C where C: "consumer_turn onMarketEvent (OrderQueuePusher (ee_alloc X)) (ee_hdr X) tu (consumer_of i E) = Some C"
    and i: "i < length (te_strategies E)" and E': "E' = put_consumer i C E" using assms(1) by (auto split: if_splits)
  show "i < length (te_strategies E)" by (rule i)
  have "mc_strategy C = te_strategies E ! i \<or> (\<exists>e. mc_strategy C = snd (onMarketEvent e (te_strategies E ! i)))"
  proof (cases "event_in tu")
    case None
    then show ?thesis using C by (auto simp: consumer_turn_event consumer_of_def)
  next
    case (Some e)
    then have "consume_event onMarketEvent (OrderQueuePusher (ee_alloc X)) (ee_hdr X) (tu_clock tu) e (consumer_of i E) = Some C"
      using C by (simp add: consumer_turn_event)
    then show ?thesis by (cases rule: consume_event_cases) (auto simp: consumer_of_def)
  qed
  moreover have "sm_order_quantity (snd (onMarketEvent e st)) = sm_order_quantity st" for e st
    by (simp add: onMarketEvent_def Let_def)
  ultimately have "sm_order_quantity (mc_strategy C) = sm_order_quantity (te_strategies E ! i)" by auto
  then show "\<forall>st \<in> set (te_strategies E'). 0 < sm_order_quantity st"
    using assms(2) i set_update_subset_insert [of "te_strategies E" i "mc_strategy C"] by (auto simp: E' put_consumer_def)
qed

lemma handleTradeUpdate_streams:
  "handleTradeUpdate E json L =
     (case js_parse_or_throw (le_json E) json of
        None \<Rightarrow> Some (False, L)
      | Some parsed \<Rightarrow>
          if is_stream (le_json E) parsed ''authorization'' then handleAuthorization E parsed L
          else if is_stream (le_json E) parsed ''listening'' then Some (False, L)
          else do {
            update \<leftarrow> parseTradingUpdate (le_json E) parsed;
            (case update of
               FillUpdate fe \<Rightarrow> map_option (\<lambda>L. (False, L)) (processFillEvent (le_slots E) (le_hdr E) (le_now E) fe L)
             | CancelUpdate ce \<Rightarrow> map_option (\<lambda>L. (False, L)) (processCancelEvent (le_slots E) ce L)
             | Monostate \<Rightarrow> Some (False, L))
          })"
  unfolding handleTradeUpdate_def is_stream_def Let_def by (rule refl)

lemma processCancelEvent_pm:
  assumes "processCancelEvent M ce L = Some L'"
  shows "onOrderCancelled (zero_Order\<lparr>ord_symbol := ce_symbol ce, ord_quantity := ce_quantity ce, ord_side := ce_side ce\<rparr>) (fl_pm L) = Some (fl_pm L')"
  using assms by (auto simp: processCancelEvent_def book_cancel_def Let_def bind_eq_Some_conv)

text \<open>What a message does to the book and to the tables.\<close>

abbreviation same_account :: "('r, 'm, 'h) FillListener \<Rightarrow> ('r, 'm, 'h) FillListener \<Rightarrow> bool" where
  "same_account L L' \<equiv> fl_pm L' = fl_pm L \<and> fl_filled_entries L' = fl_filled_entries L \<and> fl_completed_entries L' = fl_completed_entries L"

lemma quiet_update:
  assumes h: "handleTradeUpdate E json L = Some (threw, L')" and p: "js_parse_or_throw (le_json E) json = Some parsed"
    and s: "is_stream (le_json E) parsed ''authorization'' \<or> is_stream (le_json E) parsed ''listening'' \<or> parseTradingUpdate (le_json E) parsed = Some Monostate"
    and r: "\<not> reconciles (le_json E) (Message json) L"
  shows "same_account L L'"
proof (cases "is_stream (le_json E) parsed ''authorization''")
  case True
  then have "handleAuthorization E parsed L = Some (threw, L')" using h p by (simp add: handleTradeUpdate_streams)
  then show ?thesis
    using r p True by (auto simp: reconciles_def handleAuthorization_def reconcileAfterReconnect_def Fill_Listener.sendSubscribe_def Let_def
        bind_eq_Some_conv split: if_splits option.splits)
next
  case False
  then show ?thesis using h p s by (auto simp: handleTradeUpdate_streams Let_def split: if_splits)
qed

lemma reconciling_update:
  assumes h: "handleTradeUpdate E json L = Some (threw, L')" and r: "reconciles (le_json E) (Message json) L" and c: "fl_client L = Some client"
  shows "\<exists>L1. run_list (reconcile_order (le_slots E)) (listed (le_pages E) (le_rest E) (fl_session_start_iso L) client) (Fill_Listener.sendSubscribe L) = Some L1 \<and> same_account L1 L'"
proof -
  let ?L = "Fill_Listener.sendSubscribe L"
  obtain parsed where "handleAuthorization E parsed L = Some (threw, L')" "fl_has_connected L" "js_contains (le_json E) parsed ''data'' \<and>
      js_contains (le_json E) (js_at (le_json E) parsed ''data'') ''status'' \<and> js_equals (le_json E) (js_at (le_json E) (js_at (le_json E) parsed ''data'') ''status'') ''authorized''"
    using h r by (auto simp: reconciles_def handleTradeUpdate_streams)
  then obtain t L1 where L1: "reconcileAfterReconnect (le_pages E) (le_rest E) (le_slots E) ?L = Some (t, L1)" "same_account L1 L'"
    by (auto simp: handleAuthorization_def Fill_Listener.sendSubscribe_def Let_def bind_eq_Some_conv)
  have "fl_client ?L = Some client" "fl_session_start_iso ?L = fl_session_start_iso L" using c by (simp_all add: Fill_Listener.sendSubscribe_def)
  then obtain c' L2 where "reconcile_pages (le_pages E) (le_rest E) (le_slots E) (fl_session_start_iso L) client ?L = Some (t, c', L2)" "L1 = L2\<lparr>fl_client := Some c'\<rparr>"
    using L1(1) by (auto simp: reconcileAfterReconnect_def bind_eq_Some_conv)
  then show ?thesis using reconcile_pages_listed L1(2) by (intro exI [of _ L2]) auto
qed

lemma reported_update:
  assumes "handleTradeUpdate E json L = Some (threw, L')" and "message_update (le_json E) (Message json) = Some u"
  shows "u = FillUpdate fe \<Longrightarrow> processFillEvent (le_slots E) (le_hdr E) (le_now E) fe L = Some L'"
    and "u = CancelUpdate ce \<Longrightarrow> processCancelEvent (le_slots E) ce L = Some L'"
  using assms by (auto simp: handleTradeUpdate_streams message_update_def split: option.splits if_splits)

section \<open>The ledger\<close>

definition ledger :: "('r, 'm, 'h, 'z) TradingEngine \<Rightarrow> Order list \<Rightarrow> open_order list \<Rightarrow> string list \<Rightarrow> bool" where
  "ledger E xs ws cs \<longleftrightarrow> queue_rep (te_queue E) xs \<and> (\<forall>ord \<in> set xs. good_queued ord) \<and>
     accounts (rm_max_position_per_symbol (te_risk E)) (te_symbols E) xs (listener_of E) ws cs"

definition covered :: "('r, 'm, 'h, 'z) TradingEngine \<Rightarrow> open_order list \<Rightarrow> string list \<Rightarrow> bool" where
  "covered E ws cs \<longleftrightarrow> engine_inv E \<and> (\<forall>st \<in> set (te_strategies E). 0 < sm_order_quantity st) \<and> (\<exists>xs. ledger E xs ws cs)"

lemma covered_running [simp]: "covered (E\<lparr>te_is_running := b\<rparr>) ws cs = covered E ws cs"
  by (simp add: covered_def ledger_def listener_of_def engine_inv_def)

lemma engine_exec_frame:
  assumes "engine_exec X a E = Some E'"
  shows "te_risk E' = te_risk E" and "te_symbols E' = te_symbols E" and "\<forall>i tu. a \<noteq> ConsumerTurn i tu \<Longrightarrow> te_strategies E' = te_strategies E"
    and "\<forall>now iso msg. a \<noteq> FillMessage now iso msg \<Longrightarrow> te_listener E' = te_listener E"
    and "\<forall>i tu. a \<noteq> ConsumerTurn i tu \<Longrightarrow> \<forall>stamps. a \<noteq> GatewayTurn stamps \<Longrightarrow> te_queue E' = te_queue E"
proof -
  have "te_risk E' = te_risk E \<and> te_symbols E' = te_symbols E \<and> ((\<forall>i tu. a \<noteq> ConsumerTurn i tu) \<longrightarrow> te_strategies E' = te_strategies E) \<and>
      ((\<forall>now iso msg. a \<noteq> FillMessage now iso msg) \<longrightarrow> te_listener E' = te_listener E) \<and>
      ((\<forall>i tu. a \<noteq> ConsumerTurn i tu) \<longrightarrow> (\<forall>stamps. a \<noteq> GatewayTurn stamps) \<longrightarrow> te_queue E' = te_queue E)"
  proof (cases a)
    case (GatewayTurn stamps)
    then obtain r q where rq: "wait_and_pop_turn (Some (te_is_running E)) (te_queue E) = Some (r, q)"
      using assms by (auto simp: bind_eq_Some_conv)
    then show ?thesis using assms GatewayTurn by (cases r) (auto simp: put_gateway_def)
  qed (use assms in \<open>auto simp: put_consumer_def put_listener_def stop_def split: if_splits\<close>)
  then show "te_risk E' = te_risk E" "te_symbols E' = te_symbols E" "\<forall>i tu. a \<noteq> ConsumerTurn i tu \<Longrightarrow> te_strategies E' = te_strategies E"
    "\<forall>now iso msg. a \<noteq> FillMessage now iso msg \<Longrightarrow> te_listener E' = te_listener E"
    "\<forall>i tu. a \<noteq> ConsumerTurn i tu \<Longrightarrow> \<forall>stamps. a \<noteq> GatewayTurn stamps \<Longrightarrow> te_queue E' = te_queue E" by blast+
qed

text \<open>The book of the engine is the book of the listener; the tables are the listener's own.\<close>

lemma accounts_engine:
  "accounts m syms xs (listener_of E) ws cs \<longleftrightarrow>
     books m syms xs (te_pm E) ws \<and> (\<forall>w \<in> set ws. good_open w) \<and> distinct (map oo_id ws @ cs) \<and> tabled (te_listener E) ws cs"
  using tabled_cong [of "listener_of E" "te_listener E"] by (simp add: accounts_def listener_of_def)

lemma ledger_message:
  assumes l: "ledger E xs ws cs" and run: "engine_exec X (FillMessage now now_iso msg) E = Some (put_listener L E)"
    and a: "\<And>m syms. accounts m syms xs (listener_of E) ws cs \<Longrightarrow> accounts m syms xs L ws' cs'"
  shows "ledger (put_listener L E) xs ws' cs'"
proof -
  have "same_account L (listener_of (put_listener L E))" by (simp add: listener_of_def put_listener_def)
  then show ?thesis using l a accounts_cong [of "listener_of (put_listener L E)" L]
    by (simp add: ledger_def) (simp add: put_listener_def)
qed

lemma message_run:
  assumes run: "engine_exec X (FillMessage now now_iso msg) E = Some E'"
  obtains threw L where "E' = put_listener L E" and "Fill_Listener.onMessage \<lparr>le_json = ee_json X, le_rest = ee_rest X, le_slots = ee_slots X,
      le_hdr = ee_hdr X, le_pages = ee_pages X, le_now = now, le_now_iso = now_iso\<rparr> (te_is_running E) msg (listener_of E) = Some (threw, L)"
  using run by auto

lemma reconciles_listener [simp]: "reconciles J msg (listener_of E) = reconciles J msg (te_listener E)"
  by (simp add: reconciles_def listener_of_def)

lemma consumer_ledger:
  assumes inv: "engine_inv E" and l: "ledger E xs ws cs" and st: "\<forall>st \<in> set (te_strategies E). 0 < sm_order_quantity st"
    and good: "good_action (ConsumerTurn i tu)" and run: "engine_exec X (ConsumerTurn i tu) E = Some E'"
  shows "\<exists>ys. ledger E' ys ws cs"
proof -
  note frame = engine_exec_frame(1,2,4) [OF run]
  let ?m = "rm_max_position_per_symbol (te_risk E)"
  have q: "queue_rep (te_queue E) xs" "\<forall>ord \<in> set xs. good_queued ord" and b: "books ?m (te_symbols E) xs (te_pm E) ws"
    and g: "\<forall>w \<in> set ws. good_open w" "distinct (map oo_id ws @ cs)" "tabled (te_listener E) ws cs"
    using l by (auto simp: ledger_def accounts_engine)
  have "\<forall>e. event_in tu = Some e \<longrightarrow> good_symbol (ev_symbol e)" using good by simp
  from run inv q(1) this show ?thesis
  proof (cases rule: consumer_exec_cases)
    case idle
    then show ?thesis using q b g frame by (intro exI [of _ xs]) (simp add: ledger_def accounts_engine)
  next
    case (sent ord)
    have pos: "0 < ord_quantity ord" using sent(2) st consumer_exec_strategies(1) [OF run st] by simp
    have o: "ord_side ord = Buy" "valid_key (ord_key ord)" using sent(1) by (simp_all add: good_queued_def good_symbol_def)
    have "apply_op (Sent ord) (te_pm E) = Some (te_pm E')" using sent(3) by simp
    then have "books ?m (te_symbols E) (xs @ [ord]) (te_pm E') ws"
      by (rule books_op [OF b]) (use b o pos g(1) sent(5) in \<open>auto simp: books_def good_open_def intro: less_imp_le\<close>)
    then show ?thesis using sent(1,4) q(2) g frame by (intro exI [of _ "xs @ [ord]"]) (auto simp: ledger_def accounts_engine)
  qed
qed

lemma gateway_ledger:
  assumes l: "ledger E xs ws cs" and run: "engine_exec X (GatewayTurn stamps) E = Some E'" and fresh: "fresh_ids (opened X stamps E) ws cs"
  shows "\<exists>ys. ledger E' ys (ws @ opened X stamps E) cs"
proof -
  note frame = engine_exec_frame(1,2,4) [OF run]
  let ?m = "rm_max_position_per_symbol (te_risk E)" and ?G = "gateway_env_of X"
  have q: "queue_rep (te_queue E) xs" "\<forall>ord \<in> set xs. good_queued ord" and b: "books ?m (te_symbols E) xs (te_pm E) ws"
    and g: "\<forall>w \<in> set ws. good_open w" "distinct (map oo_id ws @ cs)" "tabled (te_listener E) ws cs"
    using l by (auto simp: ledger_def accounts_engine)
  have pos: "\<forall>ord \<in> set xs. 0 < ord_quantity ord" using b by (simp add: books_def)
  note pop = wait_and_pop_refines [OF q(1), of "Some (te_is_running E)"]
  show ?thesis
  proof (cases xs)
    case Nil
    then have "E' = E" "opened X stamps E = []" using pop run by (auto simp: opened_def split: if_splits)
    then show ?thesis using l by auto
  next
    case (Cons ord ys)
    obtain q' where q': "wait_and_pop_turn (Some (te_is_running E)) (te_queue E) = Some (Popped ord, q')" "queue_rep q' ys"
      using pop Cons by auto
    obtain gw where gw: "handle_order ?G stamps ord (gateway_of E) = Some gw" "E' = put_gateway gw (E\<lparr>te_queue := q'\<rparr>)"
      using run q'(1) by auto
    have e: "te_queue E' = q'" "te_pm E' = gw_pm gw" "gw_pm (gateway_of E) = te_pm E" by (simp_all add: gw(2) put_gateway_def gateway_of_def)
    have o: "ord_side ord = Buy" "valid_key (ord_key ord)" "0 < ord_quantity ord" using q(2) pos Cons by (simp_all add: good_queued_def good_symbol_def)
    show ?thesis
    proof (cases "submitted ?G stamps ord (gateway_of E)")
      case (Some i)
      let ?w = "\<lparr>oo_symbol = ord_symbol ord, oo_id = i, oo_total = ord_quantity ord, oo_remaining = ord_quantity ord\<rparr>"
      have op: "opened X stamps E = [?w]" using q'(1) Some by (simp add: opened_def)
      have "te_pm E' = te_pm E" using handle_order_submitted [OF gw(1)] Some e by simp
      moreover have "outstanding k ys (ws @ [?w]) = outstanding k xs ws" for k by (subst (1 2) outstanding_split) (simp add: Cons)
      ultimately have "books ?m (te_symbols E) ys (te_pm E') (ws @ [?w])" using b Cons by (simp add: books_def)
      moreover have "tabled (te_listener E) (ws @ [?w]) cs" by (rule tabled_open [OF g(3)]) (use fresh op in \<open>simp_all add: fresh_ids_def\<close>)
      ultimately show ?thesis
        using q'(2) q(2) Cons g(1,2) o fresh op frame e(1) by (intro exI [of _ ys]) (auto simp: ledger_def accounts_engine fresh_ids_def good_open_def)
    next
      case None
      have op: "opened X stamps E = []" using q'(1) None by (simp add: opened_def)
      have "apply_op (Cancelled ord) (te_pm E) = Some (te_pm E')" using handle_order_submitted [OF gw(1)] None e by simp
      then have "books ?m (te_symbols E) ys (te_pm E') ws"
        by (rule books_op [OF b]) (use pos o g(1) Cons in \<open>auto simp: good_open_def intro: less_imp_le\<close>)
      then show ?thesis using q'(2) q(2) Cons g frame e(1) op by (intro exI [of _ ys]) (simp add: ledger_def accounts_engine)
    qed
  qed
qed

lemma fill_ledger:
  assumes l: "ledger E xs (us @ w # vs) cs" and msg: "te_is_running E" "message_update (ee_json X) msg = Some (FillUpdate fe)" "fill_of fe w"
    and run: "engine_exec X (FillMessage now now_iso msg) E = Some E'"
  shows "fe_is_partial fe \<Longrightarrow> ledger E' xs (us @ with_remaining (oo_remaining w - fe_quantity fe) w # vs) cs"
    and "\<not> fe_is_partial fe \<Longrightarrow> ledger E' xs (us @ vs) (oo_id w # cs)"
proof -
  let ?X = "\<lparr>le_json = ee_json X, le_rest = ee_rest X, le_slots = ee_slots X, le_hdr = ee_hdr X, le_pages = ee_pages X, le_now = now, le_now_iso = now_iso\<rparr>"
  let ?L = "listener_of E" and ?i = "oo_id w"
  obtain threw L where E': "E' = put_listener L E" and L: "Fill_Listener.onMessage ?X (te_is_running E) msg ?L = Some (threw, L)"
    using run by (rule message_run)
  obtain json where m: "msg = Message json" using msg(2) by (auto simp: message_update_def split: ws_message.splits)
  have h: "handleTradeUpdate ?X json ?L = Some (threw, L)" using L msg(1) m by (simp add: Fill_Listener.onMessage_def)
  have p: "processFillEvent (ee_slots X) (ee_hdr X) now fe ?L = Some L" using reported_update(1) [OF h] msg(2) m by simp
  have w: "fe_symbol fe = oo_symbol w" "buf_view (fe_alpaca_order_id fe) = ?i" "fe_side fe = Buy" using msg(3) by (auto simp: fill_of_def)
  have i: "?i \<noteq> []" using l by (auto simp: ledger_def accounts_def good_open_def)
  define L1 where "L1 = upsertFilledQty ?i (findFilledQty ?i ?L + fe_quantity fe) ?L"
  obtain pm where pm: "onFill \<lparr>fill_symbol = oo_symbol w, fill_executionId = 0, fill_orderId = 0, fill_side = Buy,
      fill_quantity = fe_quantity fe, fill_price = fe_price fe\<rparr> (fl_pm ?L) = Some pm" "fl_pm L = pm" "fl_filled_entries L = fl_filled_entries L1"
    "fl_completed_entries L = fl_completed_entries (if fe_is_partial fe then L1 else markCompleted ?i L1)"
    by (rule processFillEvent_SomeD [OF p]) (simp add: w i L1_def)
  have f: "findFilledQty ?i ?L = oo_total w - oo_remaining w" if "length (us @ w # vs) + length cs \<le> kMaxTrackedOrders"
    using l that by (auto simp: ledger_def accounts_def tabled_def)
  have t: "fl_filled_entries L = fl_filled_entries (upsertFilledQty ?i (oo_total w - (oo_remaining w - fe_quantity fe)) ?L)"
    if "length (us @ w # vs) + length cs \<le> kMaxTrackedOrders"
  proof -
    have "findFilledQty ?i ?L + fe_quantity fe = oo_total w - (oo_remaining w - fe_quantity fe)" using f [OF that] by simp
    then show ?thesis using pm(3) by (simp only: L1_def)
  qed
  show "ledger E' xs (us @ with_remaining (oo_remaining w - fe_quantity fe) w # vs) cs" if part: "fe_is_partial fe"
    unfolding E'
  proof (rule ledger_message [OF l run [unfolded E']])
    fix m syms assume a: "accounts m syms xs ?L (us @ w # vs) cs"
    show "accounts m syms xs L (us @ with_remaining (oo_remaining w - fe_quantity fe) w # vs) cs"
      by (rule accounts_fill [OF a _ _ pm(1,2) t]) (use msg(3) part pm(4) in \<open>simp_all add: fill_of_def L1_def\<close>)
  qed
  show "ledger E' xs (us @ vs) (oo_id w # cs)" if part: "\<not> fe_is_partial fe"
    unfolding E'
  proof (rule ledger_message [OF l run [unfolded E']])
    fix m syms assume a: "accounts m syms xs ?L (us @ w # vs) cs"
    have q: "fe_quantity fe = oo_remaining w" using msg(3) part by (simp add: fill_of_def)
    show "accounts m syms xs L (us @ vs) (oo_id w # cs)"
      by (rule accounts_filled [OF a pm(1) [unfolded q] pm(2)]) (use part f pm(3,4) q in \<open>simp_all add: L1_def\<close>)
  qed
qed

lemma cancel_ledger:
  assumes l: "ledger E xs (us @ w # vs) cs" and msg: "te_is_running E" "message_update (ee_json X) msg = Some (CancelUpdate ce)" "cancel_of ce w"
    and run: "engine_exec X (FillMessage now now_iso msg) E = Some E'"
  shows "ledger E' xs (us @ vs) (oo_id w # cs)"
proof -
  let ?X = "\<lparr>le_json = ee_json X, le_rest = ee_rest X, le_slots = ee_slots X, le_hdr = ee_hdr X, le_pages = ee_pages X, le_now = now, le_now_iso = now_iso\<rparr>"
  obtain threw L where E': "E' = put_listener L E" and L: "Fill_Listener.onMessage ?X (te_is_running E) msg (listener_of E) = Some (threw, L)"
    using run by (rule message_run)
  obtain json where m: "msg = Message json" using msg(2) by (auto simp: message_update_def split: ws_message.splits)
  have h: "handleTradeUpdate ?X json (listener_of E) = Some (threw, L)" using L msg(1) m by (simp add: Fill_Listener.onMessage_def)
  have p: "processCancelEvent (ee_slots X) ce (listener_of E) = Some L" using reported_update(2) [OF h] msg(2) m by simp
  have w: "ce_symbol ce = oo_symbol w" "buf_view (ce_alpaca_order_id ce) = oo_id w" "ce_side ce = Buy" "ce_quantity ce = oo_remaining w"
    using msg(3) by (auto simp: cancel_of_def)
  have i: "oo_id w \<noteq> []" using l by (auto simp: ledger_def accounts_def good_open_def)
  obtain pm where pm: "onOrderCancelled (zero_Order\<lparr>ord_symbol := oo_symbol w, ord_quantity := oo_remaining w, ord_side := Buy\<rparr>) (fl_pm (listener_of E)) = Some pm"
    "L = complete_in_tracker (ee_slots X) (oo_symbol w) Buy (oo_id w) (markCompleted (oo_id w) (listener_of E\<lparr>fl_pm := pm\<rparr>))"
    using p i w by (auto simp: processCancelEvent_def book_cancel_def Let_def bind_eq_Some_conv)
  have k: "fl_completed_entries (markCompleted (oo_id w) (listener_of E\<lparr>fl_pm := pm\<rparr>)) = fl_completed_entries (markCompleted (oo_id w) (listener_of E))"
    by (simp add: markCompleted_def isCompleted_def Let_def)
  show ?thesis unfolding E'
  proof (rule ledger_message [OF l run [unfolded E']])
    fix m syms assume a: "accounts m syms xs (listener_of E) (us @ w # vs) cs"
    show "accounts m syms xs L (us @ vs) (oo_id w # cs)" by (rule accounts_cancel [OF a pm(1)]) (simp_all add: pm(2) k)
  qed
qed

lemma reconnect_ledger:
  assumes l: "ledger E xs ws cs" and msg: "te_is_running E" "reconciles (ee_json X) msg (te_listener E)" "fl_client (te_listener E) = Some client"
    and t: "truthful (listed (ee_pages X) (ee_rest X) (fl_session_start_iso (te_listener E)) client) ws cs"
    and n: "length ws + length cs \<le> kMaxTrackedOrders" and run: "engine_exec X (FillMessage now now_iso msg) E = Some E'"
    and s: "fold after_record (listed (ee_pages X) (ee_rest X) (fl_session_start_iso (te_listener E)) client) (ws, cs) = (ws', cs')"
  shows "ledger E' xs ws' cs'"
proof -
  let ?X = "\<lparr>le_json = ee_json X, le_rest = ee_rest X, le_slots = ee_slots X, le_hdr = ee_hdr X, le_pages = ee_pages X, le_now = now, le_now_iso = now_iso\<rparr>"
  let ?L = "listener_of E"
  obtain threw L where E': "E' = put_listener L E" and L: "Fill_Listener.onMessage ?X (te_is_running E) msg ?L = Some (threw, L)"
    using run by (rule message_run)
  obtain json where m: "msg = Message json" using msg(2) by (auto simp: reconciles_def)
  have h: "handleTradeUpdate ?X json ?L = Some (threw, L)" using L msg(1) m by (simp add: Fill_Listener.onMessage_def)
  have c: "fl_client ?L = Some client" "fl_session_start_iso ?L = fl_session_start_iso (te_listener E)" using msg(3) by (simp_all add: listener_of_def)
  obtain L1 where L1: "run_list (reconcile_order (ee_slots X)) (listed (ee_pages X) (ee_rest X) (fl_session_start_iso (te_listener E)) client)
      (Fill_Listener.sendSubscribe ?L) = Some L1" "same_account L1 L"
    using reconciling_update [OF h _ c(1)] msg(2) m c(2) by auto
  show ?thesis unfolding E'
  proof (rule ledger_message [OF l run [unfolded E']])
    fix m syms assume "accounts m syms xs ?L ws cs"
    then have "accounts m syms xs (Fill_Listener.sendSubscribe ?L) ws cs"
      using accounts_cong [of "Fill_Listener.sendSubscribe ?L" ?L] by (simp add: Fill_Listener.sendSubscribe_def)
    from records_accounts [OF L1(1) this n t] s have "accounts m syms xs L1 ws' cs'" by simp
    then show "accounts m syms xs L ws' cs'" using accounts_cong [of L L1] L1(2) by simp
  qed
qed

lemma quiet_ledger:
  assumes l: "ledger E xs ws cs" and run: "engine_exec X (FillMessage now now_iso msg) E = Some E'"
    and q: "\<not> te_is_running E \<or> message_update (ee_json X) msg = Some Monostate \<and> \<not> reconciles (ee_json X) msg (te_listener E)"
  shows "ledger E' xs ws cs"
proof -
  let ?X = "\<lparr>le_json = ee_json X, le_rest = ee_rest X, le_slots = ee_slots X, le_hdr = ee_hdr X, le_pages = ee_pages X, le_now = now, le_now_iso = now_iso\<rparr>"
  let ?L = "listener_of E"
  obtain threw L where E': "E' = put_listener L E" and L: "Fill_Listener.onMessage ?X (te_is_running E) msg ?L = Some (threw, L)"
    using run by (rule message_run)
  have "same_account ?L L"
  proof (cases "te_is_running E \<and> (\<exists>json parsed. msg = Message json \<and> js_parse_or_throw (ee_json X) json = Some parsed)")
    case False
    then show ?thesis
      using L by (auto simp: Fill_Listener.onMessage_def handleTradeUpdate_streams Fill_Listener.sendAuth_def split: if_splits ws_message.splits option.splits)
  next
    case True
    then obtain json parsed where m: "te_is_running E" "msg = Message json" "js_parse_or_throw (ee_json X) json = Some parsed" by blast
    have h: "handleTradeUpdate ?X json ?L = Some (threw, L)" using L m(1,2) by (simp add: Fill_Listener.onMessage_def)
    have "is_stream (ee_json X) parsed ''authorization'' \<or> is_stream (ee_json X) parsed ''listening'' \<or> parseTradingUpdate (ee_json X) parsed = Some Monostate"
      using q m by (auto simp: message_update_def split: if_splits)
    then show ?thesis using quiet_update [OF h, of parsed] q m by simp
  qed
  then show ?thesis unfolding E' by (intro ledger_message [OF l run [unfolded E']]) (use accounts_cong [of L ?L] in simp)
qed

section \<open>The invariant of the closed loop\<close>

lemma coveredE:
  assumes "covered E ws cs"
  obtains xs where "engine_inv E" and "ledger E xs ws cs" and "\<forall>st \<in> set (te_strategies E). 0 < sm_order_quantity st"
  using assms by (auto simp: covered_def)

lemma covered_step:
  assumes "covered E ws cs" and "text_env X" and "good_action a" and "engine_exec X a E = Some E'"
    and "\<forall>i tu. a \<noteq> ConsumerTurn i tu" and "\<exists>xs. ledger E' xs ws' cs'"
  shows "covered E' ws' cs'"
  using assms engine_exec_inv [OF _ assms(2-4)] engine_exec_frame(3) [OF assms(4,5)] by (simp add: covered_def)

lemma covered_same:
  assumes "covered E ws cs" and "text_env X" and "good_action a" and "engine_exec X a E = Some E'" and "\<forall>i tu. a \<noteq> ConsumerTurn i tu"
    and "\<forall>stamps. a \<noteq> GatewayTurn stamps" and "\<forall>now iso msg. a \<noteq> FillMessage now iso msg" and "te_pm E' = te_pm E"
  shows "covered E' ws cs"
  using assms engine_exec_frame(1,2) [OF assms(4)] engine_exec_frame(4) [OF assms(4,7)] engine_exec_frame(5) [OF assms(4-6)]
  by (intro covered_step [OF assms(1-5)]) (auto simp: covered_def ledger_def accounts_engine)

lemma trades_frame:
  assumes "trades X E0 E ws cs"
  shows "te_symbols E = te_symbols E0 \<and> te_risk E = te_risk E0"
proof -
  have f: "te_symbols E'' = te_symbols E' \<and> te_risk E'' = te_risk E'" if "engine_exec X a E' = Some E''" for a E' E''
    using engine_exec_frame(1,2) [OF that] by simp
  have t: "te_symbols E'' = te_symbols E' \<and> te_risk E'' = te_risk E'" if "turn_exec X (ConsumerTurn i tu) E' = Some E''" for i tu E' E''
    using that by (auto simp: turn_exec_def dest!: f simp del: engine_exec.simps)
  show ?thesis using assms by (induction rule: trades.induct) (auto dest!: f t simp del: engine_exec.simps)
qed

lemma trades_covered:
  assumes "trades X E0 E ws cs" and X: "text_env X" and "covered E0 [] []"
  shows "covered E ws cs"
  using assms(1)
proof (induction rule: trades.induct)
  case (consumer E ws cs i tu E')
  let ?E = "E\<lparr>te_is_running := True\<rparr>"
  obtain E2 where run: "engine_exec X (ConsumerTurn i tu) ?E = Some E2" and E': "E' = E2\<lparr>te_is_running := te_is_running E\<rparr>"
    using consumer(3) by (auto simp: turn_exec_def simp del: engine_exec.simps)
  have "covered ?E ws cs" using consumer(4) by simp
  then obtain xs where c: "engine_inv ?E" "ledger ?E xs ws cs" "\<forall>st \<in> set (te_strategies ?E). 0 < sm_order_quantity st" by (rule coveredE)
  have "covered E2 ws cs"
    using engine_exec_inv [OF c(1) X consumer(2) run] consumer_ledger [OF c consumer(2) run] consumer_exec_strategies(2) [OF run c(3)]
    by (simp add: covered_def)
  then show ?case by (simp add: E')
next
  case (gateway E ws cs stamps E')
  obtain xs where "ledger E xs ws cs" using gateway(4) by (rule coveredE)
  from gateway_ledger [OF this gateway(3,2)] show ?case by (intro covered_step [OF gateway(4) X _ gateway(3)]) simp_all
next
  case (partial E us w vs cs msg fe now now_iso E')
  obtain xs where "ledger E xs (us @ w # vs) cs" using partial(7) by (rule coveredE)
  from fill_ledger(1) [OF this partial(2-4,6,5)] show ?case by (intro covered_step [OF partial(7) X _ partial(6)]) auto
next
  case (filled E us w vs cs msg fe now now_iso E')
  obtain xs where "ledger E xs (us @ w # vs) cs" using filled(7) by (rule coveredE)
  from fill_ledger(2) [OF this filled(2-4,6,5)] show ?case by (intro covered_step [OF filled(7) X _ filled(6)]) auto
next
  case (cancel E us w vs cs msg ce now now_iso E')
  obtain xs where "ledger E xs (us @ w # vs) cs" using cancel(6) by (rule coveredE)
  from cancel_ledger [OF this cancel(2-5)] show ?case by (intro covered_step [OF cancel(6) X _ cancel(5)]) auto
next
  case (reconnect E ws cs msg client aos now now_iso E' ws' cs')
  obtain xs where "ledger E xs ws cs" using reconnect(10) by (rule coveredE)
  from reconnect_ledger [OF this reconnect(2-4) _ reconnect(7,8)] reconnect(5,6,9) have "ledger E' xs ws' cs'" by simp
  then show ?case by (intro covered_step [OF reconnect(10) X _ reconnect(8)]) auto
next
  case (quiet E ws cs msg now now_iso E')
  obtain xs where "ledger E xs ws cs" using quiet(4) by (rule coveredE)
  from quiet_ledger [OF this quiet(3,2)] show ?case by (intro covered_step [OF quiet(4) X _ quiet(3)]) auto
next
  case (market E ws cs now msg E')
  show ?case by (rule covered_same [OF market(3) X _ market(2)]) (use market(2) in auto)
next
  case (signal E ws cs E')
  show ?case by (rule covered_same [OF signal(3) X _ signal(2)]) (use signal(2) in \<open>auto simp: stop_def\<close>)
qed (rule assms(3))

lemma new_engine_covered:
  assumes new: "new_TradingEngine H no_orders sink creds config rest recon = Inr E0" and launch: "launch_consumers E0 = Inr E1"
    and valid: "valid_config config" "in_i64 (rc_max_position_per_symbol (cfg_risk config))"
    and keys: "\<forall>symb \<in> set (tc_symbols (cfg_trading config)). valid_key (symbolToKey symb)" "length (tc_symbols (cfg_trading config)) \<le> kMaxSymbols"
  shows "covered E1 [] []" and "te_risk E1 = new_RiskManager (rc_max_position_per_symbol (cfg_risk config)) (rc_max_order_value (cfg_risk config))"
proof -
  note e1 = new_engine_inv [OF assms]
  have e0: "te_pm E1 = registerAll (tc_symbols (cfg_trading config)) new_PositionManager" "te_queue E1 = new_Queue zero_Order"
    "te_strategies E1 = map (\<lambda>_. default_strategy) (tc_symbols (cfg_trading config))"
    "te_risk E1 = new_RiskManager (rc_max_position_per_symbol (cfg_risk config)) (rc_max_order_value (cfg_risk config))"
    "fl_filled_entries (te_listener E1) = []" "fl_completed_entries (te_listener E1) = []"
    using new launch by (auto simp: new_TradingEngine_def launch_consumers_def launch_loop_strategies new_FillListener_def Let_def split: option.splits prod.splits)
  show "te_risk E1 = new_RiskManager (rc_max_position_per_symbol (cfg_risk config)) (rc_max_order_value (cfg_risk config))" by (rule e0(4))
  have "books (rc_max_position_per_symbol (cfg_risk config)) (te_symbols E1) [] (te_pm E1) []"
    using e1 e0(1) fresh_book [OF keys] keys(1) valid by (auto simp: books_def holds_within_def empty_Entry_def valid_config_def)
  then have "ledger E1 [] [] []"
    using e0 queue_rep_new by (simp add: ledger_def accounts_engine tabled_def filled_ids_def completed_ids_def new_RiskManager_def)
  then show "covered E1 [] []" using e1 e0(3) by (auto simp: covered_def default_strategy_def new_SimpleMarketMakingStrategy_def)
qed

section \<open>Property\<close>


section \<open>A concrete run\<close>

text \<open>A broker that acknowledges the order the engine sends and cancels it while the listener is not connected: the engine quotes a
  trade, the order is queued, then placed; the listener is authorized, loses its connection, and is authorized again.\<close>

definition cancelled_record :: AlpacaOrderStatus where
  "cancelled_record = (demo_record 0)\<lparr>os_status := ''canceled''\<rparr>"

definition authorized_doc :: sample_json where
  "authorized_doc = JObj [(''stream'', JStr ''authorization''), (''data'', JObj [(''status'', JStr ''authorized'')])]"

definition acking_env :: "(unit, (OrderSlotKey \<times> AlpacaOrderId) list, int list, string list, sample_json) engine_env" where
  "acking_env = demo_engine_env\<lparr>ee_rest := (demo_rest (Returned (Inr \<lparr>ack_client_order_id = ''id-1'', ack_status = ''new''\<rparr>)) Threw)
       \<lparr>rest_queryOrders := (\<lambda>_ _ s. (Returned (Inr [cancelled_record]), s))\<rparr>,
     ee_json := (sample_api authorized_doc)\<lparr>js_get_string := js_get_string (ee_json demo_engine_env)\<rparr>\<rparr>"

lemma acking_text: "text_env acking_env"
  using demo_engine_text by (auto simp: acking_env_def text_env_def text_client_def cancelled_record_def demo_record_def text_symbol_def)

lemma acked_turn:
  assumes q: "queue_rep (te_queue E) [ord]" and "te_tracker E = []"
  shows "\<exists>E'. engine_exec acking_env (GatewayTurn stamps) E = Some E' \<and> te_pm E' = te_pm E \<and> te_is_running E' = te_is_running E \<and> queue_rep (te_queue E') [] \<and>
    opened acking_env stamps E = [\<lparr>oo_symbol = ord_symbol ord, oo_id = ''id-1'', oo_total = ord_quantity ord, oo_remaining = ord_quantity ord\<rparr>]"
proof -
  let ?G = "gateway_env_of acking_env"
  obtain q' where q': "wait_and_pop_turn (Some (te_is_running E)) (te_queue E) = Some (Popped ord, q')" "queue_rep q' []"
    using wait_and_pop_refines [OF q] by auto
  have s: "submitted ?G stamps ord (gateway_of E) = Some ''id-1''"
    using assms(2) by (simp add: submitted_def placed_def cancel_previous_eq gateway_of_def acking_env_def demo_engine_env_def
        demo_rest_def existing_id_def getExistingOrder_def demo_slot_map_def)
  obtain gw where gw: "handle_order ?G stamps ord (gateway_of E) = Some gw" using submitted_handled [OF s] by blast
  have "gw_pm gw = te_pm E" using handle_order_submitted [OF gw] s by (simp add: gateway_of_def)
  then show ?thesis using q' gw s by (simp add: opened_def put_gateway_def)
qed

lemma acking_json:
  "js_parse_or_throw (ee_json acking_env) json = Some authorized_doc" "is_stream (ee_json acking_env) authorized_doc ''authorization''"
  "js_contains (ee_json acking_env) authorized_doc ''data''"
  "js_contains (ee_json acking_env) (js_at (ee_json acking_env) authorized_doc ''data'') ''status''"
  "js_equals (ee_json acking_env) (js_at (ee_json acking_env) (js_at (ee_json acking_env) authorized_doc ''data'') ''status'') ''authorized''"
  by (simp_all add: acking_env_def sample_api_def authorized_doc_def is_stream_def sample_get_def)

lemma first_authorization:
  assumes "te_is_running E" and "\<not> fl_has_connected (te_listener E)"
  shows "engine_exec acking_env (FillMessage 0 now_iso (Message json)) E =
    Some (put_listener ((Fill_Listener.sendSubscribe (listener_of E))\<lparr>fl_session_start_iso := now_iso, fl_has_connected := True\<rparr>) E)"
  using assms acking_json
  by (simp add: Fill_Listener.onMessage_def handleTradeUpdate_streams handleAuthorization_def listener_of_def Fill_Listener.sendSubscribe_def)

lemma cancelled_record_reconciled:
  assumes "findFilledQty ''id-1'' L = 0"
  shows "\<exists>L'. reconcile_order M cancelled_record L = Some L'"
proof -
  let ?o = "zero_Order\<lparr>ord_symbol := copySymbol ''AAPL'', ord_quantity := 100, ord_side := Buy\<rparr>"
  obtain pm where "onOrderCancelled ?o (fl_pm L) = Some pm" using order_ops_total(2) [of ?o "fl_pm L"] by (auto simp: in_i64_def)
  then show ?thesis
    using assms by (simp add: reconcile_order_def cancelled_record_def demo_record_def parseSide_def is_fill_status_def is_cancel_status_def reconcileCancel_def
        book_cancel_def i64_sub_def chk_i64_def in_i64_def Let_def)
qed

lemma second_authorization:
  assumes "te_is_running E" and "fl_has_connected (te_listener E)" and "fl_client (te_listener E) = Some ()" and "fl_filled_entries (te_listener E) = []"
  shows "\<exists>E'. engine_exec acking_env (FillMessage 0 now_iso (Message json)) E = Some E'"
proof -
  let ?L = "Fill_Listener.sendSubscribe (listener_of E)"
  have X: "rest_queryOrders (ee_rest acking_env) a b () = (Returned (Inr [cancelled_record]), ())" "ee_pages acking_env = Suc 0" for a b
    by (simp_all add: acking_env_def demo_engine_env_def)
  have L: "findFilledQty ''id-1'' ?L = 0" "fl_has_connected ?L" "fl_client ?L = Some ()" using assms
    by (simp_all add: Fill_Listener.sendSubscribe_def listener_of_def findFilledQty_def)
  obtain L' where "reconcile_order (ee_slots acking_env) cancelled_record ?L = Some L'" using cancelled_record_reconciled [OF L(1)] by blast
  then show ?thesis
    using assms(1) L(2,3) acking_json
    by (simp add: Fill_Listener.onMessage_def handleTradeUpdate_streams handleAuthorization_def reconcileAfterReconnect_def X reconcile_page_def kPageSize_def)
qed

lemma queue_rep_empty: "queue_rep q [] \<Longrightarrow> queue_rep q xs \<Longrightarrow> xs = []"
  using try_pop_refines [of q "[]"] try_pop_refines [of q xs] by (cases xs) auto


end
