(* ===== verification/Queue_Liveness.thy ===== *)
theory Queue_Liveness
  imports Fair_Shutdown Position_Limit
begin

text \<open>
  No order waits forever: on every fair behaviour of a \<open>TradingEngine\<close> (\<open>src/TradingEngine.cpp\<close>, \<open>src/OrderGateway.cpp\<close>) an order
  that is in the queue while the gateway's thread is alive is handled by it, also when the engine is being shut down
  meanwhile. Together with \<open>order_left_behind\<close> of \<open>Engine_Shutdown\<close> this says exactly when orders are lost:
  when they are queued after that thread has ended.
\<close>

section \<open>The queue along a behaviour\<close>

lemma main_keeps:
  assumes "main_step V ok s = Some s'"
  shows "te_queue (lf_engine s') = te_queue (lf_engine s)" and "lf_threads s GatewayThread = Running \<Longrightarrow> lf_threads s' GatewayThread = Running"
proof -
  note defs = main_step_defs join_def throw_def listener_start_def source_start_def launch_gateway_def launch_consumer_def
    start_thread_def enter_shutdown_def leave_shutdown_def stop_def Let_def
  show "te_queue (lf_engine s') = te_queue (lf_engine s)"
    using assms by (cases "lf_pc s") (auto simp: defs split: if_splits thread_status.splits)
  show "lf_threads s' GatewayThread = Running" if "lf_threads s GatewayThread = Running"
    using assms that by (cases "lf_pc s") (auto simp: defs split: if_splits thread_status.splits)
qed

lemma turn_queue:
  assumes inv: "engine_inv E" and good: "good_action b" and q: "queue_rep (te_queue E) xs" and run: "turn_exec X b E = Some E'"
  shows "\<exists>ys. queue_rep (te_queue E') ((if is_gateway_turn (Turn b) then tl xs else xs) @ ys)"
proof (cases b)
  case (ConsumerTurn i tu)
  then obtain F where F: "engine_exec X b (E\<lparr>te_is_running := True\<rparr>) = Some F" "E' = F\<lparr>te_is_running := te_is_running E\<rparr>"
    using run by (auto simp: turn_exec_def simp del: engine_exec.simps)
  have "engine_inv (E\<lparr>te_is_running := True\<rparr>)" "queue_rep (te_queue (E\<lparr>te_is_running := True\<rparr>)) xs"
    "\<forall>e. event_in tu = Some e \<longrightarrow> good_symbol (ev_symbol e)" using inv q good ConsumerTurn by (simp_all add: engine_inv_flag)
  from F(1) [unfolded ConsumerTurn] this have "\<exists>ys. queue_rep (te_queue F) (xs @ ys)"
    by (cases rule: consumer_exec_cases) (auto intro: exI [of _ "[]"])
  then show ?thesis using F(2) ConsumerTurn by (simp add: is_gateway_turn_def)
next
  case (GatewayTurn stamps)
  then have "queue_rep (te_queue E') (tl xs @ [])"
    using run wait_and_pop_refines [OF q, of "Some (te_is_running E)"] q
    by (cases xs) (auto simp: turn_exec_def put_gateway_def split: if_splits)
  then show ?thesis using GatewayTurn by (auto simp: is_gateway_turn_def intro!: exI [of _ "[]"])
qed (use run q in \<open>auto simp: turn_exec_def put_listener_def stop_def is_gateway_turn_def intro!: exI [of _ "[]"]\<close>)

lemma queue_step:
  assumes inv: "life_inv s" and good: "good_life a" and q: "queue_rep (te_queue (lf_engine s)) xs" and ex: "life_exec V X a s = Some s'"
  shows "\<exists>ys. queue_rep (te_queue (lf_engine s')) ((if is_gateway_turn a then tl xs else xs) @ ys)"
proof (cases a)
  case (Main ok)
  then show ?thesis using ex q main_keeps(1) [of V ok s s'] by (auto simp: is_gateway_turn_def intro!: exI [of _ "[]"])
next
  case (Turn b)
  then have "thread_step X b s = Some s'" using ex by simp
  then have "(\<exists>E. turn_exec X b (lf_engine s) = Some E \<and> s' = s\<lparr>lf_engine := E\<rparr>) \<or> \<not> is_gateway_turn a \<and> s' = s"
    using Turn by (cases "thread_of b") (auto simp: thread_step_def is_gateway_turn_def split: if_splits)
  then show ?thesis
  proof
    assume "\<exists>E. turn_exec X b (lf_engine s) = Some E \<and> s' = s\<lparr>lf_engine := E\<rparr>"
    then obtain E where E: "turn_exec X b (lf_engine s) = Some E" "s' = s\<lparr>lf_engine := E\<rparr>" by blast
    show ?thesis using turn_queue [OF _ _ q E(1)] inv good Turn E(2) by (simp add: life_inv_def)
  next
    assume "\<not> is_gateway_turn a \<and> s' = s"
    then show ?thesis using q by (intro exI [of _ "[]"]) simp
  qed
next
  case (End t)
  then show ?thesis using ex q by (auto simp: is_gateway_turn_def intro!: exI [of _ "[]"] split: if_splits)
qed

lemma gateway_stays:
  assumes "lf_threads s GatewayThread = Running" and "queue_rep (te_queue (lf_engine s)) (x # xs)" and ex: "life_exec V X a s = Some s'"
  shows "lf_threads s' GatewayThread = Running"
proof (cases a)
  case (Main ok)
  then show ?thesis using main_keeps(2) assms by simp
next
  case (Turn b)
  then have "thread_step X b s = Some s'" using ex by simp
  then show ?thesis by (cases rule: thread_stepE) (use assms(1) in auto)
next
  case (End t)
  have "try_pop (te_queue (lf_engine s)) \<noteq> Some (None, te_queue (lf_engine s))" using try_pop_refines [OF assms(2)] by auto
  then show ?thesis using ex End assms(1) by (auto split: if_splits)
qed

lemma order_reached:
  assumes b: "behaves V X \<sigma> \<alpha>" and f: "fair_threads V \<sigma> \<alpha>" and inv: "\<forall>m. life_inv (\<sigma> m)"
    and "lf_threads (\<sigma> n) GatewayThread = Running" and "queue_rep (te_queue (lf_engine (\<sigma> n))) (us @ ord # vs)"
  shows "\<exists>m \<ge> n. \<exists>stamps ys. \<alpha> m = Some (Turn (GatewayTurn stamps)) \<and> queue_rep (te_queue (lf_engine (\<sigma> m))) (ord # ys)"
proof -
  define Q where "Q m xs \<longleftrightarrow> lf_threads (\<sigma> m) GatewayThread = Running \<and> queue_rep (te_queue (lf_engine (\<sigma> m))) xs" for m xs
  define G where "G m \<longleftrightarrow> (\<exists>stamps. \<alpha> m = Some (Turn (GatewayTurn stamps)))" for m
  have step: "\<exists>ys. Q (Suc m) ((if G m then xs else x # xs) @ ys)" if m: "Q m (x # xs)" for m x xs
  proof (cases rule: behaves_step [OF b, of m])
    case 1
    then show ?thesis using m by (auto simp: Q_def G_def intro!: exI [of _ "[]"])
  next
    case (2 a)
    have "G m = is_gateway_turn a" using 2(1) by (simp add: G_def is_gateway_turn_def)
    then show ?thesis
      using queue_step [OF _ 2(2) _ 2(3), of "x # xs"] gateway_stays [OF _ _ 2(3), of x xs] m inv by (simp add: Q_def split: if_splits)
  qed
  have until: "\<exists>k \<ge> m. G k \<and> (\<exists>ys. Q k (x # xs @ ys))" if "Q m (x # xs)" "G (m + d)" for m d x xs
    using that
  proof (induction d arbitrary: m xs)
    case 0
    then show ?case by (intro exI [of _ m]) (auto intro: exI [of _ "[]"])
  next
    case (Suc d)
    show ?case
    proof (cases "G m")
      case False
      then obtain ys where "Q (Suc m) (x # xs @ ys)" using step [OF Suc.prems(1)] by auto
      from Suc.IH [OF this] Suc.prems(2) show ?thesis by (auto dest: Suc_leD)
    qed (use Suc.prems(1) in \<open>auto intro!: exI [of _ m] exI [of _ "[]"]\<close>)
  qed
  have turns: "\<exists>k \<ge> m. G k" if m: "Q m (x # xs)" for m x xs
  proof (rule ccontr)
    assume no: "\<not> ?thesis"
    have "\<exists>ys. Q k (x # xs @ ys)" if "k \<ge> m" for k
      using that
    proof (induction k rule: nat_induct_at_least)
      case base
      then show ?case using m by (intro exI [of _ "[]"]) simp
    next
      case (Suc k)
      then show ?case using step no by fastforce
    qed
    then have "\<forall>k \<ge> m. lf_threads (\<sigma> k) GatewayThread = Running" by (auto simp: Q_def)
    then show False using f no unfolding fair_threads_def weakly_fair_def is_gateway_turn_def G_def by blast
  qed
  have "\<exists>m \<ge> n. G m \<and> (\<exists>ys. Q m (ord # ys))" if "Q n (us @ ord # vs)" for n us vs
    using that
  proof (induction us arbitrary: n vs)
    case Nil
    then show ?case using turns [of n ord vs] until [of n ord vs] by (fastforce simp: le_iff_add)
  next
    case (Cons u us)
    obtain d where "G (n + d)" using turns [of n u] Cons.prems by (auto simp: le_iff_add)
    then obtain k ys where k: "k \<ge> n" "G k" "Q k (u # (us @ ord # vs) @ ys)" using until [of n u "us @ ord # vs" d] Cons.prems by auto
    obtain zs where "Q (Suc k) (us @ ord # vs @ ys @ zs)" using step [OF k(3)] k(2) by auto
    from Cons.IH [OF this] show ?case using k(1) by (meson Suc_leD le_trans)
  qed
  then show ?thesis using assms(4,5) unfolding Q_def G_def by blast
qed

section \<open>Property\<close>

text \<open>C5. No order waits forever: on every fair behaviour of the engine, an order that is in the queue at a moment when the gateway's
  thread runs is later at the head of the queue when that thread takes a turn. This turn takes the order out of the queue and
  settles it: either the broker acknowledges it, its id is recorded with the tracker and the reserved
  quantity stays reserved; or it is not placed (the order before it could not be cancelled, the broker refused it, the client
  threw) and its reserved quantity is released. Consumers may go on queueing orders, and a shutdown may begin, in the meantime.\<close>

theorem queued_order_handled:
  assumes "new_TradingEngine H no_orders sink creds config rest recon = Inr E0"
    and "validateConfig config = None" and "in_i64 (rc_max_position_per_symbol (cfg_risk config))"
    and "\<forall>symb \<in> set (tc_symbols (cfg_trading config)). valid_key (symbolToKey symb)"
    and "length (tc_symbols (cfg_trading config)) \<le> kMaxSymbols"
    and "text_env X" and "\<sigma> 0 = constructed E0" and "behaves V X \<sigma> \<alpha>" and "fair_threads V \<sigma> \<alpha>"
    and "lf_threads (\<sigma> n) GatewayThread = Running" and "queue_rep (te_queue (lf_engine (\<sigma> n))) xs" and "ord \<in> set xs"
  shows "\<exists>m \<ge> n. \<exists>stamps ys q gw. \<alpha> m = Some (Turn (GatewayTurn stamps)) \<and> queue_rep (te_queue (lf_engine (\<sigma> m))) (ord # ys) \<and>
    handle_order (gateway_env_of X) stamps ord (gateway_of (lf_engine (\<sigma> m))) = Some gw \<and> queue_rep q ys \<and>
    lf_engine (\<sigma> (Suc m)) = put_gateway gw ((lf_engine (\<sigma> m))\<lparr>te_queue := q\<rparr>) \<and>
    (case submitted (gateway_env_of X) stamps ord (gateway_of (lf_engine (\<sigma> m))) of
       Some i \<Rightarrow> gw_pm gw = te_pm (lf_engine (\<sigma> m)) \<and>
         gw_tracker gw = Some (recordOrder (ee_slots X) \<lparr>sk_value = ord_symbol ord\<rparr> (ord_side ord) i (te_tracker (lf_engine (\<sigma> m))))
     | None \<Rightarrow> onOrderCancelled ord (te_pm (lf_engine (\<sigma> m))) = Some (gw_pm gw))"
proof -
  have "valid_config config" using assms(2) by (simp add: validateConfig_iff)
  note e = constructed_engine_inv [OF assms(1) this assms(3-5)]
  have inv: "\<forall>m. life_inv (\<sigma> m)" using lives_inv [OF behaves_lives [OF assms(8,7)] assms(6) e(1,3)] by blast
  obtain us vs where "xs = us @ ord # vs" using assms(12) by (meson split_list)
  then obtain m stamps ys where m: "m \<ge> n" "\<alpha> m = Some (Turn (GatewayTurn stamps))" "queue_rep (te_queue (lf_engine (\<sigma> m))) (ord # ys)"
    using order_reached [OF assms(8,9) inv assms(10)] assms(11) by blast
  let ?E = "lf_engine (\<sigma> m)"
  obtain q where q: "wait_and_pop_turn (Some (te_is_running ?E)) (te_queue ?E) = Some (Popped ord, q)" "queue_rep q ys"
    using wait_and_pop_refines [OF m(3), of "Some (te_is_running ?E)"] by auto
  have "life_exec V X (Turn (GatewayTurn stamps)) (\<sigma> m) = Some (\<sigma> (Suc m))" using m(2) by (cases rule: behaves_step [OF assms(8), of m]) auto
  then obtain E where E: "engine_exec X (GatewayTurn stamps) ?E = Some E" "\<sigma> (Suc m) = (\<sigma> m)\<lparr>lf_engine := E\<rparr>"
    by (auto simp: thread_step_def turn_exec_def simp del: engine_exec.simps split: if_splits)
  then obtain gw where gw: "handle_order (gateway_env_of X) stamps ord (gateway_of ?E) = Some gw" "E = put_gateway gw (?E\<lparr>te_queue := q\<rparr>)"
    using q(1) by auto
  have "case submitted (gateway_env_of X) stamps ord (gateway_of ?E) of
      Some i \<Rightarrow> gw_pm gw = te_pm ?E \<and>
        gw_tracker gw = Some (recordOrder (ee_slots X) \<lparr>sk_value = ord_symbol ord\<rparr> (ord_side ord) i (te_tracker ?E))
    | None \<Rightarrow> onOrderCancelled ord (te_pm ?E) = Some (gw_pm gw)"
    using handle_order_submitted [OF gw(1)] by (simp add: gateway_of_def split: option.splits)
  then show ?thesis using m q(2) E(2) gw by (intro exI [of _ m] conjI exI [of _ stamps] exI [of _ ys] exI [of _ q] exI [of _ gw]) simp_all
qed

section \<open>A concrete behaviour\<close>

lemma proceeds_run:
  assumes "proceeds V X ok s s'"
  shows "\<exists>acts. run_list (life_exec V X) acts s = Some s' \<and> (\<forall>a \<in> set acts. good_life a)"
  using assms
proof (induction rule: converse_rtranclp_induct)
  case base
  then show ?case by (intro exI [of _ "[]"]) simp
next
  case (step s s1)
  then obtain a acts where "good_life a" "life_exec V X a s = Some s1" "run_list (life_exec V X) acts s1 = Some s'" "\<forall>a \<in> set acts. good_life a"
    by (auto simp: life_step_def simp del: life_exec.simps)
  then show ?case by (intro exI [of _ "a # acts"]) (simp del: life_exec.simps)
qed

text \<open>An order is queued, then the signal arrives.\<close>

theorem queued_order_handled_witness:
  "\<exists>(E0 :: demo_engine) \<sigma> \<alpha> ord m stamps ys. new_TradingEngine demo_hdr [] [] (Some ''k'', Some ''s'') one_symbol () None = Inr E0 \<and>
    \<sigma> 0 = constructed E0 \<and> behaves demo_life demo_engine_env \<sigma> \<alpha> \<and> fair_threads demo_life \<sigma> \<alpha> \<and>
    lf_threads (\<sigma> 7) GatewayThread = Running \<and> queue_rep (te_queue (lf_engine (\<sigma> 7))) [ord] \<and> \<alpha> 7 = Some (Turn Signal) \<and>
    7 \<le> m \<and> \<alpha> m = Some (Turn (GatewayTurn stamps)) \<and> queue_rep (te_queue (lf_engine (\<sigma> m))) (ord # ys)"
proof -
  obtain E0 :: demo_engine where E0: "new_TradingEngine demo_hdr [] [] (Some ''k'', Some ''s'') one_symbol () None = Inr E0"
    "te_is_running E0" "te_symbols E0 = [''AAPL'']" "te_strategies E0 = []" "te_queue E0 = new_Queue zero_Order"
    "te_pm E0 = demo_book" "te_cooldown E0 = cooldown_registerAll [''AAPL''] (new_OrderCooldown 100000000)"
    "te_risk E0 = \<lparr>rm_max_position_per_symbol = 1000, rm_max_order_value = Fin 10000\<rparr>" by (rule demo_new)
  let ?run = "run_list (life_exec demo_life demo_engine_env)" and ?E1 = "E0\<lparr>te_strategies := [default_strategy]\<rparr>"
  obtain s1 where s1: "?run (replicate 6 (Main True)) (constructed E0) = Some s1" "lf_engine s1 = ?E1" "lf_is_running_ptr s1"
    "lf_threads s1 = (\<lambda>_. NotJoinable)(ListenerThread := Running, SourceThread := Running, GatewayThread := Running, ConsumerThread 0 := Running)"
    using started_run [OF E0(2,4,3)] by blast
  obtain E2 ord where E2: "turn_exec demo_engine_env (ConsumerTurn 0 late_turn) ?E1 = Some E2" "queue_rep (te_queue E2) [ord]"
    using late_turn_queues [of ?E1] E0 by auto
  let ?s2 = "s1\<lparr>lf_engine := E2\<rparr>" and ?s3 = "s1\<lparr>lf_engine := stop E2\<rparr>"
  have steps: "life_exec demo_life demo_engine_env (Turn (ConsumerTurn 0 late_turn)) s1 = Some ?s2"
    "life_exec demo_life demo_engine_env (Turn Signal) ?s2 = Some ?s3"
    using E2(1) s1(2-4) by (simp_all add: thread_step_def) (simp add: turn_exec_def)
  let ?acts = "replicate 6 (Main True) @ [Turn (ConsumerTurn 0 late_turn), Turn Signal]"
  have run3: "?run ?acts (constructed E0) = Some ?s3" unfolding run_list_append s1(1) using steps by (simp del: life_exec.simps)
  have good: "\<forall>a \<in> set ?acts. good_life a" by (simp add: late_turn_good)
  have "valid_config one_symbol" using one_symbol_valid(1) by (simp add: validateConfig_iff)
  note e = constructed_engine_inv [OF E0(1) this one_symbol_valid(2-4)]
  have inv3: "life_inv ?s3" using lives_inv [OF lives_run [OF lives.born good run3] demo_engine_text e(1,3)] .
  then obtain s where s: "proceeds demo_life demo_engine_env True ?s3 s" "lf_pc s = Destroyed"
    using stopped_proceeds [OF demo_engine_text, of ?s3 demo_life True] by (auto simp: stop_def)
  then obtain rest where rest: "?run rest ?s3 = Some s" "\<forall>a \<in> set rest. good_life a" using proceeds_run by blast
  have run: "?run (?acts @ rest) (constructed E0) = Some s" unfolding run_list_append [of _ ?acts] run3 using rest(1) by (simp del: life_exec.simps)
  have "\<forall>a \<in> set (?acts @ rest). good_life a" using good rest(2) by auto
  from ended_behaviour [OF run this s(2) proceeds_inv [OF s(1) demo_engine_text inv3]]
  obtain \<sigma> \<alpha> where b: "\<sigma> 0 = constructed E0" "behaves demo_life demo_engine_env \<sigma> \<alpha>" "fair_threads demo_life \<sigma> \<alpha>"
    "\<And>n. ?run (take n (?acts @ rest)) (constructed E0) = Some (\<sigma> n)" "\<And>n. \<alpha> n = (if n < length (?acts @ rest) then Some ((?acts @ rest) ! n) else None)" by blast
  have "?run (replicate 6 (Main True) @ [Turn (ConsumerTurn 0 late_turn)]) (constructed E0) = Some (\<sigma> 7)" using b(4) [of 7] by (simp add: eval_nat_numeral)
  then have s7: "\<sigma> 7 = ?s2" unfolding run_list_append s1(1) using steps(1) by (simp del: life_exec.simps)
  have a7: "\<alpha> 7 = Some (Turn Signal)" using b(5) [of 7] by (simp add: nth_append)
  have q: "lf_threads (\<sigma> 7) GatewayThread = Running" "queue_rep (te_queue (lf_engine (\<sigma> 7))) [ord]" using s7 s1(4) E2(2) by simp_all
  from queued_order_handled [OF E0(1) one_symbol_valid demo_engine_text b(1-3) q, of ord] obtain m stamps ys
    where "7 \<le> m" "\<alpha> m = Some (Turn (GatewayTurn stamps))" "queue_rep (te_queue (lf_engine (\<sigma> m))) (ord # ys)" by auto
  then show ?thesis using E0(1) b(1-3) q a7
    by (intro exI [of _ E0] exI [of _ \<sigma>] exI [of _ \<alpha>] exI [of _ ord] exI [of _ m] exI [of _ stamps] exI [of _ ys]) simp
qed

end
