(* ===== verification/Fuzz_Targets.thy ===== *)
theory Fuzz_Targets
  imports Trading_Engine
begin

text \<open>
  The entry points of the fuzzers (\<open>fuzz/fuzz_risk_manager.cpp\<close>, \<open>fuzz/fuzz_msgpack_decoder.cpp\<close>,
  \<open>fuzz/fuzz_trade_update_parser.cpp\<close>), built with the undefined-behaviour sanitizer: what a fuzzer samples is
  settled here for every input.
\<close>

section \<open>Entry points\<close>

datatype fuzz_result = Return0 | UndefinedBehaviour

text \<open>An \<open>Order\<close> as the copied bytes give it: \<open>OrderSide\<close> and \<open>OrderType\<close> have the underlying type \<open>uint8_t\<close>, so that every
  byte is a value of them, named or not.\<close>

record raw_Order =
  raw_id :: u64
  raw_symbol :: string
  raw_quantity :: i64
  raw_price :: u64
  raw_side :: nat
  raw_type :: nat
  raw_arrivedAt :: u64
  raw_queuedAt :: u64

text \<open>The copy of 64 bytes (little-endian host): six bytes of padding follow the two enumerators.\<close>

definition order_of_bytes :: "string \<Rightarrow> raw_Order" where
  "order_of_bytes bs =
     \<lparr>raw_id = word_at 0 bs, raw_symbol = take 8 (drop 8 bs), raw_quantity = u64_to_i64 (word_at 16 bs), raw_price = word_at 24 bs,
      raw_side = of_char (bs ! 32), raw_type = of_char (bs ! 33), raw_arrivedAt = word_at 40 bs, raw_queuedAt = word_at 48 bs\<rparr>"

text \<open>The order with the side that a comparison takes it for. \<open>onOrderSent\<close> compares with \<open>Sell\<close>, \<open>onNewOrder\<close> with
  \<open>Buy\<close>: a side that is neither is reserved as a buy after its exposure was checked as a sell's.\<close>

definition as_Order :: "OrderSide \<Rightarrow> raw_Order \<Rightarrow> Order" where
  "as_Order side raw = \<lparr>ord_id = raw_id raw, ord_symbol = raw_symbol raw, ord_quantity = raw_quantity raw, ord_price = raw_price raw,
     ord_side = side, ord_type = (if raw_type raw = 0 then Market else Limit), ord_arrivedAt = raw_arrivedAt raw, ord_queuedAt = raw_queuedAt raw\<rparr>"

definition raw_onOrderSent :: "raw_Order \<Rightarrow> PositionManager \<Rightarrow> PositionManager option" where
  "raw_onOrderSent raw pm = onOrderSent (as_Order (if raw_side raw = 1 then Sell else Buy) raw) pm"

definition raw_onNewOrder :: "RiskManager \<Rightarrow> u64 \<Rightarrow> raw_Order \<Rightarrow> risk_objects \<Rightarrow> (bool \<times> risk_objects) option" where
  "raw_onNewOrder rm now raw objs =
     (let symbol = buf_view (raw_symbol raw);
          (cooldown, position_manager) = objs;
          (pass, cooldown) = passes_cooldown (raw_symbol raw) now cooldown
      in if \<not> pass then Some (False, cooldown, position_manager)
         else case position_manager of
           None \<Rightarrow> Some (False, cooldown, None)
         | Some pm \<Rightarrow>
             if i64_to_u64 (rm_max_position_per_symbol rm) < safeAbs (raw_quantity raw)
             then Some (False, cooldown, Some pm)
             else do {
               total_exposure \<leftarrow> getTotalExposure symbol pm;
               new_exposure \<leftarrow> (if raw_side raw = 0 then i64_add total_exposure (raw_quantity raw)
                                else i64_sub total_exposure (raw_quantity raw));
               (if i64_to_u64 (rm_max_position_per_symbol rm) < safeAbs new_exposure
                then Some (False, cooldown, Some pm)
                else if exceeds_order_value rm (as_Order Buy raw) then Some (False, cooldown, Some pm)
                else do {
                  pm \<leftarrow> raw_onOrderSent raw pm;
                  Some (True, cooldown, Some pm)
                })
             })"

text \<open>On the named enumerators it is the gate of \<open>Risk_Manager\<close>.\<close>

lemma as_Order_sel [simp]:
  "ord_symbol (as_Order side raw) = raw_symbol raw" "ord_quantity (as_Order side raw) = raw_quantity raw"
  "ord_price (as_Order side raw) = raw_price raw" "ord_side (as_Order side raw) = side"
  by (simp_all add: as_Order_def)

lemma raw_onNewOrder_named:
  assumes "raw_side raw \<le> 1"
  shows "raw_onNewOrder rm now raw objs = onNewOrder rm now (as_Order (if raw_side raw = 1 then Sell else Buy) raw) objs"
proof -
  have "exceeds_order_value rm (as_Order Sell raw) = exceeds_order_value rm (as_Order Buy raw)"
    by (simp add: exceeds_order_value_def)
  moreover have "raw_side raw = 0 \<or> raw_side raw = 1" using assms by linarith
  ultimately show ?thesis
    by (elim disjE) (simp_all add: raw_onNewOrder_def onNewOrder_def raw_onOrderSent_def cong: if_cong option.case_cong prod.case_cong)
qed

text \<open>The default arguments of the constructor of \<open>RiskManager\<close>.\<close>

definition default_RiskManager :: RiskManager where
  "default_RiskManager = new_RiskManager 1000 (Fin 10000)"

definition fuzz_risk_manager :: "string \<Rightarrow> fuzz_result" where
  "fuzz_risk_manager data =
     (if length data < 64 then Return0
      else case raw_onNewOrder default_RiskManager 0 (order_of_bytes data) (None, Some new_PositionManager) of
             None \<Rightarrow> UndefinedBehaviour
           | Some _ \<Rightarrow> Return0)"

definition fuzz_msgpack_decoder :: "(string \<Rightarrow> sax list) \<Rightarrow> string \<Rightarrow> fuzz_result" where
  "fuzz_msgpack_decoder parse data =
     (case decodeRaw parse data 12345 \<lparr>md_event_buffer = zero_MarketEvent, md_on_auth_success = True\<rparr> of
        None \<Rightarrow> UndefinedBehaviour
      | Some _ \<Rightarrow> Return0)"

definition fuzz_trade_update_parser :: "'j json_api \<Rightarrow> string \<Rightarrow> fuzz_result" where
  "fuzz_trade_update_parser J json_str =
     (case js_parse_or_throw J json_str of
        None \<Rightarrow> Return0
      | Some parsed \<Rightarrow>
          (case parseTradingUpdate J parsed of
             None \<Rightarrow> UndefinedBehaviour
           | Some update \<Rightarrow> Return0))"

section \<open>Every input\<close>

lemma fresh_exposure: "getTotalExposure symbol new_PositionManager = Some 0"
proof (cases "find_entry (symbolToKey symbol) new_PositionManager")
  case None
  then show ?thesis by (simp add: getTotalExposure_def)
next
  case (Some j)
  then have "pm_table new_PositionManager ! j = empty_Entry" using find_entry_less [OF pm_inv_new] by (simp add: new_PositionManager_def)
  then show ?thesis using Some by (simp add: getTotalExposure_def empty_Entry_def i64_add_def chk_i64_def in_i64_def)
qed

text \<open>The gate on a fresh book is defined for every 64-bit quantity and every side, whatever bytes the symbol has.\<close>

lemma fresh_gate_defined:
  assumes q: "in_i64 (raw_quantity raw)" and m: "0 \<le> rm_max_position_per_symbol rm" "rm_max_position_per_symbol rm < 2 ^ 63"
  shows "raw_onNewOrder rm now raw (None, Some new_PositionManager) \<noteq> None"
proof (cases "i64_to_u64 (rm_max_position_per_symbol rm) < safeAbs (raw_quantity raw)")
  case True
  then show ?thesis by (simp add: raw_onNewOrder_def passes_cooldown_def del: not_None_eq)
next
  case False
  let ?ord = "as_Order (if raw_side raw = 1 then Sell else Buy) raw"
  have "in_i64 (rm_max_position_per_symbol rm)" using m by (simp add: in_i64_def)
  then have "\<bar>raw_quantity raw\<bar> \<le> rm_max_position_per_symbol rm" using False safeAbs_exceeds [OF q m(1)] by simp
  then have n: "in_i64 (- raw_quantity raw)" using m by (auto simp: in_i64_def)
  have "ord_quantity ?ord = raw_quantity raw" by (simp add: as_Order_def)
  then obtain pm where "raw_onOrderSent raw new_PositionManager = Some pm"
    using order_ops_total(1) [of ?ord] n q by (auto simp: raw_onOrderSent_def)
  then show ?thesis using False q n by (simp add: raw_onNewOrder_def passes_cooldown_def fresh_exposure i64_add_def i64_sub_def chk_i64_def del: not_None_eq)
qed

text \<open>C35. The fuzz targets, settled for every input: no sequence of bytes, those with a side or type that is no enumerator included, makes
  the risk check overflow on a fresh book (the extreme quantities are refused before any signed arithmetic, see
  \<open>safeAbs\<close>), and no frame makes the decoder
  convert out of range. The trade update parser can overflow, and only where the two quantities of a cancelled order
  differ by more than \<open>int64_t\<close> holds.\<close>

theorem fuzz_targets_defined:
  "fuzz_risk_manager data \<noteq> UndefinedBehaviour \<and> fuzz_msgpack_decoder parse data \<noteq> UndefinedBehaviour \<and>
   (fuzz_trade_update_parser J data = UndefinedBehaviour \<longrightarrow>
      (\<exists>parsed. js_parse_or_throw J data = Some parsed \<and>
        \<not> in_i64 (qty_or_zero J (order_in J parsed) ''qty'' - qty_or_zero J (order_in J parsed) ''filled_qty'')))"
proof -
  have "raw_onNewOrder default_RiskManager 0 (order_of_bytes data) (None, Some new_PositionManager) \<noteq> None"
    by (rule fresh_gate_defined) (simp_all add: order_of_bytes_def default_RiskManager_def new_RiskManager_def)
  then have "fuzz_risk_manager data \<noteq> UndefinedBehaviour" by (auto simp: fuzz_risk_manager_def)
  moreover have "fuzz_msgpack_decoder parse data \<noteq> UndefinedBehaviour"
    using decoded_outs [of parse data 12345 "\<lparr>md_event_buffer = zero_MarketEvent, md_on_auth_success = True\<rparr>"]
    by (auto simp: fuzz_msgpack_decoder_def)
  moreover have "\<not> in_i64 (qty_or_zero J (order_in J parsed) ''qty'' - qty_or_zero J (order_in J parsed) ''filled_qty'')"
    if "parseTradingUpdate J parsed = None" for parsed using that by (rule parse_overflows)
  ultimately show ?thesis by (auto simp: fuzz_trade_update_parser_def split: option.splits)
qed

text \<open>The overflow is reachable.\<close>

theorem fuzz_targets_defined_witness:
  "fuzz_trade_update_parser (sample_api overflowing_cancel) [] = UndefinedBehaviour \<and>
   (\<exists>parsed. js_parse_or_throw (sample_api overflowing_cancel) [] = Some parsed \<and>
      \<not> in_i64 (qty_or_zero (sample_api overflowing_cancel) (order_in (sample_api overflowing_cancel) parsed) ''qty'' -
        qty_or_zero (sample_api overflowing_cancel) (order_in (sample_api overflowing_cancel) parsed) ''filled_qty''))"
proof -
  have "js_parse_or_throw (sample_api overflowing_cancel) [] = Some overflowing_cancel" by (simp add: sample_api_def)
  then have u: "fuzz_trade_update_parser (sample_api overflowing_cancel) [] = UndefinedBehaviour"
    using cancel_overflows by (simp add: fuzz_trade_update_parser_def)
  from fuzz_targets_defined [of "[]" _ "sample_api overflowing_cancel"] u show ?thesis by blast
qed

end
