(* ===== verification/Spec2Isabelle.thy ===== *)
theory Spec2Isabelle
  imports Trading_Main Fill_Paging Position_Threads Session_Time Latency_Report Runtime_Support Queue_Liveness Fuzz_Targets
begin

text \<open>
  A verification development of an algorithmic trading engine in C++ (headers in \<open>src/include\<close>, sources in
  \<open>src/src\<close>): market data arrives on a websocket, a strategy per symbol answers trades with limit orders, a
  risk gate approves them, a gateway sends them to the broker over REST, and a second websocket reports the
  fills, from which positions and profit are kept.

  \<^bold>\<open>How the parts interact.\<close> \<open>main\<close> reads the command line and the configuration and constructs the
  \<open>TradingEngine\<close>. Its market data pipeline (source, decoder, sink) publishes each decoded event on a
  ZeroMQ socket. One \<open>MarketEventConsumer\<close> thread per symbol receives them, asks its strategy for an order and
  passes it to the \<open>RiskManager\<close>, which consults the \<open>OrderCooldown\<close> and the \<open>PositionManager\<close> and books an
  approved order as pending. Approved orders go through a lock-free queue to the thread of the
  \<open>OrderGateway\<close>, which first cancels the open order of the same symbol and side (known to the
  \<open>PendingOrderTracker\<close>), then places the new one through the \<open>AlpacaRestClient\<close> under its \<open>RateLimiter\<close>, and
  releases the pending quantity when it cannot. The \<open>AlpacaFillListener\<close> books fills and cancellations, and
  after a reconnect asks the broker for the orders it may have missed. The \<open>LatencyTracker\<close> is told about all of it.

  \<^bold>\<open>Theories, sources and what is shown.\<close>
  \<^item> \<open>Prelude\<close>: words and their integers, checked signed arithmetic (\<^const>\<open>None\<close> is undefined behaviour),
    \<open>run_list\<close>, byte buffers. \<open>Floats\<close>: IEEE formats over the rationals, with rounding to nearest even, the
    error of rounding, conversions. \<open>Trading_Types\<close>: \<open>Order.hpp\<close>, \<open>Fill.hpp\<close>, \<open>MarketEvent.hpp\<close>, symbol
    buffers as strings of 8 characters, little-endian bytes, websocket messages.
  \<^item> \<open>Position_Manager\<close> (\<open>PositionManager.hpp/.cpp\<close>): the table with its probing, every operation; the table
    invariant and what each operation does to each key. \<open>Position_Accounting\<close>: the arithmetic of a fill is
    defined and exact under bounds. \<open>Position_Book\<close>: the locale \<open>position_book\<close> (lookup laws of a book of
    quantities) and its interpretation on the table; quantities of any run, profit of any sequence of fills,
    exposure, exact scaling of prices. \<open>Position_Threads\<close>: the same member functions as sequences of atomic
    accesses of any number of threads, with the compare-exchange of an insertion: one entry per symbol, no update
    lost, sequential accounting when one thread books the fills, and what a read of the exposure misses of the fills
    booked between its two loads.
  \<^item> \<open>Order_Cooldown\<close> (\<open>OrderCooldown.hpp/.cpp\<close>): the slots as a map from symbols to times, the spacing of
    accepted orders. \<open>Risk_Manager\<close> (\<open>RiskManager.hpp/.cpp\<close>): the decision on every branch, the limit along any
    run, and the exposure of twice the limit that a cancellation can leave.
  \<^item> \<open>Pending_Order_Tracker\<close> (\<open>PendingOrderTracker.hpp/.cpp\<close>, \<open>SymbolKey.hpp\<close>): refinement of a partial map; the
    concurrent hash map is a parameter with its laws as a locale.
  \<^item> \<open>Mpsc_Queue\<close> (\<open>LockFreeMPSCQueue.hpp\<close>): nodes on an explicit heap. The member functions refine a queue
    (locale and interpretation), and the atomic accesses of any number of producers and one consumer,
    interleaved under sequential consistency, are a step relation: first in first out, no access to a freed
    node, nothing left behind at shutdown, the destructor frees everything.
  \<^item> \<open>Rate_Limiter\<close> (\<open>RateLimiter.hpp/.cpp\<close>), \<open>Text_Numbers\<close> (decimal printing and reading), \<open>Rest_Client\<close>
    (\<open>IRestClient.hpp\<close>, \<open>AlpacaRestClient.hpp/.cpp\<close>): throttling windows, the wait that ends, payload round
    trip, silence after a 429. \<open>Latency_Tracker\<close> (\<open>LatencyTracker.hpp/.cpp\<close>): round trips recorded once;
    \<open>Latency_Report\<close>: the files of \<open>dump\<close> and the distance of a printed latency from the recorded one.
    \<open>Runtime_Support\<close> (\<open>Logging.hpp/.cpp\<close>, \<open>nowNanos\<close>): every logger a component looks up exists; the clock is exact.
  \<^item> \<open>Order_Gateway\<close> (\<open>OrderGateway.hpp/.cpp\<close>): the requests of an order, the release of a failed one, and that
    \<open>run\<close> handles every queued order and returns.
  \<^item> \<open>Fill_Parser\<close>, \<open>Fill_Listener\<close>, \<open>Fill_Reconciliation\<close>, \<open>Fill_Paging\<close>, \<open>Fill_Booking\<close> (\<open>AlpacaFillListener.hpp/.cpp\<close>): the
    parser of trade updates, the session, the reconciliation; fills are counted exactly once under the stated
    order of messages, and twice for a late one; reconciling again changes nothing and always ends; the tables are bounded;
    every message is a sequence of operations on the book. \<open>Session_Time\<close>: the text of the session's start, the
    calendar included, and the time read back from it.
  \<^item> \<open>Msgpack_Decoder\<close> (\<open>AlpacaMsgpackDecoder.hpp/.cpp\<close>) and \<open>Market_Decoding\<close>: the visitor and its reference
    reading of a frame; well-formed events from any input; timestamps and prices.
  \<^item> \<open>Market_Wire\<close> (\<open>ZmqMarketEventSink.hpp/.cpp\<close>, the bytes of an event), \<open>Market_Pipeline\<close>
    (\<open>AlpacaWebSocketSource.hpp/.cpp\<close>, \<open>MarketDataPipeline.hpp\<close>): delivery of events, subscription after login.
  \<^item> \<open>Market_Making\<close> (\<open>Strategy.hpp\<close> as the locale \<open>strategy_like\<close>, \<open>SimpleMarketMakingStrategy.hpp\<close>),
    \<open>Event_Consumer\<close> (\<open>MarketEventConsumer.hpp\<close>, generic as the template is), \<open>Order_Flow\<close>: the locales
    \<open>order_sink\<close> and \<open>order_flow\<close> put a strategy, the risk gate and an order callback together; interpreted on the
    engine's own parts they give that nothing is queued that is not reserved, and the limit along a consumer's run.
  \<^item> \<open>App_Config\<close> (\<open>AppConfig.hpp/.cpp\<close>, \<open>main.cpp\<close>): loading, validation, the command line.
  \<^item> \<open>Trading_Engine\<close> (\<open>TradingEngine.hpp/.cpp\<close>): construction, launch, and the interleaving of the threads' turns
    with the invariant of the shared state; the unused strategy section, the symbol that fails late.
  \<^item> \<open>Engine_Lifecycle\<close> (\<open>run\<close>, \<open>launch_gateway\<close>, \<open>launch_consumers\<close>, \<open>main_loop\<close>, \<open>shutdown\<close> and the destructor in
    \<open>TradingEngine.cpp\<close>, \<open>start\<close> and \<open>stop\<close> of the websocket clients and of the pipeline, \<open>ThreadPinning.cpp\<close>): the main thread as a program counter, the other threads started, running, ended and joined, interleaved
    with the steps of \<open>Trading_Engine\<close>, an exception wherever a ZeroMQ call of the main thread can throw, and a signal at any time.
    \<open>Engine_Shutdown\<close>: no thread is left, the shutdown ends from every state, an order can be left in the queue.
    \<open>Trading_Main\<close> (\<open>main.cpp\<close>): the whole program and its exit code.
  \<^item> \<open>Broker_Orders\<close>, \<open>Position_Limit\<close>: the engine in a closed loop with the broker. The open orders, with what the engine
    has not been told about each, and the ids of the closed ones are kept beside the steps of \<open>Trading_Engine\<close> and
    related to the position table, the queue and the two tables of the listener. The broker is constrained
    in this: ids are its own and new, fills do not exceed what is left and the last one is called \<open>fill\<close>, a cancellation is for
    the rest, what it lists after a reconnect is true of the orders, these fit the tables (4096), and a fill that was
    counted so is not delivered on the stream afterwards. Then, with whole operations as steps, shares held
    plus shares reserved stay within the limit, and the reserved ones are exactly those queued or not yet reported.
  \<^item> \<open>Fair_Shutdown\<close>, \<open>Queue_Liveness\<close>: infinite behaviours of the life of an engine under weak fairness. Once the flag is
    cleared the engine is destroyed; an order queued while the gateway's thread runs is placed or released.
  \<^item> \<open>Fuzz_Targets\<close> (\<open>src/fuzz\<close>): the entry points of the fuzzers, settled for every input, sides and types that are no
    enumerators included, with the one overflow an input can cause.
  \<^item> This theory: the two scalings of a price, compared.

  \<^bold>\<open>Conventions.\<close> \<open>uint64_t\<close> and \<open>uint32_t\<close> are words; \<open>int64_t\<close> is an integer in range, with plain signed arithmetic
  checked (overflow is \<^const>\<open>None\<close>, undefined) and atomic arithmetic wrapped by \<open>wrap_i64\<close>. A pointer that may be null is an
  option. Exceptions and error results are values of a sum or option type. Clock readings, and what sockets
  and the HTTP session return, are arguments. The JSON and MessagePack libraries, the histogram, the concurrent map
  and the allocator are parameters; where a property relies on a law of one, the law is a named hypothesis or
  the assumption of a locale, and a witness gives an instance.

  \<^bold>\<open>Bounds and fuel.\<close> Probing visits the 256 slots of the table once. The wait of the rate limiter is given 601 polls of
  100 milliseconds, enough for its window of 60 seconds, and is proved to return. The pages of a reconciliation
  are fuel, a parameter; running out of it is \<^const>\<open>None\<close>, and \<open>Fill_Paging\<close> shows that one page per order of the
  broker's history and one more are enough.
  The loop of a consumer is given the list of its turns. The life of an engine is a relation, without a bound.

  \<^bold>\<open>Not modelled.\<close> Weak memory orders: interleavings are sequentially consistent. The engine's interleavings take a whole
  operation of a component as one step; the finer ones are those of the queue and of the position table. The URLs and
  reconnect intervals a websocket client is configured with, TCP options, the text of log lines other than those of
  the report, the branches for other systems than Linux outside thread pinning. Memory exhaustion, and
  \<open>std::thread\<close> failing to start. A receive of a consumer that fails otherwise than by its timeout: the exception leaves the
  thread's function and terminates the program. In the closed loop, a fill between the two loads of a risk check
  (\<open>Position_Threads\<close>) and a fill that the reconciliation has counted and the stream delivers afterwards
  (\<open>Fill_Reconciliation\<close>, it is booked twice) are left out.
\<close>

section \<open>Prices on their two ways through the engine\<close>

lemma ilog2_unique:
  assumes "pow2 e \<le> r" and "r < pow2 (e + 1)"
  shows "ilog2 r = e"
proof -
  have "0 < r" using assms(1) pow2_pos [of e] by linarith
  note b = ilog2_bounds [OF this]
  have "e < ilog2 r + 1" by (rule pow2_less_cancel) (use assms(1) b(2) in linarith)
  moreover have "ilog2 r < e + 1" by (rule pow2_less_cancel) (use assms(2) b(1) in linarith)
  ultimately show ?thesis by simp
qed

text \<open>Rounding to \<open>double\<close> in the binade \<open>[2\<^sup>e, 2\<^sup>e\<^sup>+\<^sup>1)\<close>, the nearest integer multiple of the last place being \<open>n\<close>.\<close>

lemma binary64_round_in:
  assumes "pow2 e \<le> r" and "r < pow2 (e + 1)" and "- 1022 \<le> e" and "e \<le> 60"
    and "\<bar>r / pow2 (e - 52) - of_int n\<bar> < 1 / 2" and "of_int n * pow2 (e - 52) \<le> 2 ^ 62" and "0 \<le> n"
  shows "fp_round binary64 r = Fin (of_int n * pow2 (e - 52))"
proof -
  have r: "0 < r" using assms(1) pow2_pos [of e] by linarith
  have f: "fexp 53 (- 1074) r = e - 52" using ilog2_unique [OF assms(1,2)] r assms(3) by (simp add: fexp_def)
  have "\<bar>of_int (round_even (r / pow2 (e - 52))) - of_int n :: rat\<bar> < 1"
    using round_even_err [of "r / pow2 (e - 52)"] assms(5) by linarith
  then have "\<bar>round_even (r / pow2 (e - 52)) - n\<bar> < 1" by (simp flip: of_int_diff of_int_abs)
  then have "round_even (r / pow2 (e - 52)) = n" by simp
  then have s: "fround 53 (- 1074) r = of_int n * pow2 (e - 52)" using r by (simp add: fround_def f)
  have "(2 :: rat) ^ 62 < pow2 1024" using pow2_strict_mono [of 62 1024] by (simp add: pow2_nat [of 62, simplified])
  moreover have "0 \<le> of_int n * pow2 (e - 52)" using assms(7) by simp
  ultimately have "\<bar>fround 53 (- 1074) r\<bar> < pow2 1024" using assms(6) s by linarith
  then show ?thesis by (simp add: fp_round_def s)
qed

text \<open>Two ways of scaling a price: a price of 1.001 dollars, the same \<open>double\<close>, is 10009 ticks for the decoder of market data, which
  truncates, and 10010 ticks for the position manager, which rounds.\<close>

theorem price_scaling_differs:
  "fp_to_u64 (scale_raw (tick_price 10010)) = Some 10009 \<and> scaled_price (tick_price 10010) = Some 10010"
proof -
  have p: "tick_price 10010 = Fin (of_int 4508103226997866 * pow2 (0 - 52))"
    unfolding tick_price_def by (rule binary64_round_in) (simp_all add: pow2_def)
  have "scale_raw (tick_price 10010) = fp_round binary64 (of_int 4508103226997866 * pow2 (0 - 52) * 10000)"
    unfolding p by (rule scale_raw_Fin)
  also have "\<dots> = Fin (of_int 5503055697018879 * pow2 (13 - 52))"
    by (rule binary64_round_in) (simp_all add: pow2_def)
  finally have "scale_raw (tick_price 10010) = Fin (5503055697018879 / 549755813888)" by (simp add: pow2_def)
  moreover have "fp_to_u64 (Fin (5503055697018879 / 549755813888)) = Some (word_of_int \<lfloor>5503055697018879 / 549755813888 :: rat\<rfloor>)"
    by (rule trunc_cast) simp_all
  moreover have "\<lfloor>5503055697018879 / 549755813888 :: rat\<rfloor> = 10009" by (rule floor_unique) simp_all
  moreover have "scaled_price (tick_price 10010) = Some 10010" by (rule scaled_price_tick) simp_all
  ultimately show ?thesis by (simp del: fp_to_u64.simps)
qed

end
